(* ===== verification/Prelude.thy ===== *)
theory Prelude
  imports Main "HOL-Library.Sublist"
begin

text \<open>
  Shared vocabulary of the development: the Rust standard-library functions on strings that
  the modelled code calls (\<open>eq_ignore_ascii_case\<close>, \<open>strip_prefix\<close>, \<open>trim\<close>,
  \<open>splitn\<close> and the ASCII classes), lists as Rust slices (\<open>first\<close>, \<open>get\<close>), and the
  theorem collections the component theories put their rewriting facts into.

  A Rust \<open>String\<close> is modelled as the list of its UTF-8 bytes (\<^typ>\<open>string\<close>), so
  \<open>s.len()\<close> is \<^const>\<open>length\<close>. Where the code counts or trims Unicode scalar values
  (\<open>chars().count()\<close>, \<open>trim()\<close>) the bytes are decoded first by \<open>utf8_decode\<close>.
\<close>

named_theorems boundary_simps "rewriting facts of the escalation boundary"
named_theorems ledger_simps "rewriting facts of the sats ledger"
named_theorems relay_simps "rewriting facts of the relay gates"
named_theorems poker_simps "rewriting facts of the hand engine"

section \<open>Slices\<close>

text \<open>\<open>slice.get(i)\<close>: \<^const>\<open>None\<close> out of range, where indexing would panic.\<close>

definition get_at :: "'a list \<Rightarrow> nat \<Rightarrow> 'a option" where
  "get_at xs i = (if i < length xs then Some (xs ! i) else None)"

lemma get_at_Nil [simp]: "get_at [] i = None"
  by (simp add: get_at_def)

lemma get_at_Cons_0 [simp]: "get_at (x # xs) 0 = Some x"
  by (simp add: get_at_def)

lemma get_at_Cons_Suc [simp]: "get_at (x # xs) (Suc i) = get_at xs i"
  by (simp add: get_at_def)

lemma get_at_Cons_numeral [simp]: "get_at (x # xs) (numeral n) = get_at xs (pred_numeral n)"
  by (simp add: numeral_eq_Suc)

lemma get_at_Some_iff: "get_at xs i = Some x \<longleftrightarrow> i < length xs \<and> xs ! i = x"
  by (simp add: get_at_def)

lemma get_at_eq_None_iff: "get_at xs i = None \<longleftrightarrow> length xs \<le> i"
  by (simp add: get_at_def)

lemma find_Some_mem: "List.find P xs = Some x \<Longrightarrow> x \<in> set xs \<and> P x"
  by (induction xs) (auto split: if_splits)

lemma find_None_iff_ball: "List.find P xs = None \<longleftrightarrow> (\<forall>x \<in> set xs. \<not> P x)"
  by (induction xs) auto

section \<open>ASCII\<close>

definition code_of :: "char \<Rightarrow> nat" where
  "code_of c = of_char c"

text \<open>\<open>to_ascii_lowercase\<close> on one byte: only \<open>A\<close> to \<open>Z\<close> change.\<close>

definition ascii_lower_char :: "char \<Rightarrow> char" where
  "ascii_lower_char c =
     (if 65 \<le> code_of c \<and> code_of c \<le> 90 then char_of (code_of c + 32) else c)"

definition ascii_lower :: "string \<Rightarrow> string" where
  "ascii_lower s = map ascii_lower_char s"

definition eq_ignore_ascii_case :: "string \<Rightarrow> string \<Rightarrow> bool" where
  "eq_ignore_ascii_case a b \<longleftrightarrow> ascii_lower a = ascii_lower b"

definition is_ascii_digit :: "char \<Rightarrow> bool" where
  "is_ascii_digit c \<longleftrightarrow> 48 \<le> code_of c \<and> code_of c \<le> 57"

definition is_ascii_hexdigit :: "char \<Rightarrow> bool" where
  "is_ascii_hexdigit c \<longleftrightarrow>
     is_ascii_digit c \<or> (97 \<le> code_of c \<and> code_of c \<le> 102) \<or> (65 \<le> code_of c \<and> code_of c \<le> 70)"

definition is_ascii_alphanumeric :: "char \<Rightarrow> bool" where
  "is_ascii_alphanumeric c \<longleftrightarrow>
     is_ascii_digit c \<or> (97 \<le> code_of c \<and> code_of c \<le> 122) \<or> (65 \<le> code_of c \<and> code_of c \<le> 90)"

lemma ascii_lower_Nil [simp]: "ascii_lower [] = []"
  by (simp add: ascii_lower_def)

lemma ascii_lower_Cons [simp]: "ascii_lower (c # s) = ascii_lower_char c # ascii_lower s"
  by (simp add: ascii_lower_def)

lemma length_ascii_lower [simp]: "length (ascii_lower s) = length s"
  by (simp add: ascii_lower_def)

lemma code_of_char_of [simp]: "n < 256 \<Longrightarrow> code_of (char_of n) = n"
  by (simp add: code_of_def)

lemma code_of_inject: "code_of a = code_of b \<longleftrightarrow> a = b"
  by (simp add: code_of_def)

lemma ascii_lower_char_idem [simp]: "ascii_lower_char (ascii_lower_char c) = ascii_lower_char c"
  by (simp add: ascii_lower_char_def)

lemma ascii_lower_idem [simp]: "ascii_lower (ascii_lower s) = ascii_lower s"
  by (induction s) auto

lemma eq_ignore_ascii_case_refl [simp, intro]: "eq_ignore_ascii_case a a"
  by (simp add: eq_ignore_ascii_case_def)

lemma eq_ignore_ascii_case_sym: "eq_ignore_ascii_case a b \<Longrightarrow> eq_ignore_ascii_case b a"
  by (simp add: eq_ignore_ascii_case_def)

lemma eq_ignore_ascii_case_trans:
  "eq_ignore_ascii_case a b \<Longrightarrow> eq_ignore_ascii_case b c \<Longrightarrow> eq_ignore_ascii_case a c"
  by (simp add: eq_ignore_ascii_case_def)

lemma eq_ignore_ascii_case_lower [simp]:
  "eq_ignore_ascii_case (ascii_lower a) b \<longleftrightarrow> eq_ignore_ascii_case a b"
  "eq_ignore_ascii_case a (ascii_lower b) \<longleftrightarrow> eq_ignore_ascii_case a b"
  by (simp_all add: eq_ignore_ascii_case_def)

text \<open>Exactly 64 hexadecimal digits, the shape of a Nostr public key or event id.\<close>

definition is_hex64 :: "string \<Rightarrow> bool" where
  "is_hex64 s \<longleftrightarrow> length s = 64 \<and> list_all is_ascii_hexdigit s"

section \<open>Prefixes and splitting\<close>

fun strip_prefix :: "string \<Rightarrow> string \<Rightarrow> string option" where
  "strip_prefix [] s = Some s"
| "strip_prefix (p # ps) [] = None"
| "strip_prefix (p # ps) (c # cs) = (if p = c then strip_prefix ps cs else None)"

definition starts_with :: "string \<Rightarrow> string \<Rightarrow> bool" where
  "starts_with p s \<longleftrightarrow> strip_prefix p s \<noteq> None"

lemma strip_prefix_Some_iff: "strip_prefix p s = Some r \<longleftrightarrow> s = p @ r"
  by (induction p s rule: strip_prefix.induct) auto

lemma strip_prefix_append [simp]: "strip_prefix p (p @ r) = Some r"
  by (simp add: strip_prefix_Some_iff)

lemma starts_with_iff: "starts_with p s \<longleftrightarrow> (\<exists>r. s = p @ r)"
  by (auto simp: starts_with_def not_None_eq strip_prefix_Some_iff)

text \<open>\<open>split_once(c)\<close>: the text before and after the first \<open>c\<close>.\<close>

fun split_once :: "char \<Rightarrow> string \<Rightarrow> (string \<times> string) option" where
  "split_once c [] = None"
| "split_once c (x # xs) =
     (if x = c then Some ([], xs)
      else map_option (\<lambda>(a, b). (x # a, b)) (split_once c xs))"

lemma split_once_Some_iff: "split_once c s = Some (a, b) \<longleftrightarrow> s = a @ c # b \<and> c \<notin> set a"
proof (induction s arbitrary: a)
  case Nil
  then show ?case by simp
next
  case (Cons x xs)
  show ?case
    by (cases a) (auto simp: Cons.IH)
qed

lemma split_once_append: "c \<notin> set a \<Longrightarrow> split_once c (a @ c # b) = Some (a, b)"
  by (simp add: split_once_Some_iff)

section \<open>Unicode scalar values\<close>

text \<open>
  Decoding of well-formed UTF-8 into scalar values. A Rust \<open>str\<close> is always well formed;
  on other byte lists the function still returns (a stray byte decodes to itself), and no
  property relies on what.
\<close>

definition is_cont :: "char \<Rightarrow> bool" where
  "is_cont c \<longleftrightarrow> 128 \<le> code_of c \<and> code_of c < 192"

fun utf8_decode :: "string \<Rightarrow> nat list" where
  "utf8_decode [] = []"
| "utf8_decode (a # s) =
     (if code_of a < 128 then code_of a # utf8_decode s
      else if code_of a < 224 then
        (case s of b # t \<Rightarrow> ((code_of a - 192) * 64 + (code_of b - 128)) # utf8_decode t
         | [] \<Rightarrow> [code_of a])
      else if code_of a < 240 then
        (case s of b # c # t \<Rightarrow>
           ((code_of a - 224) * 4096 + (code_of b - 128) * 64 + (code_of c - 128)) # utf8_decode t
         | _ \<Rightarrow> [code_of a])
      else
        (case s of b # c # d # t \<Rightarrow>
           ((code_of a - 240) * 262144 + (code_of b - 128) * 4096 + (code_of c - 128) * 64
             + (code_of d - 128)) # utf8_decode t
         | _ \<Rightarrow> [code_of a]))"

text \<open>The Unicode \<open>White_Space\<close> scalars, which \<open>str::trim\<close> removes.\<close>

definition is_white_space :: "nat \<Rightarrow> bool" where
  "is_white_space u \<longleftrightarrow>
     (9 \<le> u \<and> u \<le> 13) \<or> u = 32 \<or> u = 133 \<or> u = 160 \<or> u = 5760
     \<or> (8192 \<le> u \<and> u \<le> 8202) \<or> u = 8232 \<or> u = 8233 \<or> u = 8239 \<or> u = 8287 \<or> u = 12288"

definition trim_scalars :: "nat list \<Rightarrow> nat list" where
  "trim_scalars us = rev (dropWhile is_white_space (rev (dropWhile is_white_space us)))"

text \<open>The scalars of \<open>s.trim()\<close>.\<close>

definition trimmed_scalars :: "string \<Rightarrow> nat list" where
  "trimmed_scalars s = trim_scalars (utf8_decode s)"

text \<open>\<open>std::str::from_utf8\<close> accepts these bytes.\<close>

definition in_range :: "nat \<Rightarrow> nat \<Rightarrow> char \<Rightarrow> bool" where
  "in_range lo hi c \<longleftrightarrow> lo \<le> code_of c \<and> code_of c \<le> hi"

fun utf8_valid :: "string \<Rightarrow> bool" where
  "utf8_valid [] = True"
| "utf8_valid (a # s) =
     (if code_of a < 128 then utf8_valid s
      else if in_range 194 223 a then
        (case s of b # t \<Rightarrow> is_cont b \<and> utf8_valid t | [] \<Rightarrow> False)
      else if in_range 224 239 a then
        (case s of b # c # t \<Rightarrow>
           (if code_of a = 224 then in_range 160 191 b
            else if code_of a = 237 then in_range 128 159 b else is_cont b)
           \<and> is_cont c \<and> utf8_valid t
         | _ \<Rightarrow> False)
      else if in_range 240 244 a then
        (case s of b # c # d # t \<Rightarrow>
           (if code_of a = 240 then in_range 144 191 b
            else if code_of a = 244 then in_range 128 143 b else is_cont b)
           \<and> is_cont c \<and> is_cont d \<and> utf8_valid t
         | _ \<Rightarrow> False)
      else False)"

definition utf8_encode :: "nat \<Rightarrow> string" where
  "utf8_encode u =
     map char_of
       (if u < 128 then [u]
        else if u < 2048 then [192 + u div 64, 128 + u mod 64]
        else if u < 65536 then [224 + u div 4096, 128 + u div 64 mod 64, 128 + u mod 64]
        else [240 + u div 262144, 128 + u div 4096 mod 64, 128 + u div 64 mod 64, 128 + u mod 64])"

text \<open>\<open>str::trim\<close>\<close>

definition trim :: "string \<Rightarrow> string" where
  "trim s = concat (map utf8_encode (trimmed_scalars s))"

lemma trim_scalars_eq_Nil_iff: "trim_scalars us = [] \<longleftrightarrow> (\<forall>u \<in> set us. is_white_space u)"
proof
  assume "trim_scalars us = []"
  then have "\<forall>u \<in> set (dropWhile is_white_space us). is_white_space u"
    unfolding trim_scalars_def rev_is_Nil_conv dropWhile_eq_Nil_conv set_rev .
  then have "dropWhile is_white_space us = []"
    by (metis hd_dropWhile hd_in_set)
  then show "\<forall>u \<in> set us. is_white_space u"
    unfolding dropWhile_eq_Nil_conv .
next
  assume "\<forall>u \<in> set us. is_white_space u"
  then have "dropWhile is_white_space us = []"
    unfolding dropWhile_eq_Nil_conv .
  then show "trim_scalars us = []"
    by (simp only: trim_scalars_def rev.simps dropWhile.simps)
qed

section \<open>Calls that can panic, numbers and string slices\<close>

text \<open>
  The result of a call that may panic: indexing or slicing out of range, an overflowing
  operation under overflow checks, an \<open>unwrap\<close> of nothing.
\<close>

datatype 'a outcome = Panics | Returns 'a

text \<open>Division of signed integers truncates towards zero.\<close>

definition tdiv :: "int \<Rightarrow> int \<Rightarrow> int" where
  "tdiv a b = sgn a * sgn b * (abs a div abs b)"

definition tmod :: "int \<Rightarrow> int \<Rightarrow> int" where
  "tmod a b = a - tdiv a b * b"

lemma tdiv_nonneg: "0 \<le> a \<Longrightarrow> 0 < b \<Longrightarrow> tdiv a b = a div b"
  by (cases "a = 0") (simp_all add: tdiv_def)

lemma tmod_nonneg: "0 \<le> a \<Longrightarrow> 0 < b \<Longrightarrow> tmod a b = a mod b"
  by (simp add: tmod_def tdiv_nonneg minus_div_mult_eq_mod)

definition is_char_boundary :: "string \<Rightarrow> nat \<Rightarrow> bool" where
  "is_char_boundary s i \<longleftrightarrow> i = 0 \<or> i = length s \<or> (i < length s \<and> \<not> is_cont (s ! i))"

text \<open>\<open>str::get(a..b)\<close>, and \<open>&s[..b]\<close>, which panics where \<open>get\<close> has no value.\<close>

definition str_get :: "string \<Rightarrow> nat \<Rightarrow> nat \<Rightarrow> string option" where
  "str_get s a b =
     (if a \<le> b \<and> is_char_boundary s a \<and> is_char_boundary s b
      then Some (take (b - a) (drop a s)) else None)"

definition str_slice_to :: "string \<Rightarrow> nat \<Rightarrow> string outcome" where
  "str_slice_to s b = (case str_get s 0 b of Some x \<Rightarrow> Returns x | None \<Rightarrow> Panics)"

definition digits_value :: "string \<Rightarrow> nat" where
  "digits_value s = foldl (\<lambda>n c. 10 * n + (code_of c - 48)) 0 s"

text \<open>\<open>str::parse\<close> for unsigned (an optional \<open>+\<close>) and signed (\<open>+\<close> or \<open>-\<close>) integers.\<close>

definition parse_nat_below :: "nat \<Rightarrow> string \<Rightarrow> nat option" where
  "parse_nat_below bound s =
     (let ds = (case s of [] \<Rightarrow> [] | c # cs \<Rightarrow> if c = CHR ''+'' then cs else s) in
      if ds = [] \<or> \<not> list_all is_ascii_digit ds then None
      else if digits_value ds < bound then Some (digits_value ds) else None)"

definition parse_u32 :: "string \<Rightarrow> nat option" where
  "parse_u32 = parse_nat_below 4294967296"

definition parse_u64 :: "string \<Rightarrow> nat option" where
  "parse_u64 = parse_nat_below 18446744073709551616"

definition parse_i64 :: "string \<Rightarrow> int option" where
  "parse_i64 s =
     (case s of [] \<Rightarrow> None
      | c # cs \<Rightarrow>
          (let neg = (c = CHR ''-''); ds = (if neg \<or> c = CHR ''+'' then cs else s) in
           if ds = [] \<or> \<not> list_all is_ascii_digit ds then None
           else if neg then (if digits_value ds \<le> 9223372036854775808
                             then Some (- int (digits_value ds)) else None)
           else if digits_value ds < 9223372036854775808 then Some (int (digits_value ds))
           else None))"

text \<open>Decimal digits of a natural number, as \<open>format!\<close> writes them.\<close>

fun dec_str :: "nat \<Rightarrow> string" where
  "dec_str n = (if n < 10 then [char_of (48 + n)] else dec_str (n div 10) @ [char_of (48 + n mod 10)])"

declare dec_str.simps [simp del]

section \<open>Numbers as \<open>f64\<close>\<close>

text \<open>
  \<open>n as f64\<close> for a \<open>u64\<close>: the nearest multiple of the power of two that leaves 53 significant
  bits, ties to even. The result is again an integer; back (\<open>as u64\<close>) saturates.
\<close>

definition f64_shift :: "nat \<Rightarrow> nat" where
  "f64_shift n = length (takeWhile (\<lambda>k. 2 ^ 53 \<le> n div 2 ^ k) [0..<12])"

definition f64_of_u64 :: "nat \<Rightarrow> nat" where
  "f64_of_u64 n =
     (let u = 2 ^ f64_shift n; q = n div u; r = n mod u in
      if 2 * r > u \<or> (2 * r = u \<and> odd q) then (q + 1) * u else q * u)"

definition u64_of_f64 :: "nat \<Rightarrow> nat" where
  "u64_of_f64 x = min x 18446744073709551615"

lemma f64_of_u64_exact: "n < 9007199254740992 \<Longrightarrow> f64_of_u64 n = n"
proof -
  assume "n < 9007199254740992"
  moreover have "[0..<12] = 0 # [Suc 0..<12]" by (simp add: upt_conv_Cons)
  ultimately have "f64_shift n = 0" by (simp add: f64_shift_def)
  then show ?thesis by (simp add: f64_of_u64_def)
qed

end
