(* ===== verification/Events.thy ===== *)
theory Events
  imports Prelude
begin

text \<open>
  Nostr events and their tags: \<open>NostrEvent\<close> of \<open>nostr-bbs-core/src/event.rs\<close> and the
  tag readers the relay and the governance core use
  (\<open>nostr-bbs-core/src/governance.rs\<close>, \<open>nostr-bbs-relay-worker/src/relay_do/filter.rs\<close>,
  \<open>relay_do/receipts.rs\<close>). The readers differ on purpose in what they do with a tag that has a
  name but no value, so each is modelled on its own and their relation is proved.

  JSON documents are the values of \<open>serde_json::Value\<close>, an object being its members in
  document order (a later duplicate wins a lookup, as the library's map insertion does).
\<close>

type_synonym tag = "string list"

text \<open>Integers of the wire format (\<open>u64\<close>) are naturals below \<open>2^64\<close>.\<close>

record nostr_event =
  ev_id :: string
  ev_pubkey :: string
  ev_created_at :: nat
  ev_kind :: nat
  ev_tags :: "tag list"
  ev_content :: string
  ev_sig :: string

section \<open>JSON values\<close>

datatype json = JNull | JBool bool | JInt int | JFloat | JStr string | JArr "json list"
  | JObj "(string \<times> json) list"

text \<open>\<open>Value::get(key)\<close>: the member of an object, nothing for any other value.\<close>

definition json_get :: "string \<Rightarrow> json \<Rightarrow> json option" where
  "json_get k v = (case v of JObj ms \<Rightarrow> map_of (rev ms) k | _ \<Rightarrow> None)"

definition json_as_str :: "json \<Rightarrow> string option" where
  "json_as_str v = (case v of JStr s \<Rightarrow> Some s | _ \<Rightarrow> None)"

definition json_as_array :: "json \<Rightarrow> json list option" where
  "json_as_array v = (case v of JArr xs \<Rightarrow> Some xs | _ \<Rightarrow> None)"

definition json_str_field :: "string \<Rightarrow> json \<Rightarrow> string option" where
  "json_str_field k v = Option.bind (json_get k v) json_as_str"

section \<open>Tag readers of the governance core\<close>

definition tag_first :: "tag \<Rightarrow> string option" where
  "tag_first t = get_at t 0"

text \<open>
  \<open>extract_tag\<close>: the second element of the first tag with this name; when that tag has no
  second element there is no value, and later tags of the same name are not looked at.
\<close>

definition extract_tag :: "tag list \<Rightarrow> string \<Rightarrow> string option" where
  "extract_tag tags name =
     Option.bind (List.find (\<lambda>t. tag_first t = Some name) tags) (\<lambda>t. get_at t 1)"

definition extract_d_tag :: "tag list \<Rightarrow> string option" where
  "extract_d_tag tags =
     Option.bind (List.find (\<lambda>t. tag_first t = Some ''d'') tags) (\<lambda>t. get_at t 1)"

definition extract_e_tag_with_marker :: "tag list \<Rightarrow> string \<Rightarrow> string option" where
  "extract_e_tag_with_marker tags marker =
     Option.bind (List.find (\<lambda>t. tag_first t = Some ''e'' \<and> get_at t 3 = Some marker) tags)
       (\<lambda>t. get_at t 1)"

definition extract_supersedes_target :: "tag list \<Rightarrow> string option" where
  "extract_supersedes_target tags = extract_e_tag_with_marker tags ''supersedes''"

definition extract_appeal_target :: "tag list \<Rightarrow> string option" where
  "extract_appeal_target tags = extract_e_tag_with_marker tags ''appeal''"

section \<open>Tag readers of the relay\<close>

definition tag_value :: "tag list \<Rightarrow> string \<Rightarrow> string option" where
  "tag_value tags name =
     map_option (\<lambda>t. t ! 1) (List.find (\<lambda>t. 2 \<le> length t \<and> t ! 0 = name) tags)"

definition d_tag_value :: "tag list \<Rightarrow> string" where
  "d_tag_value tags =
     (case List.find (\<lambda>t. tag_first t = Some ''d'') tags of
        Some t \<Rightarrow> (case get_at t 1 of Some v \<Rightarrow> v | None \<Rightarrow> [])
      | None \<Rightarrow> [])"

text \<open>\<open>p\<close>-tagged recipients, as the read gate and the live broadcast collect them.\<close>

definition p_recipients :: "tag list \<Rightarrow> string list" where
  "p_recipients tags = map (\<lambda>t. t ! 1) (filter (\<lambda>t. 2 \<le> length t \<and> t ! 0 = ''p'') tags)"

text \<open>
  \<open>channel_tag\<close>: the \<open>root\<close>-marked \<open>e\<close> tag, else the first \<open>e\<close> tag.
\<close>

definition channel_tag :: "tag list \<Rightarrow> string option" where
  "channel_tag tags =
     (let es = filter (\<lambda>t. 2 \<le> length t \<and> t ! 0 = ''e'') tags in
      map_option (\<lambda>t. t ! 1)
        (case List.find (\<lambda>t. get_at t 3 = Some ''root'') es of
           Some t \<Rightarrow> Some t
         | None \<Rightarrow> get_at es 0))"

definition zone_channel_id :: "nostr_event \<Rightarrow> string option" where
  "zone_channel_id e =
     (if ev_kind e = 40 then Some (ev_id e)
      else if ev_kind e = 41 \<or> ev_kind e = 42 then channel_tag (ev_tags e)
      else None)"

text \<open>The marker-aware readers of the receipt correlation.\<close>

definition unmarked_tag :: "tag list \<Rightarrow> string \<Rightarrow> string option" where
  "unmarked_tag tags name =
     map_option (\<lambda>t. t ! 1)
       (List.find (\<lambda>t. 2 \<le> length t \<and> t ! 0 = name \<and>
          (case get_at t 3 of None \<Rightarrow> True | Some m \<Rightarrow> m = [])) tags)"

definition tag_with_marker :: "tag list \<Rightarrow> string \<Rightarrow> string \<Rightarrow> string option" where
  "tag_with_marker tags name marker =
     map_option (\<lambda>t. t ! 1)
       (List.find (\<lambda>t. 4 \<le> length t \<and> t ! 0 = name \<and> t ! 3 = marker) tags)"

section \<open>How the readers relate\<close>

lemma tag_first_eq: "tag_first t = (case t of [] \<Rightarrow> None | x # _ \<Rightarrow> Some x)"
  by (cases t) (simp_all add: tag_first_def)

lemma find_cong_on: "(\<And>x. x \<in> set xs \<Longrightarrow> P x = Q x) \<Longrightarrow> List.find P xs = List.find Q xs"
  by (induction xs) auto

text \<open>
  The marker \<open>e\<close> reader of the core and the one of the receipts agree on every tag list.
\<close>

lemma extract_e_tag_with_marker_eq:
  "extract_e_tag_with_marker tags m = tag_with_marker tags ''e'' m"
proof -
  have "(tag_first t = Some ''e'' \<and> get_at t 3 = Some m) =
        (4 \<le> length t \<and> t ! 0 = ''e'' \<and> t ! 3 = m)" for t :: tag
    unfolding tag_first_def get_at_def by (simp add: conj_ac)
  then have *: "List.find (\<lambda>t. tag_first t = Some ''e'' \<and> get_at t 3 = Some m) tags =
        List.find (\<lambda>t. 4 \<le> length t \<and> t ! 0 = ''e'' \<and> t ! 3 = m) tags"
    by (intro find_cong_on)
  show ?thesis
  proof (cases "List.find (\<lambda>t. 4 \<le> length t \<and> t ! 0 = ''e'' \<and> t ! 3 = m) tags")
    case None
    then show ?thesis
      by (simp only: extract_e_tag_with_marker_def tag_with_marker_def * bind.simps option.map)
  next
    case (Some t)
    then have "1 < length t"
      using find_Some_mem [OF Some] by linarith
    then have "get_at t 1 = Some (t ! 1)"
      by (simp only: get_at_Some_iff simp_thms)
    with Some show ?thesis
      by (simp only: extract_e_tag_with_marker_def tag_with_marker_def * bind.simps option.map)
  qed
qed

text \<open>The two \<open>d\<close> readers differ only on a missing value.\<close>

lemma d_tag_value_eq:
  "d_tag_value tags = (case extract_d_tag tags of Some v \<Rightarrow> v | None \<Rightarrow> [])"
  by (auto simp: d_tag_value_def extract_d_tag_def split: option.splits)

lemma extract_tag_Cons:
  "extract_tag (t # ts) n = (if tag_first t = Some n then get_at t 1 else extract_tag ts n)"
  by (simp add: extract_tag_def)

lemma extract_tag_Nil [simp]: "extract_tag [] n = None"
  by (simp add: extract_tag_def)

lemma tag_value_Some_mem:
  "tag_value tags n = Some v \<Longrightarrow> \<exists>t \<in> set tags. 2 \<le> length t \<and> t ! 0 = n \<and> t ! 1 = v"
  by (auto simp: tag_value_def dest: find_Some_mem)

lemma tag_value_None_iff:
  "tag_value tags n = None \<longleftrightarrow> (\<forall>t \<in> set tags. \<not> (2 \<le> length t \<and> t ! 0 = n))"
  by (simp add: tag_value_def find_None_iff_ball)

lemma channel_tag_Some_mem:
  assumes "channel_tag tags = Some c"
  shows "\<exists>t \<in> set tags. 2 \<le> length t \<and> t ! 0 = ''e'' \<and> t ! 1 = c"
proof -
  let ?es = "filter (\<lambda>t. 2 \<le> length t \<and> t ! 0 = ''e'') tags"
  obtain t where t: "(case List.find (\<lambda>t. get_at t 3 = Some ''root'') ?es of
      Some t \<Rightarrow> Some t | None \<Rightarrow> get_at ?es 0) = Some t" and c: "t ! 1 = c"
    using assms unfolding channel_tag_def Let_def by blast
  have "List.find P xs = Some t \<or> get_at xs 0 = Some t \<Longrightarrow> t \<in> set xs" for P and xs :: "tag list"
    by (auto simp: get_at_Some_iff dest: find_Some_mem)
  then have "t \<in> set ?es"
    using t by (simp only: split: option.splits) blast+
  with c show ?thesis by auto
qed

end
