(* ===== verification/Governance.thy ===== *)
theory Governance
  imports Events
begin

text \<open>
  The governance core of \<open>nostr-bbs-core/src/governance.rs\<close>: risk tiers, the task-property
  triple and the effective tier derived from it (ADR-2011), member-surface suppression, the
  human-rationale rule (FR2.2), and the receipt-stage ladder (ADR-2010, FR4.1).
  The enums are datatypes; their derived \<open>Ord\<close> is the declaration order, here the order of
  the ranks \<open>tier_rank\<close>, \<open>verif_rank\<close> and so on, from which \<open>linorder\<close> instances
  are made so that \<open>max\<close> is the code's \<open>max\<close>.
\<close>

section \<open>Risk tiers and task properties\<close>

datatype risk_tier = TLow | TMedium | THigh | TCritical

datatype verifiability = Inspectable | Partial | Opaque

datatype reversibility = Reversible | Compensable | Irreversible

datatype stakes = Bounded | Significant | CriticalStakes

fun tier_rank :: "risk_tier \<Rightarrow> nat" where
  "tier_rank TLow = 0" | "tier_rank TMedium = 1" | "tier_rank THigh = 2" | "tier_rank TCritical = 3"

fun verif_rank :: "verifiability \<Rightarrow> nat" where
  "verif_rank Inspectable = 0" | "verif_rank Partial = 1" | "verif_rank Opaque = 2"

fun revers_rank :: "reversibility \<Rightarrow> nat" where
  "revers_rank Reversible = 0" | "revers_rank Compensable = 1" | "revers_rank Irreversible = 2"

fun stakes_rank :: "stakes \<Rightarrow> nat" where
  "stakes_rank Bounded = 0" | "stakes_rank Significant = 1" | "stakes_rank CriticalStakes = 2"

lemma tier_rank_inject: "tier_rank a = tier_rank b \<longleftrightarrow> a = b"
  by (cases a; cases b) simp_all

lemma verif_rank_inject: "verif_rank a = verif_rank b \<longleftrightarrow> a = b"
  by (cases a; cases b) simp_all

lemma revers_rank_inject: "revers_rank a = revers_rank b \<longleftrightarrow> a = b"
  by (cases a; cases b) simp_all

lemma stakes_rank_inject: "stakes_rank a = stakes_rank b \<longleftrightarrow> a = b"
  by (cases a; cases b) simp_all

instantiation risk_tier :: linorder
begin
definition less_eq_risk_tier :: "risk_tier \<Rightarrow> risk_tier \<Rightarrow> bool" where
  "a \<le> b \<longleftrightarrow> tier_rank a \<le> tier_rank b"
definition less_risk_tier :: "risk_tier \<Rightarrow> risk_tier \<Rightarrow> bool" where
  "a < b \<longleftrightarrow> tier_rank a < tier_rank b"
instance
  by standard (auto simp: less_eq_risk_tier_def less_risk_tier_def tier_rank_inject)
end

instantiation verifiability :: linorder
begin
definition less_eq_verifiability :: "verifiability \<Rightarrow> verifiability \<Rightarrow> bool" where
  "a \<le> b \<longleftrightarrow> verif_rank a \<le> verif_rank b"
definition less_verifiability :: "verifiability \<Rightarrow> verifiability \<Rightarrow> bool" where
  "a < b \<longleftrightarrow> verif_rank a < verif_rank b"
instance
  by standard (auto simp: less_eq_verifiability_def less_verifiability_def verif_rank_inject)
end

instantiation reversibility :: linorder
begin
definition less_eq_reversibility :: "reversibility \<Rightarrow> reversibility \<Rightarrow> bool" where
  "a \<le> b \<longleftrightarrow> revers_rank a \<le> revers_rank b"
definition less_reversibility :: "reversibility \<Rightarrow> reversibility \<Rightarrow> bool" where
  "a < b \<longleftrightarrow> revers_rank a < revers_rank b"
instance
  by standard (auto simp: less_eq_reversibility_def less_reversibility_def revers_rank_inject)
end

instantiation stakes :: linorder
begin
definition less_eq_stakes :: "stakes \<Rightarrow> stakes \<Rightarrow> bool" where
  "a \<le> b \<longleftrightarrow> stakes_rank a \<le> stakes_rank b"
definition less_stakes :: "stakes \<Rightarrow> stakes \<Rightarrow> bool" where
  "a < b \<longleftrightarrow> stakes_rank a < stakes_rank b"
instance
  by standard (auto simp: less_eq_stakes_def less_stakes_def stakes_rank_inject)
end

lemmas tier_order_defs =
  less_eq_risk_tier_def less_risk_tier_def less_eq_verifiability_def less_verifiability_def
  less_eq_reversibility_def less_reversibility_def less_eq_stakes_def less_stakes_def

fun tier_as_str :: "risk_tier \<Rightarrow> string" where
  "tier_as_str TLow = ''low''"
| "tier_as_str TMedium = ''medium''"
| "tier_as_str THigh = ''high''"
| "tier_as_str TCritical = ''critical''"

definition tier_parse :: "string \<Rightarrow> risk_tier" where
  "tier_parse s =
     (if s = ''low'' then TLow else if s = ''high'' then THigh
      else if s = ''critical'' then TCritical else TMedium)"

definition tier_member_suppressed :: "risk_tier \<Rightarrow> bool" where
  "tier_member_suppressed t \<longleftrightarrow> t = TLow"

fun verif_as_str :: "verifiability \<Rightarrow> string" where
  "verif_as_str Inspectable = ''inspectable''"
| "verif_as_str Partial = ''partial''"
| "verif_as_str Opaque = ''opaque''"

definition verif_parse :: "string \<Rightarrow> verifiability" where
  "verif_parse s =
     (if s = ''partial'' then Partial else if s = ''opaque'' then Opaque else Inspectable)"

fun revers_as_str :: "reversibility \<Rightarrow> string" where
  "revers_as_str Reversible = ''reversible''"
| "revers_as_str Compensable = ''compensable''"
| "revers_as_str Irreversible = ''irreversible''"

definition revers_parse :: "string \<Rightarrow> reversibility" where
  "revers_parse s =
     (if s = ''compensable'' then Compensable
      else if s = ''irreversible'' then Irreversible else Reversible)"

fun stakes_as_str :: "stakes \<Rightarrow> string" where
  "stakes_as_str Bounded = ''bounded''"
| "stakes_as_str Significant = ''significant''"
| "stakes_as_str CriticalStakes = ''critical''"

definition stakes_parse :: "string \<Rightarrow> stakes" where
  "stakes_parse s =
     (if s = ''significant'' then Significant
      else if s = ''critical'' then CriticalStakes else Bounded)"

record task_properties =
  tp_verifiability :: verifiability
  tp_reversibility :: reversibility
  tp_stakes :: stakes

definition tp_new :: "verifiability \<Rightarrow> reversibility \<Rightarrow> stakes \<Rightarrow> task_properties" where
  "tp_new v r s = \<lparr>tp_verifiability = v, tp_reversibility = r, tp_stakes = s\<rparr>"

definition tp_loosest :: task_properties where
  "tp_loosest = tp_new Inspectable Reversible Bounded"

text \<open>\<open>TaskProperties::from_tags\<close>: no \<open>tp-\<close> tag at all is \<^const>\<open>None\<close>, not the loosest triple.\<close>

definition tp_from_tags :: "tag list \<Rightarrow> task_properties option" where
  "tp_from_tags tags =
     (let v = extract_tag tags ''tp-verifiability'';
          r = extract_tag tags ''tp-reversibility'';
          s = extract_tag tags ''tp-stakes''
      in if v = None \<and> r = None \<and> s = None then None
         else Some (tp_new (case v of Some x \<Rightarrow> verif_parse x | None \<Rightarrow> Inspectable)
                           (case r of Some x \<Rightarrow> revers_parse x | None \<Rightarrow> Reversible)
                           (case s of Some x \<Rightarrow> stakes_parse x | None \<Rightarrow> Bounded)))"

definition tp_to_tags :: "task_properties \<Rightarrow> tag list" where
  "tp_to_tags p =
     [[''tp-verifiability'', verif_as_str (tp_verifiability p)],
      [''tp-reversibility'', revers_as_str (tp_reversibility p)],
      [''tp-stakes'', stakes_as_str (tp_stakes p)]]"

definition tp_merge :: "task_properties \<Rightarrow> task_properties \<Rightarrow> task_properties" where
  "tp_merge panel request =
     tp_new (max (tp_verifiability panel) (tp_verifiability request))
            (max (tp_reversibility panel) (tp_reversibility request))
            (max (tp_stakes panel) (tp_stakes request))"

fun tp_merge_opt :: "task_properties option \<Rightarrow> task_properties option \<Rightarrow> task_properties option"
where
  "tp_merge_opt None None = None"
| "tp_merge_opt (Some p) None = Some p"
| "tp_merge_opt None (Some r) = Some r"
| "tp_merge_opt (Some p) (Some r) = Some (tp_merge p r)"

definition tier_floor :: "task_properties \<Rightarrow> risk_tier" where
  "tier_floor p =
     (if tp_reversibility p = Irreversible \<or> tp_stakes p = CriticalStakes then THigh
      else if tp_verifiability p = Opaque then TMedium else TLow)"

definition forbids_suppression :: "task_properties \<Rightarrow> bool" where
  "forbids_suppression p \<longleftrightarrow>
     tp_verifiability p = Opaque \<or> tp_reversibility p = Irreversible \<or> tp_stakes p = CriticalStakes"

definition effective_tier ::
  "task_properties option \<Rightarrow> task_properties option \<Rightarrow> risk_tier option \<Rightarrow> risk_tier \<Rightarrow> risk_tier"
where
  "effective_tier panel_props request_props declared advertised_default =
     (case (declared, tp_merge_opt panel_props request_props) of
        (None, None) \<Rightarrow> advertised_default
      | (Some d, None) \<Rightarrow> d
      | (None, Some p) \<Rightarrow> max advertised_default (tier_floor p)
      | (Some d, Some p) \<Rightarrow> max d (tier_floor p))"

definition member_suppressed_effective ::
  "task_properties option \<Rightarrow> risk_tier \<Rightarrow> bool \<Rightarrow> bool"
where
  "member_suppressed_effective props effective calibration_sample =
     (if calibration_sample then False
      else if (case props of Some p \<Rightarrow> forbids_suppression p | None \<Rightarrow> False) then False
      else tier_member_suppressed effective)"

section \<open>The boundary facts\<close>

definition tp_le :: "task_properties \<Rightarrow> task_properties \<Rightarrow> bool" where
  "tp_le p q \<longleftrightarrow> tp_verifiability p \<le> tp_verifiability q \<and>
     tp_reversibility p \<le> tp_reversibility q \<and> tp_stakes p \<le> tp_stakes q"

lemma tp_new_sel [simp]:
  "tp_verifiability (tp_new v r s) = v" "tp_reversibility (tp_new v r s) = r"
  "tp_stakes (tp_new v r s) = s"
  by (simp_all add: tp_new_def)

lemma tp_eq_iff:
  "(p :: task_properties) = q \<longleftrightarrow> tp_verifiability p = tp_verifiability q \<and>
     tp_reversibility p = tp_reversibility q \<and> tp_stakes p = tp_stakes q"
  by (cases p; cases q) auto

lemma tp_merge_upper1: "tp_le p (tp_merge p r)"
  by (simp add: tp_le_def tp_merge_def)

lemma tp_merge_upper2: "tp_le r (tp_merge p r)"
  by (simp add: tp_le_def tp_merge_def)

lemma tp_merge_least: "tp_le p q \<Longrightarrow> tp_le r q \<Longrightarrow> tp_le (tp_merge p r) q"
  by (simp add: tp_le_def tp_merge_def)

lemma tp_merge_commute: "tp_merge p r = tp_merge r p"
  by (simp add: tp_eq_iff tp_merge_def max.commute)

lemma tp_merge_assoc: "tp_merge (tp_merge p q) r = tp_merge p (tp_merge q r)"
  by (simp add: tp_eq_iff tp_merge_def max.assoc)

lemma tp_merge_idem: "tp_merge p p = p"
  by (simp add: tp_eq_iff tp_merge_def)

lemma max_verif_Opaque [boundary_simps]: "max a b = Opaque \<longleftrightarrow> a = Opaque \<or> b = Opaque"
  by (cases a; cases b) (simp_all add: max_def tier_order_defs)

lemma max_revers_Irreversible [boundary_simps]:
  "max a b = Irreversible \<longleftrightarrow> a = Irreversible \<or> b = Irreversible"
  by (cases a; cases b) (simp_all add: max_def tier_order_defs)

lemma max_stakes_Critical [boundary_simps]:
  "max a b = CriticalStakes \<longleftrightarrow> a = CriticalStakes \<or> b = CriticalStakes"
  by (cases a; cases b) (simp_all add: max_def tier_order_defs)

lemma TLow_least [simp]: "TLow \<le> t"
  by (simp add: tier_order_defs)

lemma tier_floor_merge [boundary_simps]:
  "tier_floor (tp_merge p r) = max (tier_floor p) (tier_floor r)"
  by (simp add: tier_floor_def tp_merge_def boundary_simps)
     (simp add: max_def tier_order_defs)

lemma forbids_suppression_merge [boundary_simps]:
  "forbids_suppression (tp_merge p r) \<longleftrightarrow> forbids_suppression p \<or> forbids_suppression r"
  by (auto simp: forbids_suppression_def tp_merge_def boundary_simps)

text \<open>The floor a side contributes, the loosest when it declares no properties.\<close>

definition floor_opt :: "task_properties option \<Rightarrow> risk_tier" where
  "floor_opt p = (case p of Some q \<Rightarrow> tier_floor q | None \<Rightarrow> TLow)"

lemma floor_opt_simps [simp]: "floor_opt None = TLow" "floor_opt (Some p) = tier_floor p"
  by (simp_all add: floor_opt_def)

lemma floor_opt_merge [boundary_simps]:
  "floor_opt (tp_merge_opt p r) = max (floor_opt p) (floor_opt r)"
  by (cases p; cases r) (simp_all add: tier_floor_merge max_absorb1 max_absorb2)

lemma effective_tier_max:
  "effective_tier p r declared advertised =
     max (case declared of Some d \<Rightarrow> d | None \<Rightarrow> advertised) (max (floor_opt p) (floor_opt r))"
  by (cases p; cases r; cases declared)
     (simp_all add: effective_tier_def tier_floor_merge max_absorb1 max_absorb2)

lemma forbids_suppression_floor:
  "forbids_suppression p \<longleftrightarrow> tier_floor p \<noteq> TLow"
  by (auto simp: forbids_suppression_def tier_floor_def)

section \<open>Human rationale\<close>

definition min_human_rationale_chars :: nat where
  "min_human_rationale_chars = 20"

datatype rationale_error = RationaleMissing | RationaleTooShort nat

definition outcome_requires_rationale :: "string \<Rightarrow> bool" where
  "outcome_requires_rationale action \<longleftrightarrow>
     action \<in> {''approve'', ''reject'', ''amend'', ''delegate'', ''promote'', ''demote''}"

definition check_rationale :: "risk_tier \<Rightarrow> string \<Rightarrow> string option \<Rightarrow> rationale_error + unit" where
  "check_rationale effective action reasoning =
     (if \<not> (effective = THigh \<or> effective = TCritical) then Inr ()
      else if \<not> outcome_requires_rationale action then Inr ()
      else
        (let trimmed = trimmed_scalars (case reasoning of Some r \<Rightarrow> r | None \<Rightarrow> []) in
         if trimmed = [] then Inl RationaleMissing
         else if length trimmed < min_human_rationale_chars
         then Inl (RationaleTooShort (length trimmed))
         else Inr ()))"

lemma check_rationale_ok_iff:
  "check_rationale t a r = Inr () \<longleftrightarrow>
     (t = THigh \<or> t = TCritical) \<and> outcome_requires_rationale a \<longrightarrow>
     20 \<le> length (trimmed_scalars (case r of Some x \<Rightarrow> x | None \<Rightarrow> []))"
  by (auto simp: check_rationale_def Let_def min_human_rationale_chars_def)

section \<open>The receipt-stage ladder\<close>

datatype receipt_stage = Signed | RelayAccepted | ProjectionCommitted | ProjectionFailed
  | ConsumerReceived | Applied | NotApplied | AppliedManually | EscalatedOnAge | Expired

fun stage_as_str :: "receipt_stage \<Rightarrow> string" where
  "stage_as_str Signed = ''signed''"
| "stage_as_str RelayAccepted = ''relay-accepted''"
| "stage_as_str ProjectionCommitted = ''projection-committed''"
| "stage_as_str ProjectionFailed = ''projection-failed''"
| "stage_as_str ConsumerReceived = ''consumer-received''"
| "stage_as_str Applied = ''applied''"
| "stage_as_str NotApplied = ''not-applied''"
| "stage_as_str AppliedManually = ''applied-manually''"
| "stage_as_str EscalatedOnAge = ''escalated-on-age''"
| "stage_as_str Expired = ''expired''"

definition stage_parse :: "string \<Rightarrow> receipt_stage option" where
  "stage_parse s =
     (if s = ''signed'' then Some Signed
      else if s = ''relay-accepted'' then Some RelayAccepted
      else if s = ''projection-committed'' then Some ProjectionCommitted
      else if s = ''projection-failed'' then Some ProjectionFailed
      else if s = ''consumer-received'' then Some ConsumerReceived
      else if s = ''applied'' then Some Applied
      else if s = ''not-applied'' then Some NotApplied
      else if s = ''applied-manually'' then Some AppliedManually
      else if s = ''escalated-on-age'' then Some EscalatedOnAge
      else if s = ''expired'' then Some Expired
      else None)"

fun ladder_rank :: "receipt_stage \<Rightarrow> nat option" where
  "ladder_rank Signed = Some 0"
| "ladder_rank RelayAccepted = Some 1"
| "ladder_rank ProjectionCommitted = Some 2"
| "ladder_rank ConsumerReceived = Some 3"
| "ladder_rank Applied = Some 4"
| "ladder_rank NotApplied = Some 4"
| "ladder_rank AppliedManually = Some 4"
| "ladder_rank ProjectionFailed = None"
| "ladder_rank EscalatedOnAge = None"
| "ladder_rank Expired = None"

definition is_side_receipt :: "receipt_stage \<Rightarrow> bool" where
  "is_side_receipt s \<longleftrightarrow> s = EscalatedOnAge \<or> s = Expired"

definition is_application_stage :: "receipt_stage \<Rightarrow> bool" where
  "is_application_stage s \<longleftrightarrow>
     s = ConsumerReceived \<or> s = Applied \<or> s = NotApplied \<or> s = AppliedManually"


definition stage_is_applied :: "receipt_stage \<Rightarrow> bool" where
  "stage_is_applied s \<longleftrightarrow> s = ProjectionCommitted \<or> s = Applied \<or> s = AppliedManually"

definition awaits_projection :: "receipt_stage \<Rightarrow> bool" where
  "awaits_projection s \<longleftrightarrow> s = Signed \<or> s = RelayAccepted \<or> s = ProjectionFailed"

datatype stage_advance_error = NotAnApplicationStage | NotProjected | Regression
  | MissingConsumerReceived

definition can_advance_stage :: "receipt_stage \<Rightarrow> receipt_stage \<Rightarrow> stage_advance_error + unit" where
  "can_advance_stage current nxt =
     (if \<not> is_application_stage nxt then Inl NotAnApplicationStage
      else (case ladder_rank current of
        None \<Rightarrow> Inl NotProjected
      | Some current_rank \<Rightarrow>
          if current_rank < (case ladder_rank ProjectionCommitted of Some r \<Rightarrow> r | None \<Rightarrow> 2)
          then Inl NotProjected
          else (let next_rank = (case ladder_rank nxt of Some r \<Rightarrow> r | None \<Rightarrow> 0) in
            if next_rank \<le> current_rank then Inl Regression
            else if (nxt = Applied \<or> nxt = NotApplied) \<and> current \<noteq> ConsumerReceived
            then Inl MissingConsumerReceived
            else Inr ())))"


text \<open>Stages a receipt passes through under accepted advances, newest last.\<close>

inductive stage_path :: "receipt_stage \<Rightarrow> receipt_stage list \<Rightarrow> bool" where
  path_nil: "stage_path c []"
| path_step: "can_advance_stage c n = Inr () \<Longrightarrow> stage_path n ns \<Longrightarrow> stage_path c (n # ns)"

inductive_simps stage_path_Nil_simps [simp]: "stage_path c []"
inductive_simps stage_path_Cons_simps [simp]: "stage_path c (n # ns)"



section \<open>Properties\<close>

text \<open>Tightening only: merging a panel's task properties with the request's gives the least
  triple that is at least as strict as both on every axis, so a request can raise but never
  lower what its panel advertises.\<close>

theorem tp_merge_least_upper_bound:
  "tp_le (tp_merge panel request) q \<longleftrightarrow> tp_le panel q \<and> tp_le request q"
  by (auto simp: tp_le_def tp_merge_def)

text \<open>C7. The effective tier of a request under a panel that advertises task properties is the
  declared tier (or the advertised default) raised to the floor of the panel and of the request:
  whatever the request declares, it is never below the panel's floor, and a panel that is opaque,
  irreversible or critical is never suppressed from the human surface.\<close>

theorem effective_tier_floor:
  "effective_tier (Some p) r declared advertised =
     max (case declared of Some d \<Rightarrow> d | None \<Rightarrow> advertised)
       (max (tier_floor p) (case r of Some q \<Rightarrow> tier_floor q | None \<Rightarrow> TLow)) \<and>
   tier_floor p \<le> effective_tier (Some p) r declared advertised \<and>
   \<not> (forbids_suppression p \<and> member_suppressed_effective (tp_merge_opt (Some p) r)
         (effective_tier (Some p) r declared advertised) sample)"
  unfolding effective_tier_max
  by (auto simp: floor_opt_def member_suppressed_effective_def boundary_simps le_max_iff_disj
      split: option.splits)

text \<open>Task properties survive their tag form: the tags \<open>to_tags\<close> writes, followed by any
  others, are read back as the same triple, and an event without any \<open>tp-\<close> tag is read as no
  properties at all, which is not the loosest triple.\<close>

theorem tp_tags_roundtrip:
  "tp_from_tags (tp_to_tags p @ rest) = Some p \<and> tp_from_tags [] = None"
proof -
  have v: "verif_parse (verif_as_str x) = x" for x by (cases x) (simp_all add: verif_parse_def)
  have r: "revers_parse (revers_as_str x) = x" for x by (cases x) (simp_all add: revers_parse_def)
  have s: "stakes_parse (stakes_as_str x) = x" for x by (cases x) (simp_all add: stakes_parse_def)
  show ?thesis
    by (simp add: tp_from_tags_def tp_to_tags_def extract_tag_Cons tag_first_def v r s tp_eq_iff)
qed



end
