(* ===== verification/Machine.thy ===== *)
theory Machine
  imports Main
begin

text \<open>
  The contract every stateful component of the development states about its operations: a state
  type, one total step per operation (a refused operation leaves its result in the state it
  returns), and either a reflexive transitive relation every step respects (an append-only log,
  a counter that never decreases) or an invariant every step keeps. The component theories
  interpret the locales on the code's own operations and read the consequence for a whole
  sequence of operations off them.
\<close>

text \<open>Operations are applied oldest first, as the code handles its calls.\<close>

definition run :: "('op \<Rightarrow> 's \<Rightarrow> 's) \<Rightarrow> 'op list \<Rightarrow> 's \<Rightarrow> 's" where
  "run step ops s = fold step ops s"

lemma run_Nil [simp]: "run step [] s = s"
  by (simp add: run_def)

lemma run_Cons [simp]: "run step (x # xs) s = run step xs (step x s)"
  by (simp add: run_def)

lemma run_append [simp]: "run step (xs @ ys) s = run step ys (run step xs s)"
  by (simp add: run_def)

locale step_machine =
  fixes step :: "'op \<Rightarrow> 's \<Rightarrow> 's"
    and rel :: "'s \<Rightarrow> 's \<Rightarrow> bool"
  assumes rel_refl: "rel s s"
    and rel_trans: "rel s t \<Longrightarrow> rel t u \<Longrightarrow> rel s u"
    and step_rel: "rel s (step x s)"
begin

lemma run_rel: "rel s (run step ops s)"
proof (induction ops arbitrary: s)
  case Nil
  show ?case by (simp add: rel_refl)
next
  case (Cons x ops)
  from rel_trans [OF step_rel Cons.IH] show ?case by simp
qed

lemma run_rel_prefix: "rel (run step xs s) (run step (xs @ ys) s)"
  using run_rel [of "run step xs s" ys] by simp

end

locale invariant_machine =
  fixes step :: "'op \<Rightarrow> 's \<Rightarrow> 's"
    and inv :: "'s \<Rightarrow> bool"
  assumes step_inv: "inv s \<Longrightarrow> inv (step x s)"
begin

lemma run_inv: "inv s \<Longrightarrow> inv (run step ops s)"
  by (induction ops arbitrary: s) (simp_all add: step_inv)

end

text \<open>An invariant is the relation \<open>inv s \<longrightarrow> inv t\<close>.\<close>

sublocale invariant_machine \<subseteq> implied: step_machine step "\<lambda>s t. inv s \<longrightarrow> inv t"
  by unfold_locales (auto intro: step_inv)

end
