(* ===== verification/Broker.thy ===== *)
theory Broker
  imports Governance Machine
begin

text \<open>
  The broker case aggregate of \<open>nostr-bbs-core/src/governance.rs\<close>, module \<open>broker\<close>: the case
  state machine (\<open>claim\<close>, \<open>release\<close>, \<open>record_decision\<close>, \<open>supersede\<close>, \<open>reopen\<close>), the
  supersession authority gradient, the decision orchestrator and the snapshot hydration. A method
  on \<open>&mut self\<close> returns the case beside its result, so that what it leaves behind on an error
  is visible; \<open>Result\<close> is a sum with the error on the left.
\<close>

section \<open>Value objects\<close>

datatype case_state = Open | UnderReview | Decided | Delegated | Promoted | Precedent | Closed
  | Superseded | Reopened

datatype case_error = SelfReview string | AlreadyTerminal case_state
  | InvalidTransition case_state case_state | MissingAmendmentDiff | MissingDelegateTarget
  | UnauthorisedSupersession string | MissingSupersessionReason

datatype case_category = ContributorMeshShare | WorkflowReview | PolicyException | TrustAlert
  | ManualSubmission | KnowledgeEnrichment

datatype subject_kind = WorkArtifact | SkillPackage | AutomationProposal | PolicyExceptionSubject
  | OpaqueSubject

datatype share_state = Private | Team | Mesh

fun can_advance_to :: "share_state \<Rightarrow> share_state \<Rightarrow> bool" where
  "can_advance_to Private Team = True"
| "can_advance_to Team Mesh = True"
| "can_advance_to Private Mesh = True"
| "can_advance_to _ _ = False"

record subject_ref =
  sub_kind :: subject_kind
  sub_id :: string
  sub_from_state :: "share_state option"
  sub_to_state :: "share_state option"

fun is_terminal :: "case_state \<Rightarrow> bool" where
  "is_terminal Decided = True"
| "is_terminal Delegated = True"
| "is_terminal Promoted = True"
| "is_terminal Precedent = True"
| "is_terminal Closed = True"
| "is_terminal Superseded = True"
| "is_terminal Open = False"
| "is_terminal UnderReview = False"
| "is_terminal Reopened = False"

fun case_state_as_str :: "case_state \<Rightarrow> string" where
  "case_state_as_str Open = ''open''"
| "case_state_as_str UnderReview = ''under_review''"
| "case_state_as_str Decided = ''decided''"
| "case_state_as_str Delegated = ''delegated''"
| "case_state_as_str Promoted = ''promoted''"
| "case_state_as_str Precedent = ''precedent''"
| "case_state_as_str Closed = ''closed''"
| "case_state_as_str Superseded = ''superseded''"
| "case_state_as_str Reopened = ''reopened''"

definition case_state_parse :: "string \<Rightarrow> case_state" where
  "case_state_parse s =
     (if s = ''under_review'' then UnderReview
      else if s = ''decided'' \<or> s = ''resolved'' \<or> s = ''rejected'' then Decided
      else if s = ''delegated'' then Delegated
      else if s = ''promoted'' then Promoted
      else if s = ''precedent'' then Precedent
      else if s = ''closed'' then Closed
      else if s = ''superseded'' then Superseded
      else if s = ''reopened'' then Reopened
      else Open)"

definition category_parse :: "string \<Rightarrow> case_category" where
  "category_parse s =
     (if s = ''contributor_mesh_share'' then ContributorMeshShare
      else if s = ''workflow_review'' then WorkflowReview
      else if s = ''policy_exception'' then PolicyException
      else if s = ''trust_alert'' then TrustAlert
      else if s = ''knowledge_enrichment'' then KnowledgeEnrichment
      else ManualSubmission)"

definition share_state_parse :: "string \<Rightarrow> share_state option" where
  "share_state_parse s =
     (if s = ''private'' then Some Private
      else if s = ''team'' then Some Team
      else if s = ''mesh'' then Some Mesh
      else None)"

datatype decision_outcome = Approve | Reject | Amend string | Delegate string | Promote string
  | Demote string | PrecedentOf string

fun action_str :: "decision_outcome \<Rightarrow> string" where
  "action_str Approve = ''approve''"
| "action_str Reject = ''reject''"
| "action_str (Amend _) = ''amend''"
| "action_str (Delegate _) = ''delegate''"
| "action_str (Promote _) = ''promote''"
| "action_str (Demote _) = ''demote''"
| "action_str (PrecedentOf _) = ''precedent''"

fun outcome_detail :: "decision_outcome \<Rightarrow> string option" where
  "outcome_detail Approve = None"
| "outcome_detail Reject = None"
| "outcome_detail (Amend d) = Some d"
| "outcome_detail (Delegate d) = Some d"
| "outcome_detail (Promote i) = Some i"
| "outcome_detail (Demote i) = Some i"
| "outcome_detail (PrecedentOf s) = Some s"

section \<open>Supersession authority\<close>

definition governance_role_rank :: "string \<Rightarrow> nat" where
  "governance_role_rank role =
     (if role = ''owner'' then 4 else if role = ''admin'' then 3
      else if role = ''moderator'' then 2 else if role = ''reviewer'' then 1 else 0)"

datatype supersede_authority = OriginalSigner | HigherRole | Unauthorised

definition is_authorised :: "supersede_authority \<Rightarrow> bool" where
  "is_authorised a \<longleftrightarrow> a \<noteq> Unauthorised"

definition supersede_authority_of :: "string \<Rightarrow> string \<Rightarrow> nat \<Rightarrow> nat \<Rightarrow> supersede_authority" where
  "supersede_authority_of original_signer superseder original_rank superseder_rank =
     (if superseder = original_signer then OriginalSigner
      else if superseder_rank > original_rank then HigherRole
      else Unauthorised)"

section \<open>The case aggregate\<close>

record decision_entry =
  de_decision_id :: string
  de_outcome :: decision_outcome
  de_broker :: string
  de_decided_at :: nat
  de_prior :: "string option"
  de_reasoning :: string

record broker_case =
  bc_id :: string
  bc_category :: case_category
  bc_subject :: subject_ref
  bc_title :: string
  bc_summary :: string
  bc_state :: case_state
  bc_priority :: nat
  bc_created_by :: string
  bc_created_at :: nat
  bc_updated_at :: nat
  bc_assigned_to :: "string option"
  bc_history :: "decision_entry list"
  bc_metadata :: "string \<Rightarrow> string option"
  bc_nostr_event_id :: "string option"

definition case_new ::
  "string \<Rightarrow> case_category \<Rightarrow> subject_ref \<Rightarrow> string \<Rightarrow> string \<Rightarrow> string \<Rightarrow> nat \<Rightarrow> nat \<Rightarrow> broker_case"
where
  "case_new i category subject title summary created_by priority now =
     \<lparr>bc_id = i, bc_category = category, bc_subject = subject, bc_title = title,
      bc_summary = summary, bc_state = Open, bc_priority = priority, bc_created_by = created_by,
      bc_created_at = now, bc_updated_at = now, bc_assigned_to = None, bc_history = [],
      bc_metadata = (\<lambda>_. None), bc_nostr_event_id = None\<rparr>"

definition claim :: "string \<Rightarrow> nat \<Rightarrow> broker_case \<Rightarrow> broker_case \<times> (case_error + unit)" where
  "claim b now c =
     (if b = bc_created_by c then (c, Inl (SelfReview b))
      else case bc_state c of
        Open \<Rightarrow> (c\<lparr>bc_state := UnderReview, bc_assigned_to := Some b, bc_updated_at := now\<rparr>, Inr ())
      | UnderReview \<Rightarrow>
          (if bc_assigned_to c = Some b then (c, Inr ())
           else (c, Inl (InvalidTransition (bc_state c) UnderReview)))
      | other \<Rightarrow> (c, Inl (AlreadyTerminal other)))"

definition release :: "nat \<Rightarrow> broker_case \<Rightarrow> broker_case \<times> (case_error + unit)" where
  "release now c =
     (if bc_state c \<noteq> UnderReview then (c, Inl (InvalidTransition (bc_state c) Open))
      else (c\<lparr>bc_state := Open, bc_assigned_to := None, bc_updated_at := now\<rparr>, Inr ()))"

definition is_blank :: "string \<Rightarrow> bool" where
  "is_blank s \<longleftrightarrow> trimmed_scalars s = []"

text \<open>The detail rules both \<open>record_decision\<close> and \<open>supersede\<close> check.\<close>

fun outcome_error :: "decision_outcome \<Rightarrow> case_error option" where
  "outcome_error (Amend d) = (if is_blank d then Some MissingAmendmentDiff else None)"
| "outcome_error (Delegate d) = (if is_blank d then Some MissingDelegateTarget else None)"
| "outcome_error _ = None"

fun state_after :: "decision_outcome \<Rightarrow> case_state" where
  "state_after Approve = Decided"
| "state_after Reject = Decided"
| "state_after (Amend _) = Decided"
| "state_after (Demote _) = Decided"
| "state_after (Delegate _) = Delegated"
| "state_after (Promote _) = Promoted"
| "state_after (PrecedentOf _) = Precedent"

definition latest_decision_id :: "broker_case \<Rightarrow> string option" where
  "latest_decision_id c =
     (if bc_history c = [] then None else Some (de_decision_id (last (bc_history c))))"

definition record_decision ::
  "string \<Rightarrow> decision_outcome \<Rightarrow> string \<Rightarrow> string \<Rightarrow> nat \<Rightarrow> broker_case \<Rightarrow>
   broker_case \<times> (case_error + decision_entry)"
where
  "record_decision did outcome broker reasoning now c =
     (if broker = bc_created_by c then (c, Inl (SelfReview broker))
      else if is_terminal (bc_state c) then (c, Inl (AlreadyTerminal (bc_state c)))
      else case outcome_error outcome of
        Some e \<Rightarrow> (c, Inl e)
      | None \<Rightarrow>
          (let entry = \<lparr>de_decision_id = did, de_outcome = outcome, de_broker = broker,
                         de_decided_at = now, de_prior = latest_decision_id c,
                         de_reasoning = reasoning\<rparr>
           in (c\<lparr>bc_history := bc_history c @ [entry], bc_state := state_after outcome,
                 bc_updated_at := now\<rparr>, Inr entry)))"

definition supersede ::
  "string \<Rightarrow> string \<Rightarrow> decision_outcome \<Rightarrow> string \<Rightarrow> string \<Rightarrow> supersede_authority \<Rightarrow> nat \<Rightarrow>
   broker_case \<Rightarrow> broker_case \<times> (case_error + decision_entry)"
where
  "supersede new_id old_id outcome superseder reason authority now c =
     (if \<not> is_authorised authority then (c, Inl (UnauthorisedSupersession superseder))
      else if is_blank reason then (c, Inl MissingSupersessionReason)
      else if superseder = bc_created_by c then (c, Inl (SelfReview superseder))
      else case outcome_error outcome of
        Some e \<Rightarrow> (c, Inl e)
      | None \<Rightarrow>
          (let entry = \<lparr>de_decision_id = new_id, de_outcome = outcome, de_broker = superseder,
                         de_decided_at = now, de_prior = Some old_id, de_reasoning = reason\<rparr>
           in (c\<lparr>bc_history := bc_history c @ [entry], bc_state := Superseded,
                 bc_updated_at := now\<rparr>, Inr entry)))"

definition reopen :: "nat \<Rightarrow> broker_case \<Rightarrow> broker_case \<times> (case_error + unit)" where
  "reopen now c =
     (if bc_state c \<in> {Decided, Delegated, Promoted, Precedent, Superseded}
      then (c\<lparr>bc_state := Reopened, bc_updated_at := now\<rparr>, Inr ())
      else (c, Inl (InvalidTransition (bc_state c) Reopened)))"

section \<open>The decision orchestrator\<close>

record share_plan =
  plan_case_id :: string
  plan_subject :: subject_ref
  plan_from :: share_state
  plan_to :: share_state
  plan_approved_by :: string

datatype orchestration_error = CaseErr case_error | ShareTransitionRejected share_state share_state

record decision_report =
  rep_case_id :: string
  rep_entry :: decision_entry
  rep_share_plan :: "share_plan option"

definition build_share_plan ::
  "broker_case \<Rightarrow> string \<Rightarrow> orchestration_error + share_plan option"
where
  "build_share_plan c approved_by =
     (case (sub_from_state (bc_subject c), sub_to_state (bc_subject c)) of
        (Some f, Some t) \<Rightarrow>
          (if \<not> can_advance_to f t then Inl (ShareTransitionRejected f t)
           else Inr (Some \<lparr>plan_case_id = bc_id c, plan_subject = bc_subject c, plan_from = f,
                           plan_to = t, plan_approved_by = approved_by\<rparr>))
      | _ \<Rightarrow> Inr None)"

definition plans_share :: "case_category \<Rightarrow> decision_outcome \<Rightarrow> bool" where
  "plans_share category outcome \<longleftrightarrow> category = ContributorMeshShare \<and>
     (case outcome of Approve \<Rightarrow> True | Promote _ \<Rightarrow> True | _ \<Rightarrow> False)"

text \<open>
  \<open>decide\<close> records the decision first and builds the share plan second, with \<open>?\<close> after
  each: a refused share plan returns an error from a case that has already moved.
\<close>

definition decide ::
  "string \<Rightarrow> decision_outcome \<Rightarrow> string \<Rightarrow> string \<Rightarrow> nat \<Rightarrow> broker_case \<Rightarrow>
   broker_case \<times> (orchestration_error + decision_report)"
where
  "decide did outcome broker reasoning now c =
     (case record_decision did outcome broker reasoning now c of
        (c', Inl e) \<Rightarrow> (c', Inl (CaseErr e))
      | (c', Inr entry) \<Rightarrow>
          (case (if plans_share (bc_category c') outcome then build_share_plan c' broker
                 else Inr None) of
             Inl e \<Rightarrow> (c', Inl e)
           | Inr plan \<Rightarrow>
               (c', Inr \<lparr>rep_case_id = bc_id c', rep_entry = entry, rep_share_plan = plan\<rparr>)))"

record case_snapshot =
  snap_id :: string
  snap_category :: case_category
  snap_created_by :: string
  snap_state :: case_state
  snap_from_state :: "share_state option"
  snap_to_state :: "share_state option"
  snap_latest_decision_id :: "string option"

definition hydrate :: "case_snapshot \<Rightarrow> nat \<Rightarrow> broker_case" where
  "hydrate s now =
     (let c = (case_new (snap_id s) (snap_category s)
                 \<lparr>sub_kind = OpaqueSubject, sub_id = [], sub_from_state = snap_from_state s,
                  sub_to_state = snap_to_state s\<rparr> [] [] (snap_created_by s) 50 now)
                \<lparr>bc_state := snap_state s\<rparr>
      in case snap_latest_decision_id s of
           Some prior \<Rightarrow> c\<lparr>bc_history := bc_history c @
             [\<lparr>de_decision_id = prior, de_outcome = Approve, de_broker = [], de_decided_at = 0,
               de_prior = None, de_reasoning = []\<rparr>]\<rparr>
         | None \<Rightarrow> c)"

section \<open>One step of a case\<close>

text \<open>Every mutating method of the aggregate, its result dropped.\<close>

datatype case_op = OpClaim string nat | OpRelease nat
  | OpDecide string decision_outcome string string nat
  | OpSupersede string string decision_outcome string string supersede_authority nat
  | OpReopen nat

fun case_step :: "case_op \<Rightarrow> broker_case \<Rightarrow> broker_case" where
  "case_step (OpClaim b now) c = fst (claim b now c)"
| "case_step (OpRelease now) c = fst (release now c)"
| "case_step (OpDecide did o' b r now) c = fst (decide did o' b r now c)"
| "case_step (OpSupersede n p o' b r a now) c = fst (supersede n p o' b r a now c)"
| "case_step (OpReopen now) c = fst (reopen now c)"

fun is_supersede :: "case_op \<Rightarrow> bool" where
  "is_supersede (OpSupersede _ _ _ _ _ _ _) = True"
| "is_supersede _ = False"

fun is_reopen :: "case_op \<Rightarrow> bool" where
  "is_reopen (OpReopen _) = True"
| "is_reopen _ = False"

lemma decide_case: "fst (decide did o' b r now c) = fst (record_decision did o' b r now c)"
  by (auto simp: decide_def split: prod.splits sum.splits)

lemma state_after_terminal [simp]: "is_terminal (state_after o')"
  by (cases o') simp_all

text \<open>What an accepted and what a refused decision leave.\<close>

lemma record_decision_cases:
  obtains (refused) e where "record_decision did o' b r now c = (c, Inl e)"
  | (recorded) entry where
      "record_decision did o' b r now c =
         (c\<lparr>bc_history := bc_history c @ [entry], bc_state := state_after o',
            bc_updated_at := now\<rparr>, Inr entry)"
      "entry = \<lparr>de_decision_id = did, de_outcome = o', de_broker = b, de_decided_at = now,
                de_prior = latest_decision_id c, de_reasoning = r\<rparr>"
      "b \<noteq> bc_created_by c" "\<not> is_terminal (bc_state c)" "outcome_error o' = None"
proof (cases "b \<noteq> bc_created_by c \<and> \<not> is_terminal (bc_state c) \<and> outcome_error o' = None")
  case True
  show ?thesis
    by (rule recorded [OF _ refl]) (simp_all add: record_decision_def True Let_def)
next
  case False
  then have "\<exists>e. record_decision did o' b r now c = (c, Inl e)"
    by (cases "outcome_error o'") (auto simp: record_decision_def)
  then show ?thesis using refused by blast
qed

lemma supersede_cases:
  obtains (refused) e where "supersede n p o' b r a now c = (c, Inl e)"
  | (recorded) entry where
      "supersede n p o' b r a now c =
         (c\<lparr>bc_history := bc_history c @ [entry], bc_state := Superseded,
            bc_updated_at := now\<rparr>, Inr entry)"
      "entry = \<lparr>de_decision_id = n, de_outcome = o', de_broker = b, de_decided_at = now,
                de_prior = Some p, de_reasoning = r\<rparr>"
      "b \<noteq> bc_created_by c" "is_authorised a" "\<not> is_blank r" "outcome_error o' = None"
proof (cases "b \<noteq> bc_created_by c \<and> is_authorised a \<and> \<not> is_blank r \<and> outcome_error o' = None")
  case True
  show ?thesis
    by (rule recorded [OF _ refl]) (simp_all add: supersede_def True Let_def)
next
  case False
  then have "\<exists>e. supersede n p o' b r a now c = (c, Inl e)"
    by (cases "outcome_error o'") (auto simp: supersede_def)
  then show ?thesis using refused by blast
qed

lemma claim_cases:
  "fst (claim b now c) = c \<or>
   (fst (claim b now c) = c\<lparr>bc_state := UnderReview, bc_assigned_to := Some b, bc_updated_at := now\<rparr>
    \<and> bc_state c = Open \<and> b \<noteq> bc_created_by c)"
  by (cases "bc_state c") (simp_all add: claim_def)

lemma release_cases:
  "fst (release now c) = c \<or>
   (fst (release now c) = c\<lparr>bc_state := Open, bc_assigned_to := None, bc_updated_at := now\<rparr>
    \<and> bc_state c = UnderReview)"
  by (simp add: release_def)

lemma reopen_cases:
  "fst (reopen now c) = c \<or>
   (fst (reopen now c) = c\<lparr>bc_state := Reopened, bc_updated_at := now\<rparr> \<and> is_terminal (bc_state c))"
  by (cases "bc_state c") (simp_all add: reopen_def)

section \<open>The audit log only grows\<close>

text \<open>An entry the aggregate may hold: not by the case's creator, and complete in its detail.\<close>

definition entry_ok :: "string \<Rightarrow> decision_entry \<Rightarrow> bool" where
  "entry_ok creator e \<longleftrightarrow> de_broker e \<noteq> creator \<and> outcome_error (de_outcome e) = None"

definition case_extends :: "broker_case \<Rightarrow> broker_case \<Rightarrow> bool" where
  "case_extends c d \<longleftrightarrow> bc_id d = bc_id c \<and> bc_created_by d = bc_created_by c \<and>
     bc_category d = bc_category c \<and> bc_subject d = bc_subject c \<and>
     (\<exists>es. bc_history d = bc_history c @ es \<and> list_all (entry_ok (bc_created_by c)) es)"

lemma case_extends_refl [simp, intro]: "case_extends c c"
  by (simp add: case_extends_def)

lemma case_extends_trans: "case_extends a b \<Longrightarrow> case_extends b c \<Longrightarrow> case_extends a c"
  by (auto simp: case_extends_def)

lemma case_extends_same [intro]:
  "bc_id d = bc_id c \<Longrightarrow> bc_created_by d = bc_created_by c \<Longrightarrow> bc_category d = bc_category c \<Longrightarrow>
   bc_subject d = bc_subject c \<Longrightarrow> bc_history d = bc_history c \<Longrightarrow> case_extends c d"
  by (simp add: case_extends_def)

lemma record_decision_extends: "case_extends c (fst (record_decision did o' b r now c))"
  by (cases rule: record_decision_cases [of did o' b r now c])
     (auto simp: case_extends_def entry_ok_def)

lemma supersede_extends: "case_extends c (fst (supersede n p o' b r a now c))"
  by (cases rule: supersede_cases [of n p o' b r a now c])
     (auto simp: case_extends_def entry_ok_def)

lemma case_step_extends: "case_extends c (case_step x c)"
proof (cases x)
  case (OpClaim b now)
  then show ?thesis using claim_cases [of b now c] by auto
next
  case (OpRelease now)
  then show ?thesis using release_cases [of now c] by auto
next
  case (OpReopen now)
  then show ?thesis using reopen_cases [of now c] by auto
qed (simp_all add: decide_case record_decision_extends supersede_extends)

interpretation case_log: step_machine case_step case_extends
  by unfold_locales (auto intro: case_extends_trans case_step_extends)

section \<open>How many decisions a case can hold\<close>

definition case_budget :: "broker_case \<Rightarrow> nat" where
  "case_budget c = length (bc_history c) + (if is_terminal (bc_state c) then 0 else 1)"

definition reviewable_again :: "case_op \<Rightarrow> bool" where
  "reviewable_again x \<longleftrightarrow> is_supersede x \<or> is_reopen x"

lemma case_step_budget:
  "case_budget (case_step x c) \<le> case_budget c + (if reviewable_again x then 1 else 0)"
proof (cases x)
  case (OpClaim b now)
  then show ?thesis using claim_cases [of b now c] by (auto simp: case_budget_def)
next
  case (OpRelease now)
  then show ?thesis using release_cases [of now c] by (auto simp: case_budget_def)
next
  case (OpDecide did o' b r now)
  then show ?thesis
    by (cases rule: record_decision_cases [of did o' b r now c])
       (simp_all add: case_budget_def decide_case)
next
  case (OpSupersede n p o' b r a now)
  then show ?thesis
    by (cases rule: supersede_cases [of n p o' b r a now c])
       (simp_all add: case_budget_def reviewable_again_def)
next
  case (OpReopen now)
  then show ?thesis
    using reopen_cases [of now c] by (auto simp: case_budget_def reviewable_again_def)
qed

lemma case_run_budget:
  "case_budget (run case_step ops c) \<le> case_budget c + length (filter reviewable_again ops)"
proof (induction ops arbitrary: c)
  case (Cons x ops)
  from Cons.IH [of "case_step x c"] case_step_budget [of x c] show ?case
    by (simp split: if_splits)
qed simp

section \<open>The provenance chain\<close>

fun linked :: "decision_entry list \<Rightarrow> bool" where
  "linked [] = True"
| "linked [e] = True"
| "linked (e # f # es) = (de_prior f = Some (de_decision_id e) \<and> linked (f # es))"

lemma linked_snoc:
  "linked (h @ [e]) \<longleftrightarrow> linked h \<and> (h = [] \<or> de_prior e = Some (de_decision_id (last h)))"
  by (induction h rule: linked.induct) auto

lemma case_step_linked:
  "\<not> is_supersede x \<Longrightarrow> linked (bc_history c) \<Longrightarrow> linked (bc_history (case_step x c))"
proof (cases x)
  case (OpClaim b now)
  then show "linked (bc_history c) \<Longrightarrow> ?thesis" using claim_cases [of b now c] by auto
next
  case (OpRelease now)
  then show "linked (bc_history c) \<Longrightarrow> ?thesis" using release_cases [of now c] by auto
next
  case (OpDecide did o' b r now)
  then show "linked (bc_history c) \<Longrightarrow> ?thesis"
    by (cases rule: record_decision_cases [of did o' b r now c])
       (simp_all add: decide_case linked_snoc latest_decision_id_def)
next
  case (OpReopen now)
  then show "linked (bc_history c) \<Longrightarrow> ?thesis" using reopen_cases [of now c] by auto
qed simp

lemma run_linked:
  "list_all (\<lambda>x. \<not> is_supersede x) ops \<Longrightarrow> linked (bc_history c) \<Longrightarrow>
   linked (bc_history (run case_step ops c))"
  by (induction ops arbitrary: c) (auto intro: case_step_linked)

section \<open>The flat row holds all the orchestrator reads\<close>

text \<open>The columns of \<open>broker_cases\<close> the relay reads back into a \<open>CaseSnapshot\<close>.\<close>

definition snapshot_of :: "broker_case \<Rightarrow> case_snapshot" where
  "snapshot_of c =
     \<lparr>snap_id = bc_id c, snap_category = bc_category c, snap_created_by = bc_created_by c,
      snap_state = bc_state c, snap_from_state = sub_from_state (bc_subject c),
      snap_to_state = sub_to_state (bc_subject c),
      snap_latest_decision_id = latest_decision_id c\<rparr>"

text \<open>A report without the subject reference, which the row does not carry.\<close>

definition report_core ::
  "decision_report \<Rightarrow>
   string \<times> decision_entry \<times> (string \<times> share_state \<times> share_state \<times> string) option"
where
  "report_core r =
     (rep_case_id r, rep_entry r,
      map_option (\<lambda>p. (plan_case_id p, plan_from p, plan_to p, plan_approved_by p))
        (rep_share_plan r))"

lemma snapshot_hydrate [simp]: "snapshot_of (hydrate s n) = s"
  by (cases s) (auto simp: snapshot_of_def hydrate_def case_new_def latest_decision_id_def Let_def
        split: option.splits)

text \<open>What \<open>decide\<close> reads of a case and what it leaves depends on the snapshot alone.\<close>

lemma record_decision_snapshot:
  assumes "snapshot_of c = snapshot_of d"
  shows "snd (record_decision did o' b r now c) = snd (record_decision did o' b r now d)"
    and "snapshot_of (fst (record_decision did o' b r now c)) =
         snapshot_of (fst (record_decision did o' b r now d))"
  using assms
  by (auto simp: snapshot_of_def record_decision_def Let_def latest_decision_id_def
      split: option.splits if_splits)

lemma build_share_plan_snapshot:
  assumes "snapshot_of c = snapshot_of d"
  shows "map_sum id (map_option (\<lambda>p. (plan_case_id p, plan_from p, plan_to p, plan_approved_by p)))
           (build_share_plan c b) =
         map_sum id (map_option (\<lambda>p. (plan_case_id p, plan_from p, plan_to p, plan_approved_by p)))
           (build_share_plan d b)"
  using assms by (auto simp: snapshot_of_def build_share_plan_def split: option.splits)

lemma decide_snapshot:
  assumes "snapshot_of c = snapshot_of d"
  shows "map_sum id report_core (snd (decide did o' b r now c)) =
           map_sum id report_core (snd (decide did o' b r now d)) \<and>
         snapshot_of (fst (decide did o' b r now c)) = snapshot_of (fst (decide did o' b r now d))"
proof (cases "snd (record_decision did o' b r now c)")
  case (Inl e)
  then show ?thesis
    using record_decision_snapshot [OF assms, of did o' b r now]
    by (auto simp: decide_def split: prod.splits)
next
  case (Inr entry)
  obtain c' d' where e: "record_decision did o' b r now c = (c', Inr entry)"
    "record_decision did o' b r now d = (d', Inr entry)"
    using Inr record_decision_snapshot(1) [OF assms, of did o' b r now]
    by (metis prod.collapse)
  have s: "snapshot_of c' = snapshot_of d'"
    using record_decision_snapshot(2) [OF assms, of did o' b r now] e by simp
  have cat: "bc_category c' = bc_category d'" "bc_id c' = bc_id d'"
    using s by (simp_all add: snapshot_of_def)
  from build_share_plan_snapshot [OF s, of b] s cat show ?thesis
    unfolding decide_def e
    by (auto simp: report_core_def split: sum.splits option.splits)
qed

section \<open>Properties\<close>

text \<open>C3. Whatever sequence of claims, releases, decisions, supersessions and reopenings a case
  goes through, its decision history is only ever extended at the end: no entry is rewritten or
  dropped, the case's identity, creator, category and subject never change, and every added entry
  was decided by someone other than the case's creator and carries the detail (diff, delegate)
  its outcome requires.\<close>

theorem case_audit_log: "case_extends c (run case_step ops c)"
  by (rule case_log.run_rel)

text \<open>A case takes at most one decision per review: the history grows by at most one entry
  plus one for every supersession or reopening among the operations, because a decided case is
  terminal and refuses \<open>record_decision\<close> until it is reopened.\<close>

theorem case_decisions_bounded:
  "length (bc_history (run case_step ops c)) \<le>
     length (bc_history c) + 1 + length (filter (\<lambda>x. is_supersede x \<or> is_reopen x) ops)"
  using case_run_budget [of ops c]
  by (simp add: case_budget_def reviewable_again_def [abs_def] split: if_splits)

text \<open>The provenance chain: on a new case taken through any operations other than
  supersession (whose entry names the decision it replaces instead), each entry of the history
  names the entry before it as its prior decision.\<close>

theorem case_provenance_chain:
  "linked (bc_history (run case_step (filter (\<lambda>x. \<not> is_supersede x) ops)
     (case_new i category subject title summary creator priority now)))"
  by (rule run_linked) (simp_all add: list_all_iff case_new_def)

text \<open>C9. Refinement of the aggregate by its flat row: deciding on the case rebuilt by
  \<open>CaseSnapshot::hydrate\<close> from the row gives the error, history entry and share transition
  that deciding on the full aggregate gives, and leaves the same row.\<close>

theorem hydrate_refines_decide:
  "map_sum id report_core (snd (decide did o' b r now (hydrate (snapshot_of c) n))) =
     map_sum id report_core (snd (decide did o' b r now c)) \<and>
   snapshot_of (fst (decide did o' b r now (hydrate (snapshot_of c) n))) =
     snapshot_of (fst (decide did o' b r now c))"
  by (rule decide_snapshot) simp

text \<open>C11. Supersession under the authority gradient: with the authority the code computes from
  the original signer and the two role ranks, a supersession is recorded exactly when the
  superseder signed the original decision or ranks strictly above its signer, states a reason
  that is not blank, is not the case's creator, and gives the detail its outcome requires. The
  case is left unchanged otherwise.\<close>

theorem supersede_recorded_iff:
  "(case supersede n p o' b r (supersede_authority_of signer b rank_signer rank_b) now c of
      (c', Inr e) \<Rightarrow> (b = signer \<or> rank_signer < rank_b) \<and> \<not> is_blank r \<and> b \<noteq> bc_created_by c \<and>
         outcome_error o' = None \<and> de_prior e = Some p \<and> de_outcome e = o' \<and> de_broker e = b \<and>
         bc_history c' = bc_history c @ [e] \<and> bc_state c' = Superseded
    | (c', Inl _) \<Rightarrow> c' = c \<and> \<not> ((b = signer \<or> rank_signer < rank_b) \<and> \<not> is_blank r \<and>
         b \<noteq> bc_created_by c \<and> outcome_error o' = None))"
  by (auto simp: supersede_def supersede_authority_of_def is_authorised_def Let_def
      split: option.splits)

text \<open>An error of \<open>decide\<close> is not always free of effect: a decision refused by the case's
  own rules leaves the case as it was, but one refused because its share transition is not
  forward has already been recorded, so the aggregate holds the entry and is terminal although
  the caller was told \<open>Err\<close>.\<close>

theorem decide_error_effect:
  "(case decide did o' b r now c of
      (c', Inl (CaseErr _)) \<Rightarrow> c' = c
    | (c', Inl (ShareTransitionRejected f t)) \<Rightarrow> \<not> can_advance_to f t \<and>
        length (bc_history c') = Suc (length (bc_history c)) \<and> is_terminal (bc_state c')
    | (c', Inr rep) \<Rightarrow> bc_history c' = bc_history c @ [rep_entry rep] \<and> is_terminal (bc_state c'))"
  by (cases rule: record_decision_cases [of did o' b r now c])
     (auto simp: decide_def build_share_plan_def split: sum.splits option.splits if_splits)

end
