(* ===== verification/Ontology.thy ===== *)
theory Ontology
  imports Governance
begin

text \<open>
  The ontology-governance profile of \<open>nostr-bbs-core/src/ontology_governance.rs\<close> (ADR-2013):
  the proposal level and the property floor it contributes to the boundary, and the reader of a
  proposal's expiry instant, a hand-written RFC 3339 parser over Hinnant's civil-day arithmetic.
  The arithmetic is proved equal to counting days year by year and month by month.
\<close>

section \<open>Proposal levels\<close>

datatype proposal_level = Content | Schema | Demotion

fun level_as_str :: "proposal_level \<Rightarrow> string" where
  "level_as_str Content = ''content''"
| "level_as_str Schema = ''schema''"
| "level_as_str Demotion = ''demotion''"

definition level_parse :: "string \<Rightarrow> proposal_level" where
  "level_parse s = (if s = ''schema'' then Schema else if s = ''demotion'' then Demotion else Content)"

definition level_from_tags :: "tag list \<Rightarrow> proposal_level option" where
  "level_from_tags tags = map_option level_parse (extract_tag tags ''level'')"

definition is_schema_tier :: "proposal_level \<Rightarrow> bool" where
  "is_schema_tier l \<longleftrightarrow> l = Schema \<or> l = Demotion"

definition property_floor :: "proposal_level \<Rightarrow> task_properties option" where
  "property_floor l =
     (if is_schema_tier l then Some (tp_loosest\<lparr>tp_stakes := CriticalStakes\<rparr>) else None)"

definition level_property_floor :: "tag list \<Rightarrow> task_properties option" where
  "level_property_floor request_tags = Option.bind (level_from_tags request_tags) property_floor"

lemma tier_floor_property_floor:
  "property_floor l = Some p \<Longrightarrow> tier_floor p = THigh"
  by (auto simp: property_floor_def tier_floor_def split: if_splits)

section \<open>Civil days\<close>

definition is_leap :: "int \<Rightarrow> bool" where
  "is_leap year \<longleftrightarrow> (tmod year 4 = 0 \<and> tmod year 100 \<noteq> 0) \<or> tmod year 400 = 0"

definition days_in_month :: "int \<Rightarrow> int \<Rightarrow> int" where
  "days_in_month year month =
     (if month \<in> {1, 3, 5, 7, 8, 10, 12} then 31
      else if month \<in> {4, 6, 9, 11} then 30
      else if month = 2 then (if is_leap year then 29 else 28)
      else 0)"

definition days_from_civil :: "int \<Rightarrow> int \<Rightarrow> int \<Rightarrow> int" where
  "days_from_civil year month day =
     (let y = (if month \<le> 2 then year - 1 else year);
          era = tdiv (if y \<ge> 0 then y else y - 399) 400;
          yoe = y - era * 400;
          mp = tmod (month + 9) 12;
          doy = tdiv (153 * mp + 2) 5 + day - 1;
          doe = yoe * 365 + tdiv yoe 4 - tdiv yoe 100 + doy
      in era * 146097 + doe - 719468)"

section \<open>The expiry instant\<close>

definition is_expired :: "int \<Rightarrow> int \<Rightarrow> bool" where
  "is_expired stale_after now \<longleftrightarrow> now > stale_after"

text \<open>\<open>num(a, b)\<close>, the local closure.\<close>

definition num_at :: "string \<Rightarrow> nat \<Rightarrow> nat \<Rightarrow> int option" where
  "num_at s a b = Option.bind (str_get s a b) parse_i64"

text \<open>The offset suffix, in seconds; \<^const>\<open>None\<close> is the function's early \<open>None\<close>.\<close>

definition offset_of :: "string \<Rightarrow> int option" where
  "offset_of rest =
     (if rest = [] \<or> rest = ''Z'' \<or> rest = ''z'' then Some 0
      else if (hd rest = CHR ''+'' \<or> hd rest = CHR ''-'') \<and> length rest = 6 then
        Option.bind (num_at rest 1 3) (\<lambda>oh.
        Option.bind (num_at rest 4 6) (\<lambda>om.
          if rest ! 3 \<noteq> CHR '':'' \<or> oh > 23 \<or> om > 59 then None
          else (let magnitude = oh * 3600 + om * 60 in
                Some (if hd rest = CHR ''-'' then - magnitude else magnitude))))
      else None)"

definition skip_fraction :: "string \<Rightarrow> string option" where
  "skip_fraction rest =
     (case strip_prefix ''.'' rest of
        None \<Rightarrow> Some rest
      | Some stripped \<Rightarrow>
          (let digits = length (takeWhile is_ascii_digit stripped) in
           if digits = 0 then None else Some (drop digits stripped)))"

text \<open>
  \<open>parse_rfc3339_utc\<close>. The slice \<open>&s[..19]\<close> panics when byte 19 is inside a character; the
  length check before it counts bytes.
\<close>

definition parse_rfc3339_utc :: "string \<Rightarrow> int option outcome" where
  "parse_rfc3339_utc s =
     (if length s < 19 then Returns None
      else case str_slice_to s 19 of
        Panics \<Rightarrow> Panics
      | Returns h \<Rightarrow> Returns
         (if \<not> list_all (\<lambda>i. i \<in> {4, 7, 10, 13, 16} \<or> is_ascii_digit (h ! i)) [0..<19] then None
          else if s ! 4 \<noteq> CHR ''-'' \<or> s ! 7 \<noteq> CHR ''-'' \<or> s ! 13 \<noteq> CHR '':'' \<or> s ! 16 \<noteq> CHR '':'' then None
          else if s ! 10 \<noteq> CHR ''T'' \<and> s ! 10 \<noteq> CHR ''t'' \<and> s ! 10 \<noteq> CHR '' '' then None
          else
            Option.bind (num_at s 0 4) (\<lambda>year.
            Option.bind (num_at s 5 7) (\<lambda>month.
            Option.bind (num_at s 8 10) (\<lambda>day.
            Option.bind (num_at s 11 13) (\<lambda>hour.
            Option.bind (num_at s 14 16) (\<lambda>minute.
            Option.bind (num_at s 17 19) (\<lambda>second.
              if \<not> (1 \<le> month \<and> month \<le> 12) \<or> \<not> (1 \<le> day \<and> day \<le> 31) then None
              else if day > days_in_month year month \<or> hour > 23 \<or> minute > 59 \<or> second > 60
              then None
              else
                Option.bind (skip_fraction (drop 19 s)) (\<lambda>rest.
                Option.bind (offset_of rest) (\<lambda>offset_secs.
                  Some (days_from_civil year month day * 86400 + hour * 3600 + minute * 60 + second
                        - offset_secs)))))))))))"

definition stale_after_from_content ::
  "(string \<Rightarrow> json option) \<Rightarrow> string \<Rightarrow> int option outcome"
where
  "stale_after_from_content parse_json content =
     (case Option.bind (parse_json content) (json_get ''stale_after'') of
        None \<Rightarrow> Returns None
      | Some raw \<Rightarrow>
          (case raw of
             JInt n \<Rightarrow> (if - 9223372036854775808 \<le> n \<and> n < 9223372036854775808
                        then Returns (Some n) else Returns None)
           | JStr s \<Rightarrow> parse_rfc3339_utc s
           | _ \<Rightarrow> Returns None))"

section \<open>The arithmetic is day counting\<close>

text \<open>Days from 0000-01-01 to the first of January of a year, one year at a time.\<close>

fun days_before_year :: "nat \<Rightarrow> int" where
  "days_before_year 0 = 0"
| "days_before_year (Suc y) = days_before_year y + (if is_leap (int y) then 366 else 365)"

definition days_before_month :: "int \<Rightarrow> nat \<Rightarrow> int" where
  "days_before_month year month = sum_list (map (\<lambda>m. days_in_month year (int m)) [1..<month])"

lemma is_leap_mod:
  "is_leap (int y) \<longleftrightarrow> (y mod 4 = 0 \<and> y mod 100 \<noteq> 0) \<or> y mod 400 = 0"
proof -
  have "int y mod 4 = int (y mod 4)" "int y mod 100 = int (y mod 100)"
    "int y mod 400 = int (y mod 400)"
    by (simp_all add: zmod_int)
  then show ?thesis by (simp add: is_leap_def tmod_nonneg)
qed

lemma div_step:
  "0 < n \<Longrightarrow> (Suc y + (n - 1)) div n = (y + (n - 1)) div n + (if y mod n = 0 then 1 else 0)"
proof -
  assume n: "0 < n"
  then have "Suc y + (n - 1) = Suc (y + (n - 1))" "Suc (y + (n - 1)) mod n = y mod n"
    by simp_all
  then show ?thesis by (simp add: div_Suc)
qed

lemma mod_0_trans: "k dvd n \<Longrightarrow> (y::nat) mod n = 0 \<Longrightarrow> y mod k = 0"
  by (metis dvd_trans mod_eq_0_iff_dvd)

lemma days_before_year_closed:
  "days_before_year y =
     365 * int y + int ((y + 3) div 4) - int ((y + 99) div 100) + int ((y + 399) div 400)"
proof (induction y)
  case (Suc y)
  have a: "(Suc y + 3) div 4 = (y + 3) div 4 + (if y mod 4 = 0 then 1 else 0)"
    using div_step [of 4 y] by simp
  have b: "(Suc y + 99) div 100 = (y + 99) div 100 + (if y mod 100 = 0 then 1 else 0)"
    using div_step [of 100 y] by simp
  have c: "(Suc y + 399) div 400 = (y + 399) div 400 + (if y mod 400 = 0 then 1 else 0)"
    using div_step [of 400 y] by simp
  have d: "y mod 400 = 0 \<Longrightarrow> y mod 100 = 0" "y mod 100 = 0 \<Longrightarrow> y mod 4 = 0"
    by (rule mod_0_trans; simp)+
  show ?case
    unfolding days_before_year.simps Suc.IH is_leap_mod a b c
    by (cases "y mod 4 = 0"; cases "y mod 100 = 0"; cases "y mod 400 = 0")
       (use d in \<open>simp_all add: algebra_simps del: One_nat_def\<close>)
qed simp

lemma era_form:
  assumes "- 1 \<le> y"
  defines "era \<equiv> tdiv (if y \<ge> 0 then y else y - 399) 400"
  shows "era = y div 400" "0 \<le> y - era * 400"
    "era * 146097 + ((y - era * 400) * 365 + (y - era * 400) div 4 - (y - era * 400) div 100) =
     365 * y + y div 4 - y div 100 + y div 400"
proof -
  show e: "era = y div 400"
  proof (cases "0 \<le> y")
    case True
    then show ?thesis by (simp add: era_def tdiv_nonneg)
  next
    case False
    then have "y = - 1" using assms by linarith
    then show ?thesis by (simp add: era_def tdiv_def)
  qed
  show "0 \<le> y - era * 400"
    unfolding e by (simp add: minus_div_mult_eq_mod)
  have "y - y div 400 * 400 = y + - (100 * (y div 400)) * 4"
    "y - y div 400 * 400 = y + - (4 * (y div 400)) * 100"
    by simp_all
  then have "(y - y div 400 * 400) div 4 = y div 4 - 100 * (y div 400)"
    "(y - y div 400 * 400) div 100 = y div 100 - 4 * (y div 400)"
    by (simp_all only: div_mult_self1 zero_neq_numeral)
  then show "era * 146097 + ((y - era * 400) * 365 + (y - era * 400) div 4 - (y - era * 400) div 100) =
     365 * y + y div 4 - y div 100 + y div 400"
    unfolding e by (simp add: algebra_simps)
qed

definition leap_sum :: "int \<Rightarrow> int" where
  "leap_sum z = 365 * z + z div 4 - z div 100 + z div 400"

lemma days_before_Suc_year: "days_before_year (Suc y) = leap_sum (int y) + 366"
proof -
  have "int ((Suc y + 3) div 4) = int y div 4 + 1"
    "int ((Suc y + 99) div 100) = int y div 100 + 1"
    "int ((Suc y + 399) div 400) = int y div 400 + 1"
    by (simp_all add: zdiv_int)
  then show ?thesis
    unfolding days_before_year_closed leap_sum_def by (simp add: algebra_simps)
qed

lemma days_before_pred_year: "days_before_year y = leap_sum (int y - 1) + 366"
proof (cases y)
  case 0
  then show ?thesis by (simp add: leap_sum_def)
next
  case (Suc x)
  then show ?thesis by (simp only: days_before_Suc_year) simp
qed

text \<open>Hinnant's formula with the era arithmetic folded away.\<close>

lemma days_from_civil_leap_sum:
  assumes "0 \<le> year" "1 \<le> month"
  shows "days_from_civil year month day =
     leap_sum (if month \<le> 2 then year - 1 else year)
       + (153 * ((month + 9) mod 12) + 2) div 5 + day - 719469"
proof -
  define y where "y = (if month \<le> 2 then year - 1 else year)"
  define era where "era = tdiv (if y \<ge> 0 then y else y - 399) 400"
  have "- 1 \<le> y" using assms by (simp add: y_def)
  note era = era_form [OF this, folded era_def]
  have t: "tdiv (y - era * 400) 4 = (y - era * 400) div 4"
    "tdiv (y - era * 400) 100 = (y - era * 400) div 100"
    using era(2) by (simp_all add: tdiv_nonneg)
  have m: "tmod (month + 9) 12 = (month + 9) mod 12"
    using assms by (simp add: tmod_nonneg)
  have "0 \<le> 153 * ((month + 9) mod 12) + 2" by simp
  then have d: "tdiv (153 * ((month + 9) mod 12) + 2) 5 = (153 * ((month + 9) mod 12) + 2) div 5"
    by (simp add: tdiv_nonneg)
  show ?thesis
    unfolding days_from_civil_def Let_def y_def [symmetric] era_def [symmetric] t m d
    using era(3) unfolding leap_sum_def by linarith
qed

lemma month_cases:
  "1 \<le> m \<Longrightarrow> m \<le> (12::nat) \<Longrightarrow> m \<in> {1, 2, 3, 4, 5, 6, 7, 8, 9, 10, 11, 12}"
  by (simp only: insert_iff empty_iff) presburger

lemmas month_upt = upt_rec [of 1] upt_rec [of 2] upt_rec [of 3] upt_rec [of 4] upt_rec [of 5]
  upt_rec [of 6] upt_rec [of 7] upt_rec [of 8] upt_rec [of 9] upt_rec [of 10] upt_rec [of 11]

lemma days_before_month_table:
  assumes "1 \<le> m" "m \<le> 12"
  shows "days_before_month year m =
     (153 * ((int m + 9) mod 12) + 2) div 5
       + (if m \<le> 2 then - 306 else if is_leap year then 60 else 59)"
  using month_cases [OF assms]
  by (auto simp: days_before_month_def days_in_month_def month_upt numeral_eq_Suc
      simp del: upt_rec)

text \<open>What the first nineteen bytes decide.\<close>

lemma str_slice_to_Panics_iff:
  "str_slice_to s n = Panics \<longleftrightarrow> \<not> is_char_boundary s n"
  by (simp add: str_slice_to_def str_get_def is_char_boundary_def split: option.splits)

section \<open>Properties\<close>

text \<open>C10. Hinnant's \<open>days_from_civil\<close>, with its eras, shifted year and fractional month formula,
  counts days: for every date from year 0 on it is the number of days before the year (365 or 366
  each), plus the lengths of the months before it, plus the day, measured from 1970-01-01.\<close>

theorem days_from_civil_counts_days:
  "1 \<le> month \<Longrightarrow> month \<le> 12 \<Longrightarrow>
   days_from_civil (int year) (int month) day =
     days_before_year year + days_before_month (int year) month + day - 1
     - (days_before_year 1970 + days_before_month 1970 1)"
proof -
  assume m: "1 \<le> month" "month \<le> 12"
  have epoch: "days_before_year 1970 + days_before_month 1970 1 = 719528"
    by (simp add: days_before_year_closed days_before_month_def)
  have y: "days_before_year year = leap_sum (int year) + 366 - (if is_leap (int year) then 366 else 365)"
    using days_before_Suc_year [of year] by simp
  have c: "days_from_civil (int year) (int month) day =
     leap_sum (if month \<le> 2 then int year - 1 else int year)
       + (153 * ((int month + 9) mod 12) + 2) div 5 + day - 719469"
    using m by (subst days_from_civil_leap_sum) (auto simp: le_nat_iff)
  show ?thesis
  proof (cases "month \<le> 2")
    case True
    have "days_from_civil (int year) (int month) day =
        leap_sum (int year - 1) + (153 * ((int month + 9) mod 12) + 2) div 5 + day - 719469"
      using True by (simp only: c if_True)
    moreover have "days_before_month (int year) month = (153 * ((int month + 9) mod 12) + 2) div 5 - 306"
      using True by (simp add: days_before_month_table [OF m])
    ultimately show ?thesis
      using epoch days_before_pred_year [of year] by linarith
  next
    case False
    have "days_from_civil (int year) (int month) day =
        leap_sum (int year) + (153 * ((int month + 9) mod 12) + 2) div 5 + day - 719469"
      using False by (simp only: c if_False)
    moreover have "days_before_month (int year) month =
        (153 * ((int month + 9) mod 12) + 2) div 5 + (if is_leap (int year) then 60 else 59)"
      using False by (simp add: days_before_month_table [OF m])
    ultimately show ?thesis
      using epoch y by (cases "is_leap (int year)") simp_all
  qed
qed

theorem days_from_civil_counts_days_witness:
  "days_from_civil 2000 2 29 = days_before_year 2000 + days_before_month 2000 2 + 29 - 1
     - (days_before_year 1970 + days_before_month 1970 1)"
  using days_from_civil_counts_days [of 2 2000 29] by simp

text \<open>Reading a proposal's expiry instant panics exactly when the text is at least nineteen
  bytes long and its byte 19 continues a multi-byte character: \<open>&s[..19]\<close> is sliced before
  any of the nineteen bytes has been checked to be ASCII, although the function promises
  \<^const>\<open>None\<close> for everything it does not recognise.\<close>

theorem parse_rfc3339_panics_iff:
  "parse_rfc3339_utc s = Panics \<longleftrightarrow> 19 < length s \<and> is_cont (s ! 19)"
proof -
  have b: "is_char_boundary s 19 \<longleftrightarrow> length s = 19 \<or> (19 < length s \<and> \<not> is_cont (s ! 19))"
    by (auto simp: is_char_boundary_def)
  show ?thesis
  proof (cases "length s < 19")
    case True
    then show ?thesis by (simp add: parse_rfc3339_utc_def)
  next
    case False
    then have "parse_rfc3339_utc s = Panics \<longleftrightarrow> str_slice_to s 19 = Panics"
      by (cases "str_slice_to s 19") (simp_all add: parse_rfc3339_utc_def)
    with False show ?thesis
      by (auto simp: str_slice_to_Panics_iff b)
  qed
qed

end
