(* ===== verification/Boundary.thy ===== *)
theory Boundary
  imports Broker Ontology Complex_Main
begin

text \<open>
  The escalation boundary the relay derives for a governance event, and the plans it makes
  before touching its database: \<open>PanelPolicy\<close> and the calibration sample of
  \<open>nostr-bbs-core/src/governance.rs\<close>, and the pure functions at the head of
  \<open>nostr-bbs-relay-worker/src/relay_do/nip_handlers.rs\<close> (\<open>plan_request_boundary\<close>,
  \<open>plan_action_response\<close>, the supersession and appeal plans, the write-gate predicates).

  Third-party calls are the fields of a \<open>host\<close> record: \<open>serde_json\<close>'s parser, the derived
  deserialiser of \<open>DecisionOutcome\<close>, the parser of a rate and the HMAC position of a request.
  A rate is an \<open>f32\<close>: not a number, an infinity, or a finite (rational) value.
\<close>

datatype f32 = F32_NaN | F32_Inf bool | F32 rat

record host =
  h_json :: "string \<Rightarrow> json option"
  h_outcome :: "string \<Rightarrow> decision_outcome option"
  h_f32 :: "string \<Rightarrow> f32 option"
  h_position :: "string \<Rightarrow> string \<Rightarrow> rat"

section \<open>Panel policy and calibration\<close>

definition default_calibration_sample_rate :: f32 where
  "default_calibration_sample_rate = F32 (13421773 / 134217728)"

definition default_max_pending_hours :: nat where
  "default_max_pending_hours = 72"

definition is_calibration_sample :: "host \<Rightarrow> string \<Rightarrow> string \<Rightarrow> f32 \<Rightarrow> bool" where
  "is_calibration_sample h selection_key request_id rate =
     (case rate of
        F32_NaN \<Rightarrow> False
      | F32_Inf positive \<Rightarrow> positive
      | F32 q \<Rightarrow> if q \<le> 0 then False else if q \<ge> 1 then True
                 else h_position h selection_key request_id < q)"

record panel_policy =
  pp_calibration_sample_rate :: f32
  pp_max_pending_hours :: nat
  pp_probe_agent :: "string option"

definition policy_default :: panel_policy where
  "policy_default = \<lparr>pp_calibration_sample_rate = default_calibration_sample_rate,
     pp_max_pending_hours = default_max_pending_hours, pp_probe_agent = None\<rparr>"

definition policy_from_tags :: "host \<Rightarrow> tag list \<Rightarrow> panel_policy" where
  "policy_from_tags h tags =
     \<lparr>pp_calibration_sample_rate =
        (case Option.bind (extract_tag tags ''calibration-sample-rate'') (h_f32 h) of
           Some (F32 q) \<Rightarrow> F32 (if q < 0 then 0 else if q > 1 then 1 else q)
         | _ \<Rightarrow> default_calibration_sample_rate),
      pp_max_pending_hours =
        (case Option.bind (extract_tag tags ''max-pending-hours'') parse_u32 of
           Some n \<Rightarrow> if n > 0 then n else default_max_pending_hours
         | None \<Rightarrow> default_max_pending_hours),
      pp_probe_agent =
        (case extract_tag tags ''probe-agent'' of
           Some v \<Rightarrow> if is_hex64 v then Some (ascii_lower v) else None
         | None \<Rightarrow> None)\<rparr>"

definition is_probe_agent :: "panel_policy \<Rightarrow> string \<Rightarrow> bool" where
  "is_probe_agent p pubkey =
     (case pp_probe_agent p of Some a \<Rightarrow> eq_ignore_ascii_case a pubkey | None \<Rightarrow> False)"

section \<open>Governance event shape\<close>

definition is_governance_kind :: "nat \<Rightarrow> bool" where
  "is_governance_kind k \<longleftrightarrow> 31400 \<le> k \<and> k \<le> 31405"

datatype governance_event_error = UnknownKind nat | MissingDTag | EmptyDTag

definition validate_governance_event :: "nostr_event \<Rightarrow> governance_event_error + unit" where
  "validate_governance_event e =
     (if \<not> is_governance_kind (ev_kind e) then Inl (UnknownKind (ev_kind e))
      else case extract_d_tag (ev_tags e) of
        None \<Rightarrow> Inl MissingDTag
      | Some d \<Rightarrow> if d = [] then Inl EmptyDTag else Inr ())"

section \<open>Who resolved a case\<close>

datatype resolver = Human string | System string

definition resolver_is_human :: "resolver \<Rightarrow> bool" where
  "resolver_is_human r = (case r of Human _ \<Rightarrow> True | System _ \<Rightarrow> False)"

definition parse_resolver :: "host \<Rightarrow> string \<Rightarrow> string \<Rightarrow> resolver" where
  "parse_resolver h content signer =
     (case Option.bind (h_json h content) (json_str_field ''decided_by'') of
        Some actor \<Rightarrow> if starts_with ''system:'' actor then System actor else Human signer
      | None \<Rightarrow> Human signer)"

definition human_resolution_required :: "risk_tier \<Rightarrow> bool" where
  "human_resolution_required effective \<longleftrightarrow> effective = THigh \<or> effective = TCritical"

definition response_reasoning :: "host \<Rightarrow> string \<Rightarrow> string option" where
  "response_reasoning h content = Option.bind (h_json h content) (json_str_field ''reasoning'')"

definition response_action_and_reasoning ::
  "host \<Rightarrow> string \<Rightarrow> string option \<times> string option"
where
  "response_action_and_reasoning h content =
     (map_option action_str (h_outcome h content), response_reasoning h content)"

datatype response_admission = Admit | BlockedNotAuthorised | BlockedNotDelegated

definition response_admission_of :: "bool \<Rightarrow> bool \<Rightarrow> bool \<Rightarrow> response_admission" where
  "response_admission_of is_admin is_reviewer delegated_for_this_case =
     (if is_admin then Admit
      else if \<not> is_reviewer then BlockedNotAuthorised
      else if delegated_for_this_case then Admit else BlockedNotDelegated)"

section \<open>The boundary of a request\<close>

record request_boundary =
  rb_declared :: "risk_tier option"
  rb_effective :: risk_tier
  rb_props :: "task_properties option"
  rb_calibration_sample :: bool
  rb_probe_digest :: "string option"
  rb_max_pending_hours :: nat
  rb_stale_after :: "int option"

definition declared_tier :: "host \<Rightarrow> tag list \<Rightarrow> string \<Rightarrow> risk_tier option" where
  "declared_tier h tags content =
     (case extract_tag tags ''risk-tier'' of
        Some t \<Rightarrow> Some (tier_parse t)
      | None \<Rightarrow> map_option tier_parse
                 (Option.bind (h_json h content) (json_str_field ''risk_tier'')))"

definition request_props :: "tag list \<Rightarrow> task_properties option" where
  "request_props request_tags =
     tp_merge_opt (tp_from_tags request_tags) (level_property_floor request_tags)"

definition plan_request_boundary ::
  "host \<Rightarrow> string \<Rightarrow> string \<Rightarrow> tag list \<Rightarrow> string \<Rightarrow> tag list option \<Rightarrow> risk_tier \<Rightarrow> string \<Rightarrow>
   request_boundary outcome"
where
  "plan_request_boundary h case_id request_pubkey request_tags request_content panel_tags
     advertised_default calibration_key =
     (let panel_props = Option.bind panel_tags tp_from_tags;
          req_props = request_props request_tags;
          merged = tp_merge_opt panel_props req_props;
          declared = declared_tier h request_tags request_content;
          effective = effective_tier panel_props req_props declared advertised_default;
          policy = (case panel_tags of Some ts \<Rightarrow> policy_from_tags h ts | None \<Rightarrow> policy_default);
          suppressible = member_suppressed_effective merged effective False;
          sample = (suppressible \<and> is_calibration_sample h calibration_key case_id
                      (pp_calibration_sample_rate policy));
          probe = (if is_probe_agent policy request_pubkey
                   then extract_tag request_tags ''probe'' else None);
          boundary = (\<lambda>stale.
            \<lparr>rb_declared = declared, rb_effective = effective, rb_props = merged,
             rb_calibration_sample = sample, rb_probe_digest = probe,
             rb_max_pending_hours = pp_max_pending_hours policy, rb_stale_after = stale\<rparr>)
      in case level_from_tags request_tags of
           None \<Rightarrow> Returns (boundary None)
         | Some _ \<Rightarrow>
             (case stale_after_from_content (h_json h) request_content of
                Panics \<Rightarrow> Panics
              | Returns stale \<Rightarrow> Returns (boundary stale)))"

section \<open>Planning a response\<close>

text \<open>The columns of \<open>broker_cases\<close> the projections read.\<close>

record broker_case_row =
  bcr_category :: string
  bcr_state :: string
  bcr_effective_tier :: "string option"
  bcr_nostr_event_id :: "string option"
  bcr_created_by :: string
  bcr_from_share_state :: "string option"
  bcr_to_share_state :: "string option"

record response_projection =
  rp_decision_id :: string
  rp_outcome :: string
  rp_outcome_detail :: "string option"
  rp_prior_decision_id :: "string option"
  rp_new_state :: case_state
  rp_reasoning :: string

text \<open>
  \<open>dec-\<close> and the first sixteen bytes of the event id; the slice panics when byte 16 is inside
  a character, which a signed id (hexadecimal) never has and an \<open>e\<close> tag may.
\<close>

definition decision_id_for_event :: "string \<Rightarrow> string outcome" where
  "decision_id_for_event event_id =
     (case str_slice_to event_id (min 16 (length event_id)) of
        Panics \<Rightarrow> Panics
      | Returns p \<Rightarrow> Returns (''dec-'' @ p))"

definition known_case_states :: "string list" where
  "known_case_states =
     [''open'', ''under_review'', ''reopened'', ''decided'', ''resolved'', ''rejected'',
      ''delegated'', ''promoted'', ''precedent'', ''closed'', ''superseded'']"

text \<open>The string variants of \<open>ShareTransitionRejected\<close> the planner makes itself, and the
  orchestrator's own error.\<close>

datatype plan_error = MalformedResponse | RequiresHuman risk_tier resolver | UnknownPersistedState
  | CaseNotProjected | Orchestration orchestration_error

definition row_snapshot :: "string \<Rightarrow> broker_case_row \<Rightarrow> string option \<Rightarrow> case_snapshot" where
  "row_snapshot case_id row latest =
     \<lparr>snap_id = case_id, snap_category = category_parse (bcr_category row),
      snap_created_by = bcr_created_by row, snap_state = case_state_parse (bcr_state row),
      snap_from_state = Option.bind (bcr_from_share_state row) share_state_parse,
      snap_to_state = Option.bind (bcr_to_share_state row) share_state_parse,
      snap_latest_decision_id = latest\<rparr>"

definition blocked_for_system :: "host \<Rightarrow> broker_case_row option \<Rightarrow> string \<Rightarrow> string \<Rightarrow> plan_error option"
where
  "blocked_for_system h case_row content responder =
     (case Option.bind case_row bcr_effective_tier of
        None \<Rightarrow> None
      | Some t \<Rightarrow>
          (let resolver = parse_resolver h content responder in
           if human_resolution_required (tier_parse t) \<and> \<not> resolver_is_human resolver
           then Some (RequiresHuman (tier_parse t) resolver) else None))"

definition plan_action_response ::
  "host \<Rightarrow> string \<Rightarrow> broker_case_row option \<Rightarrow> string \<Rightarrow> string \<Rightarrow> string \<Rightarrow> string option \<Rightarrow> nat \<Rightarrow>
   (plan_error + response_projection) outcome"
where
  "plan_action_response h case_id case_row event_id content responder latest now =
     (case h_outcome h content of
        None \<Rightarrow> Returns (Inl MalformedResponse)
      | Some outcome \<Rightarrow>
          (let reasoning = (case response_reasoning h content of Some r \<Rightarrow> r | None \<Rightarrow> []) in
           case decision_id_for_event event_id of
             Panics \<Rightarrow> Panics
           | Returns decision_id \<Rightarrow>
               (case blocked_for_system h case_row content responder of
                  Some e \<Rightarrow> Returns (Inl e)
                | None \<Rightarrow>
                    (case case_row of
                       None \<Rightarrow> Returns (Inl CaseNotProjected)
                     | Some row \<Rightarrow>
                         if bcr_state row \<notin> set known_case_states
                         then Returns (Inl UnknownPersistedState)
                         else
                           (case decide decision_id outcome responder reasoning now
                                   (hydrate (row_snapshot case_id row latest) now) of
                              (c, Inl e) \<Rightarrow> Returns (Inl (Orchestration e))
                            | (c, Inr report) \<Rightarrow> Returns (Inr
                                \<lparr>rp_decision_id = decision_id, rp_outcome = action_str outcome,
                                 rp_outcome_detail = outcome_detail outcome,
                                 rp_prior_decision_id = de_prior (rep_entry report),
                                 rp_new_state = bc_state c, rp_reasoning = reasoning\<rparr>))))))"

section \<open>Planning a supersession\<close>

datatype supersession_error = SUnauthorised string | SMalformedOutcome | SMissingReason
  | SMissingSupersededDecision | SCaseMismatch | STargetAlreadySuperseded
  | SStateNotSupersedable string | SCaseMissing | SHumanRequired | SSelfReview

fun supersession_token :: "supersession_error \<Rightarrow> string" where
  "supersession_token (SUnauthorised _) = ''supersession_unauthorised''"
| "supersession_token SMalformedOutcome = ''supersession_outcome_malformed''"
| "supersession_token SMissingReason = ''supersession_reason_missing''"
| "supersession_token SMissingSupersededDecision = ''supersession_target_missing''"
| "supersession_token SCaseMismatch = ''supersession_case_mismatch''"
| "supersession_token STargetAlreadySuperseded = ''supersession_target_already_superseded''"
| "supersession_token (SStateNotSupersedable st) = ''supersession_state_not_supersedable:'' @ st"
| "supersession_token SCaseMissing = ''supersession_case_missing''"
| "supersession_token SHumanRequired = ''supersession_human_required''"
| "supersession_token SSelfReview = ''self_review''"

record supersession_context =
  sc_case_id :: string
  sc_superseded_case_id :: string
  sc_superseded_by :: "string option"
  sc_case_row :: "broker_case_row option"

record supersession_projection =
  sp_decision_id :: string
  sp_superseded_decision_id :: string
  sp_outcome :: string
  sp_outcome_detail :: "string option"
  sp_reasoning :: string
  sp_new_state :: case_state

definition supersedable_states :: "string list" where
  "supersedable_states =
     [''decided'', ''delegated'', ''promoted'', ''precedent'', ''superseded'', ''reopened'']"

definition state_supersedable :: "string \<Rightarrow> bool" where
  "state_supersedable st \<longleftrightarrow> st \<in> set supersedable_states"

record superseded_decision_row =
  sd_broker_pubkey :: string
  sd_case_id :: string
  sd_superseded_by :: "string option"

datatype supersession_refusal = TargetMissing | CaseMismatch | TargetAlreadySuperseded | RUnauthorised

definition supersession_ingest_refusal ::
  "string \<Rightarrow> string \<Rightarrow> superseded_decision_row option \<Rightarrow> (supersession_refusal + unit) outcome"
where
  "supersession_ingest_refusal event_id case_id target =
     (case target of
        None \<Rightarrow> Returns (Inl TargetMissing)
      | Some t \<Rightarrow>
          if sd_case_id t \<noteq> case_id then Returns (Inl CaseMismatch)
          else (case sd_superseded_by t of
                  None \<Rightarrow> Returns (Inr ())
                | Some by \<Rightarrow>
                    (case decision_id_for_event event_id of
                       Panics \<Rightarrow> Panics
                     | Returns d \<Rightarrow>
                         if by \<noteq> d then Returns (Inl TargetAlreadySuperseded)
                         else Returns (Inr ()))))"

definition supersede_error_of :: "case_error \<Rightarrow> supersession_error" where
  "supersede_error_of e =
     (case e of
        UnauthorisedSupersession s \<Rightarrow> SUnauthorised s
      | MissingSupersessionReason \<Rightarrow> SMissingReason
      | SelfReview _ \<Rightarrow> SSelfReview
      | _ \<Rightarrow> SMalformedOutcome)"

definition plan_supersession ::
  "host \<Rightarrow> string \<Rightarrow> string option \<Rightarrow> string \<Rightarrow> string \<Rightarrow> string \<Rightarrow> nat \<Rightarrow> nat \<Rightarrow>
   supersession_context \<Rightarrow> nat \<Rightarrow> (supersession_error + supersession_projection) outcome"
where
  "plan_supersession h superseding_event_id superseded_event_id content superseder
     original_signer original_rank superseder_rank ctx now =
     (case superseded_event_id of
        None \<Rightarrow> Returns (Inl SMissingSupersededDecision)
      | Some target_id \<Rightarrow>
     if target_id = [] then Returns (Inl SMissingSupersededDecision)
     else case decision_id_for_event target_id of
        Panics \<Rightarrow> Panics
      | Returns superseded_decision_id \<Rightarrow>
     (case h_outcome h content of
        None \<Rightarrow> Returns (Inl SMalformedOutcome)
      | Some outcome \<Rightarrow>
     (case sc_case_row ctx of
        None \<Rightarrow> Returns (Inl SCaseMissing)
      | Some row \<Rightarrow>
     if sc_superseded_case_id ctx \<noteq> sc_case_id ctx then Returns (Inl SCaseMismatch)
     else if sc_superseded_by ctx \<noteq> None then Returns (Inl STargetAlreadySuperseded)
     else if \<not> state_supersedable (bcr_state row)
     then Returns (Inl (SStateNotSupersedable (bcr_state row)))
     else if blocked_for_system h (Some row) content superseder \<noteq> None
     then Returns (Inl SHumanRequired)
     else
       (let reasoning = (case response_reasoning h content of Some r \<Rightarrow> r | None \<Rightarrow> []);
            authority = supersede_authority_of original_signer superseder original_rank
                          superseder_rank;
            snapshot = (row_snapshot (sc_case_id ctx) row (Some superseded_decision_id))
                         \<lparr>snap_from_state := None, snap_to_state := None\<rparr>
        in case decision_id_for_event superseding_event_id of
             Panics \<Rightarrow> Panics
           | Returns superseding_decision_id \<Rightarrow>
               (case supersede superseding_decision_id superseded_decision_id outcome superseder
                       reasoning authority now (hydrate snapshot now) of
                  (_, Inl e) \<Rightarrow> Returns (Inl (supersede_error_of e))
                | (c, Inr _) \<Rightarrow> Returns (Inr
                    \<lparr>sp_decision_id = superseding_decision_id,
                     sp_superseded_decision_id = superseded_decision_id,
                     sp_outcome = action_str outcome, sp_outcome_detail = outcome_detail outcome,
                     sp_reasoning = reasoning, sp_new_state = bc_state c\<rparr>))))))"

section \<open>Planning an appeal\<close>

datatype appeal_refusal = NoStanding | AppealTargetMissing | TargetMismatch | NotAppealable string
  | AppealCaseMissing

fun appeal_token :: "appeal_refusal \<Rightarrow> string" where
  "appeal_token NoStanding = ''appeal_no_standing''"
| "appeal_token AppealTargetMissing = ''appeal_target_missing''"
| "appeal_token TargetMismatch = ''appeal_target_mismatch''"
| "appeal_token (NotAppealable st) = ''case_not_appealable:'' @ st"
| "appeal_token AppealCaseMissing = ''case_missing''"

definition appealable_states :: "string list" where
  "appealable_states = [''decided'', ''delegated'', ''promoted'', ''precedent'', ''superseded'']"

definition plan_appeal ::
  "string \<Rightarrow> string \<Rightarrow> broker_case_row option \<Rightarrow> string option \<Rightarrow> appeal_refusal + unit"
where
  "plan_appeal appellant case_id case_row cited_decision_case_id =
     (case case_row of
        None \<Rightarrow> Inl AppealCaseMissing
      | Some row \<Rightarrow>
          if \<not> eq_ignore_ascii_case (bcr_created_by row) appellant then Inl NoStanding
          else case cited_decision_case_id of
            None \<Rightarrow> Inl AppealTargetMissing
          | Some cited \<Rightarrow>
              if cited \<noteq> case_id then Inl TargetMismatch
              else if bcr_state row \<notin> set appealable_states then Inl (NotAppealable (bcr_state row))
              else Inr ())"

definition appeal_shape_refused :: "nostr_event \<Rightarrow> bool" where
  "appeal_shape_refused e =
     (let d = (case extract_d_tag (ev_tags e) of Some x \<Rightarrow> x | None \<Rightarrow> []) in
      case tag_value (ev_tags e) ''case'' of
        Some c \<Rightarrow> c = [] \<or> d = [] \<or> c = d
      | None \<Rightarrow> True)"

section \<open>Principals and gift wraps\<close>

definition gift_wrap_kind :: nat where "gift_wrap_kind = 1059"

definition is_nip29_admin_kind :: "nat \<Rightarrow> bool" where
  "is_nip29_admin_kind k \<longleftrightarrow> (9000 \<le> k \<and> k \<le> 9020) \<or> (39000 \<le> k \<and> k \<le> 39002)"

definition sanction_subjects :: "string \<Rightarrow> string \<Rightarrow> string list" where
  "sanction_subjects raw acting_as = (if acting_as \<noteq> raw then [raw, acting_as] else [raw])"

definition needs_owner_lookup :: "nat \<Rightarrow> bool" where
  "needs_owner_lookup k \<longleftrightarrow> k \<noteq> gift_wrap_kind"

section \<open>Lemmas of the planners\<close>

lemma bc_hydrate [simp]:
  "bc_state (hydrate s n) = snap_state s" "bc_created_by (hydrate s n) = snap_created_by s"
  "bc_category (hydrate s n) = snap_category s" "bc_id (hydrate s n) = snap_id s"
  "sub_from_state (bc_subject (hydrate s n)) = snap_from_state s"
  "sub_to_state (bc_subject (hydrate s n)) = snap_to_state s"
  "latest_decision_id (hydrate s n) = snap_latest_decision_id s"
  using snapshot_hydrate [of s n] by (simp_all add: snapshot_of_def case_snapshot.ext_inject
      del: snapshot_hydrate) (metis case_snapshot.select_convs)+

lemma case_state_parse_terminal:
  "st \<in> set known_case_states \<Longrightarrow>
   \<not> is_terminal (case_state_parse st) \<longleftrightarrow> st \<in> {''open'', ''under_review'', ''reopened''}"
  by (auto simp: known_case_states_def case_state_parse_def)

lemma blocked_for_system_None_iff:
  "blocked_for_system h row content b = None \<longleftrightarrow>
     (case Option.bind row bcr_effective_tier of None \<Rightarrow> True
      | Some t \<Rightarrow> tier_parse t \<notin> {THigh, TCritical} \<or> resolver_is_human (parse_resolver h content b))"
  by (auto simp: blocked_for_system_def human_resolution_required_def Let_def split: option.splits)

lemma floor_opt_level [boundary_simps]:
  "floor_opt (level_property_floor tags) =
     (if level_from_tags tags \<in> {Some Schema, Some Demotion} then THigh else TLow)"
  by (cases "level_from_tags tags")
     (auto simp: level_property_floor_def property_floor_def is_schema_tier_def tier_floor_def)

text \<open>The share transition of a case, where its category and the outcome plan one.\<close>

definition share_transition_ok :: "broker_case_row \<Rightarrow> decision_outcome \<Rightarrow> bool" where
  "share_transition_ok row outcome \<longleftrightarrow>
     plans_share (category_parse (bcr_category row)) outcome \<longrightarrow>
     (case (Option.bind (bcr_from_share_state row) share_state_parse,
            Option.bind (bcr_to_share_state row) share_state_parse) of
        (Some f, Some t) \<Rightarrow> can_advance_to f t
      | _ \<Rightarrow> True)"

lemma decide_on_row:
  "(case decide did o' b r now (hydrate (row_snapshot case_id row latest) n) of
      (_, Inl _) \<Rightarrow> \<not> (b \<noteq> bcr_created_by row \<and> \<not> is_terminal (case_state_parse (bcr_state row)) \<and>
                     outcome_error o' = None \<and> share_transition_ok row o')
    | (c, Inr report) \<Rightarrow> b \<noteq> bcr_created_by row \<and> \<not> is_terminal (case_state_parse (bcr_state row)) \<and>
                     outcome_error o' = None \<and> share_transition_ok row o' \<and>
                     bc_state c = state_after o' \<and> de_prior (rep_entry report) = latest)"
proof -
  let ?c = "hydrate (row_snapshot case_id row latest) n"
  show ?thesis
  proof (cases "b \<noteq> bcr_created_by row \<and> \<not> is_terminal (case_state_parse (bcr_state row)) \<and>
                outcome_error o' = None")
    case False
    then have "\<exists>e. record_decision did o' b r now ?c = (?c, Inl e)"
      by (cases "outcome_error o'") (auto simp: record_decision_def row_snapshot_def)
    with False show ?thesis by (auto simp: decide_def)
  next
    case True
    then have "\<exists>e. record_decision did o' b r now ?c =
        (?c\<lparr>bc_history := bc_history ?c @ [e], bc_state := state_after o', bc_updated_at := now\<rparr>, Inr e)
        \<and> de_prior e = latest"
      by (simp add: record_decision_def row_snapshot_def Let_def)
    then obtain e where e: "record_decision did o' b r now ?c =
        (?c\<lparr>bc_history := bc_history ?c @ [e], bc_state := state_after o', bc_updated_at := now\<rparr>, Inr e)"
        "de_prior e = latest" by blast
    show ?thesis
      unfolding decide_def e(1)
      using True e(2)
      by (auto simp: build_share_plan_def share_transition_ok_def row_snapshot_def
          split: option.splits)
  qed
qed

lemma planned_response_iff:
  "plan_action_response h case_id case_row event_id content b latest now = Returns (Inr p) \<longleftrightarrow>
     (\<exists>o' did row. h_outcome h content = Some o' \<and> decision_id_for_event event_id = Returns did \<and>
        case_row = Some row \<and> bcr_state row \<in> {''open'', ''under_review'', ''reopened''} \<and>
        (case bcr_effective_tier row of None \<Rightarrow> True
         | Some t \<Rightarrow> tier_parse t \<in> {TLow, TMedium} \<or> resolver_is_human (parse_resolver h content b)) \<and>
        b \<noteq> bcr_created_by row \<and> outcome_error o' = None \<and> share_transition_ok row o' \<and>
        p = \<lparr>rp_decision_id = did, rp_outcome = action_str o', rp_outcome_detail = outcome_detail o',
             rp_prior_decision_id = latest, rp_new_state = state_after o',
             rp_reasoning = (case response_reasoning h content of Some r \<Rightarrow> r | None \<Rightarrow> [])\<rparr>)"
proof (cases "h_outcome h content")
  case None
  then show ?thesis by (simp add: plan_action_response_def)
next
  case (Some o')
  note o' = this
  show ?thesis
  proof (cases "decision_id_for_event event_id")
    case Panics
    then show ?thesis by (simp add: plan_action_response_def o' Let_def)
  next
    case (Returns did)
    note did = this
    show ?thesis
    proof (cases case_row)
      case None
      then show ?thesis
        by (simp add: plan_action_response_def o' did Let_def split: option.splits)
    next
      case (Some row)
      let ?r = "case response_reasoning h content of Some r \<Rightarrow> r | None \<Rightarrow> []"
      let ?human = "case bcr_effective_tier row of None \<Rightarrow> True
         | Some t \<Rightarrow> tier_parse t \<in> {TLow, TMedium} \<or> resolver_is_human (parse_resolver h content b)"
      have tiers: "t \<in> {TLow, TMedium} \<longleftrightarrow> t \<notin> {THigh, TCritical}" for t
        by (cases t) simp_all
      have human: "blocked_for_system h (Some row) content b = None \<longleftrightarrow> ?human"
        unfolding blocked_for_system_None_iff tiers by simp
      obtain c res where d: "decide did o' b ?r now (hydrate (row_snapshot case_id row latest) now) = (c, res)"
        by fastforce
      have known: "bcr_state row \<in> {''open'', ''under_review'', ''reopened''} \<Longrightarrow>
          bcr_state row \<in> set known_case_states"
        by (auto simp: known_case_states_def)
      have plan: "plan_action_response h case_id case_row event_id content b latest now =
         (if \<not> ?human then Returns (Inl (the (blocked_for_system h (Some row) content b)))
          else if bcr_state row \<notin> set known_case_states then Returns (Inl UnknownPersistedState)
          else case res of Inl e \<Rightarrow> Returns (Inl (Orchestration e))
             | Inr report \<Rightarrow> Returns (Inr \<lparr>rp_decision_id = did, rp_outcome = action_str o',
                 rp_outcome_detail = outcome_detail o', rp_prior_decision_id = de_prior (rep_entry report),
                 rp_new_state = bc_state c, rp_reasoning = ?r\<rparr>))"
        unfolding human [symmetric]
        by (cases "blocked_for_system h (Some row) content b")
           (simp_all add: plan_action_response_def o' did Some Let_def d)
      show ?thesis
        using decide_on_row [where did = did and o' = o' and b = b and r = ?r and now = now and
            case_id = case_id and row = row and latest = latest and n = now] known
          case_state_parse_terminal [of "bcr_state row"]
        unfolding plan d
        by (cases "?human"; cases "bcr_state row \<in> set known_case_states"; cases res)
           (auto simp: o' did Some simp del: insert_iff)
    qed
  qed
qed

lemma is_blank_Nil [simp]: "is_blank []"
  by (simp add: is_blank_def trimmed_scalars_def trim_scalars_def)

lemma blocked_for_system_low:
  "blocked_for_system h (Some row) content b = None \<longleftrightarrow>
     (case bcr_effective_tier row of None \<Rightarrow> True
      | Some t \<Rightarrow> tier_parse t \<in> {TLow, TMedium} \<or> resolver_is_human (parse_resolver h content b))"
proof -
  have tiers: "t \<in> {TLow, TMedium} \<longleftrightarrow> t \<notin> {THigh, TCritical}" for t
    by (cases t) simp_all
  show ?thesis unfolding blocked_for_system_None_iff tiers by simp
qed

lemma supersede_on_row:
  "(case supersede nd d o' b r (supersede_authority_of signer b rank_signer rank_b) now
      (hydrate ((row_snapshot case_id row (Some d))\<lparr>snap_from_state := None, snap_to_state := None\<rparr>) now) of
      (c', Inl _) \<Rightarrow> \<not> ((b = signer \<or> rank_signer < rank_b) \<and> \<not> is_blank r \<and>
         b \<noteq> bcr_created_by row \<and> outcome_error o' = None)
    | (c', Inr _) \<Rightarrow> (b = signer \<or> rank_signer < rank_b) \<and> \<not> is_blank r \<and>
         b \<noteq> bcr_created_by row \<and> outcome_error o' = None \<and> bc_state c' = Superseded)"
proof -
  let ?c = "hydrate ((row_snapshot case_id row (Some d))\<lparr>snap_from_state := None, snap_to_state := None\<rparr>) now"
  have "bc_created_by ?c = bcr_created_by row"
    by (simp add: row_snapshot_def)
  then show ?thesis
    by (auto simp: supersede_def supersede_authority_of_def is_authorised_def Let_def
        split: option.splits)
qed

section \<open>Properties\<close>

text \<open>C4. The effective tier the relay stamps on a request is the declared tier (or the advertised
  default) raised to three floors: the panel's, the request's own task properties and, for a
  schema or demotion proposal, High. No declaration, tag or content lowers any of them; the
  planning fails only by the panic of the expiry reader on a proposal that carries a level.\<close>

theorem request_boundary_effective:
  "(case plan_request_boundary h case_id pk rtags content ptags advertised key of
      Panics \<Rightarrow> level_from_tags rtags \<noteq> None \<and> stale_after_from_content (h_json h) content = Panics
    | Returns b \<Rightarrow> rb_effective b =
        max (case declared_tier h rtags content of Some d \<Rightarrow> d | None \<Rightarrow> advertised)
          (max (floor_opt (Option.bind ptags tp_from_tags))
            (max (floor_opt (tp_from_tags rtags))
              (if level_from_tags rtags \<in> {Some Schema, Some Demotion} then THigh else TLow))))"
  by (auto simp: plan_request_boundary_def Let_def effective_tier_max request_props_def
      floor_opt_merge floor_opt_level split: option.splits outcome.splits)

text \<open>C2. When the relay plans a signed action response into a decision: exactly when the content is
  a recognised outcome, the case has projected and its persisted state is open, under review or
  reopened, the responder did not create the case, the outcome carries its detail, a share
  transition is forward, and a case whose effective tier is high or critical is decided by a
  human, never by a \<open>system:\<close> actor. The planned row then carries the outcome, the prior
  decision and the state the outcome leads to.\<close>

theorem plan_action_response_iff:
  "plan_action_response h case_id case_row event_id content b latest now = Returns (Inr p) \<longleftrightarrow>
     (\<exists>o' did row. h_outcome h content = Some o' \<and> decision_id_for_event event_id = Returns did \<and>
        case_row = Some row \<and> bcr_state row \<in> {''open'', ''under_review'', ''reopened''} \<and>
        (case bcr_effective_tier row of None \<Rightarrow> True
         | Some t \<Rightarrow> tier_parse t \<in> {TLow, TMedium} \<or> resolver_is_human (parse_resolver h content b)) \<and>
        b \<noteq> bcr_created_by row \<and> outcome_error o' = None \<and> share_transition_ok row o' \<and>
        p = \<lparr>rp_decision_id = did, rp_outcome = action_str o', rp_outcome_detail = outcome_detail o',
             rp_prior_decision_id = latest, rp_new_state = state_after o',
             rp_reasoning = (case response_reasoning h content of Some r \<Rightarrow> r | None \<Rightarrow> [])\<rparr>)"
  by (rule planned_response_iff)

text \<open>C5. When the relay plans a supersession: exactly when the superseded decision belongs to the
  case the event names and has no successor, the case's state admits a supersession, a high or
  critical case is superseded by a human, the superseder signed the original decision or ranks
  strictly above its signer, states a reason, did not create the case, and the outcome carries
  its detail. The plan always moves the case to \<^const>\<open>Superseded\<close>.\<close>

theorem plan_supersession_iff:
  "(\<exists>p. plan_supersession h new_id (Some old_id) content b signer rank_signer rank_b ctx now =
       Returns (Inr p) \<and> sp_superseded_decision_id p = old_did \<and> sp_decision_id p = new_did \<and>
       sp_new_state p = Superseded) \<longleftrightarrow>
   old_id \<noteq> [] \<and> decision_id_for_event old_id = Returns old_did \<and>
   decision_id_for_event new_id = Returns new_did \<and>
   (\<exists>o' row reason. h_outcome h content = Some o' \<and> sc_case_row ctx = Some row \<and>
      sc_superseded_case_id ctx = sc_case_id ctx \<and> sc_superseded_by ctx = None \<and>
      bcr_state row \<in> {''decided'', ''delegated'', ''promoted'', ''precedent'', ''superseded'', ''reopened''} \<and>
      (case bcr_effective_tier row of None \<Rightarrow> True
       | Some t \<Rightarrow> tier_parse t \<in> {TLow, TMedium} \<or> resolver_is_human (parse_resolver h content b)) \<and>
      (b = signer \<or> rank_signer < rank_b) \<and>
      response_reasoning h content = Some reason \<and> \<not> is_blank reason \<and>
      b \<noteq> bcr_created_by row \<and> outcome_error o' = None)"
proof (cases "h_outcome h content"; cases "sc_case_row ctx"; cases "decision_id_for_event old_id")
  fix o' row d
  assume a: "h_outcome h content = Some o'" "sc_case_row ctx = Some row"
    "decision_id_for_event old_id = Returns d"
  let ?r = "case response_reasoning h content of Some r \<Rightarrow> r | None \<Rightarrow> []"
  let ?c = "hydrate ((row_snapshot (sc_case_id ctx) row (Some d))
              \<lparr>snap_from_state := None, snap_to_state := None\<rparr>) now"
  let ?au = "supersede_authority_of signer b rank_signer rank_b"
  have reason: "\<not> is_blank ?r \<longleftrightarrow> (\<exists>reason. response_reasoning h content = Some reason \<and> \<not> is_blank reason)"
    by (cases "response_reasoning h content") (simp_all add: is_blank_Nil)
  have st: "state_supersedable (bcr_state row) \<longleftrightarrow>
     bcr_state row \<in> {''decided'', ''delegated'', ''promoted'', ''precedent'', ''superseded'', ''reopened''}"
    by (simp add: state_supersedable_def supersedable_states_def)
  show ?thesis
  proof (cases "decision_id_for_event new_id")
    case Panics
    then show ?thesis by (auto simp: plan_supersession_def a Let_def)
  next
    case (Returns nd)
    obtain c res where s: "supersede nd d o' b ?r ?au now ?c = (c, res)"
      by fastforce
    show ?thesis
      using supersede_on_row [where nd = nd and d = d and o' = o' and b = b and r = ?r and
          signer = signer and rank_signer = rank_signer and rank_b = rank_b and now = now and
          case_id = "sc_case_id ctx" and row = row]
      unfolding plan_supersession_def Let_def option.case a outcome.case Returns s prod.case st
      using reason
      by (cases res) (auto simp: blocked_for_system_low simp del: not_None_eq insert_iff)
  qed
qed (auto simp: plan_supersession_def)

text \<open>When an appeal may reopen a case: exactly when the case exists, the appellant is its
  requester of record (letter case aside), the decision it cites belongs to that case, and the
  case is in a decided, delegated, promoted, precedent or superseded state; the aggregate's
  \<open>reopen\<close> accepts every such state.\<close>

theorem plan_appeal_iff:
  "plan_appeal appellant case_id case_row cited = Inr () \<longleftrightarrow>
     (\<exists>row. case_row = Some row \<and> eq_ignore_ascii_case (bcr_created_by row) appellant \<and>
        cited = Some case_id \<and>
        bcr_state row \<in> {''decided'', ''delegated'', ''promoted'', ''precedent'', ''superseded''} \<and>
        snd (reopen now (hydrate (row_snapshot case_id row latest) now)) = Inr ())"
proof (cases case_row)
  case (Some row)
  have "bcr_state row \<in> {''decided'', ''delegated'', ''promoted'', ''precedent'', ''superseded''} \<Longrightarrow>
      case_state_parse (bcr_state row) \<in> {Decided, Delegated, Promoted, Precedent, Superseded}"
    by (auto simp: case_state_parse_def)
  then show ?thesis
    by (auto simp: plan_appeal_def Some appealable_states_def reopen_def row_snapshot_def
        simp del: insert_iff split: option.splits)
qed (simp add: plan_appeal_def)

end
