(* ===== verification/Receipts.thy ===== *)
theory Receipts
  imports Boundary "HOL-Library.List_Lexorder" "HOL-Library.Char_ord"
begin

text \<open>
  The receipt stage machine of \<open>nostr-bbs-relay-worker/src/relay_do/receipts.rs\<close> (ADR-2010) and
  the projections of \<open>nip_handlers.rs\<close> that drive it, over a model of the three governance tables.
  A table is the list of its rows; a statement gives the new database and sets \<open>changes()\<close>; a D1
  batch runs its statements in one transaction and is rolled back only by a failing statement, not
  by one that changes no row. Every D1 call may be lost before it runs or have its reply lost after
  it ran: \<open>db_net\<close> is the script of what happens to the coming calls.

  The flow itself, \<open>apply_with_receipt\<close>, is generic in the store as the code's is in its trait; the
  laws of a store are the locale \<open>receipt_store\<close>, interpreted on the D1 store.
\<close>

section \<open>Tables\<close>

record case_rec =
  ca_id :: string
  ca_category :: string
  ca_state :: string
  ca_from_share_state :: "string option"
  ca_to_share_state :: "string option"
  ca_created_by :: string
  ca_assigned_to :: "string option"
  ca_nostr_event_id :: "string option"
  ca_created_at :: nat
  ca_updated_at :: nat
  ca_declared_tier :: "string option"
  ca_effective_tier :: "string option"
  ca_tp :: "(string \<times> string \<times> string) option"
  ca_calibration_sample :: bool
  ca_probe_digest :: "string option"
  ca_max_pending_hours :: nat
  ca_stale_after :: "int option"
  ca_subject_kind :: string
  ca_subject_id :: string
  ca_title :: string
  ca_summary :: string
  ca_priority :: nat

record decision_rec =
  dr_decision_id :: string
  dr_case_id :: string
  dr_outcome :: string
  dr_outcome_detail :: "string option"
  dr_broker_pubkey :: string
  dr_reasoning :: string
  dr_prior :: "string option"
  dr_superseded_by :: "string option"
  dr_decided_at :: nat

datatype store_error = CallFailed | BatchFailed | ProjectionConflict | UnknownStage string
  | ReceiptVanished

text \<open>The text of \<open>stage_error\<close>: a store error, a planner's error or a wire token.\<close>

datatype failure = StoreFailure store_error | PlanFailure plan_error | Token string

record receipt_rec =
  rc_event_id :: string
  rc_kind :: nat
  rc_case_id :: string
  rc_request_event_id :: "string option"
  rc_signer :: string
  rc_decision_outcome :: "string option"
  rc_target_operation :: "string option"
  rc_supersedes :: "string option"
  rc_stage :: string
  rc_stage_error :: "failure option"
  rc_decision_id :: "string option"
  rc_signed_at :: nat
  rc_accepted_at :: "nat option"
  rc_projected_at :: "nat option"
  rc_replays :: nat
  rc_applied_at :: "nat option"
  rc_applied_by :: "string option"
  rc_acknowledgement :: "string option"

record delegation_rec =
  dg_case_id :: string
  dg_delegate :: string
  dg_delegated_by :: string
  dg_decision_id :: string
  dg_delegated_at :: nat

datatype net = Delivered | RequestLost | ReplyLost

record gov_db =
  db_cases :: "case_rec list"
  db_decisions :: "decision_rec list"
  db_receipts :: "receipt_rec list"
  db_delegations :: "delegation_rec list"
  db_event_times :: "string \<Rightarrow> nat option"
  db_changes :: nat
  db_net :: "net list"

section \<open>Statements\<close>

text \<open>A statement either runs, returning the database with \<open>changes()\<close> set, or violates a
  constraint (\<^const>\<open>None\<close>).\<close>

type_synonym stmt = "gov_db \<Rightarrow> gov_db option"

text \<open>\<open>UPDATE t SET f WHERE p\<close>\<close>

definition update_rows :: "('r \<Rightarrow> bool) \<Rightarrow> ('r \<Rightarrow> 'r) \<Rightarrow> 'r list \<Rightarrow> 'r list" where
  "update_rows p f rows = map (\<lambda>r. if p r then f r else r) rows"

definition count_rows :: "('r \<Rightarrow> bool) \<Rightarrow> 'r list \<Rightarrow> nat" where
  "count_rows p rows = length (filter p rows)"

definition update_cases :: "(case_rec \<Rightarrow> bool) \<Rightarrow> (case_rec \<Rightarrow> case_rec) \<Rightarrow> stmt" where
  "update_cases p f db =
     Some (db\<lparr>db_cases := update_rows p f (db_cases db), db_changes := count_rows p (db_cases db)\<rparr>)"

definition update_decisions :: "(decision_rec \<Rightarrow> bool) \<Rightarrow> (decision_rec \<Rightarrow> decision_rec) \<Rightarrow> stmt" where
  "update_decisions p f db =
     Some (db\<lparr>db_decisions := update_rows p f (db_decisions db),
              db_changes := count_rows p (db_decisions db)\<rparr>)"

definition update_receipts :: "(receipt_rec \<Rightarrow> bool) \<Rightarrow> (receipt_rec \<Rightarrow> receipt_rec) \<Rightarrow> stmt" where
  "update_receipts p f db =
     Some (db\<lparr>db_receipts := update_rows p f (db_receipts db),
              db_changes := count_rows p (db_receipts db)\<rparr>)"

text \<open>\<open>INSERT INTO broker_decisions SELECT row WHERE guard\<close>, the primary key being unique.\<close>

definition insert_decision :: "bool \<Rightarrow> decision_rec \<Rightarrow> stmt" where
  "insert_decision guard row db =
     (if \<not> guard then Some (db\<lparr>db_changes := 0\<rparr>)
      else if dr_decision_id row \<in> dr_decision_id ` set (db_decisions db) then None
      else Some (db\<lparr>db_decisions := db_decisions db @ [row], db_changes := 1\<rparr>))"

text \<open>\<open>ORDER BY decided_at DESC, decision_id DESC LIMIT 1\<close>\<close>

definition newer_decision :: "decision_rec \<Rightarrow> decision_rec \<Rightarrow> bool" where
  "newer_decision a b \<longleftrightarrow>
     dr_decided_at b < dr_decided_at a \<or>
     (dr_decided_at b = dr_decided_at a \<and> dr_decision_id b < dr_decision_id a)"

definition latest_decision :: "string \<Rightarrow> gov_db \<Rightarrow> decision_rec option" where
  "latest_decision case_id db =
     fold (\<lambda>d best. case best of None \<Rightarrow> Some d
                    | Some b \<Rightarrow> if newer_decision d b then Some d else Some b)
       (filter (\<lambda>d. dr_case_id d = case_id) (db_decisions db)) None"

definition latest_id :: "string \<Rightarrow> gov_db \<Rightarrow> string option" where
  "latest_id case_id db = map_option dr_decision_id (latest_decision case_id db)"

definition find_case :: "string \<Rightarrow> gov_db \<Rightarrow> case_rec option" where
  "find_case i db = List.find (\<lambda>c. ca_id c = i) (db_cases db)"

definition find_decision :: "string \<Rightarrow> gov_db \<Rightarrow> decision_rec option" where
  "find_decision i db = List.find (\<lambda>d. dr_decision_id d = i) (db_decisions db)"

definition find_receipt :: "string \<Rightarrow> gov_db \<Rightarrow> receipt_rec option" where
  "find_receipt i db = List.find (\<lambda>r. rc_event_id r = i) (db_receipts db)"

definition select_case_row :: "string \<Rightarrow> gov_db \<Rightarrow> broker_case_row option" where
  "select_case_row i db =
     map_option (\<lambda>c. \<lparr>bcr_category = ca_category c, bcr_state = ca_state c,
       bcr_effective_tier = ca_effective_tier c, bcr_nostr_event_id = ca_nostr_event_id c,
       bcr_created_by = ca_created_by c, bcr_from_share_state = ca_from_share_state c,
       bcr_to_share_state = ca_to_share_state c\<rparr>) (find_case i db)"

text \<open>A D1 batch: one transaction, the changes of each statement in order.\<close>

fun run_stmts :: "stmt list \<Rightarrow> gov_db \<Rightarrow> (gov_db \<times> nat list) option" where
  "run_stmts [] db = Some (db, [])"
| "run_stmts (s # ss) db =
     Option.bind (s db) (\<lambda>db'.
     Option.bind (run_stmts ss db') (\<lambda>(db'', cs). Some (db'', db_changes db' # cs)))"

text \<open>What the network does to the next D1 call.\<close>

definition next_call :: "gov_db \<Rightarrow> net \<times> gov_db" where
  "next_call db =
     (case db_net db of [] \<Rightarrow> (Delivered, db) | n # ns \<Rightarrow> (n, db\<lparr>db_net := ns\<rparr>))"

definition run_batch :: "stmt list \<Rightarrow> gov_db \<Rightarrow> gov_db \<times> (store_error + unit)" where
  "run_batch stmts db =
     (case next_call db of
        (RequestLost, db) \<Rightarrow> (db, Inl CallFailed)
      | (n, db) \<Rightarrow>
          (case run_stmts stmts db of
             None \<Rightarrow> (db, Inl BatchFailed)
           | Some (db', cs) \<Rightarrow>
               (db', if n = ReplyLost then Inl CallFailed
                     else if list_all (\<lambda>c. c = 1) cs then Inr ()
                     else Inl ProjectionConflict)))"

section \<open>Correlation\<close>

record correlation =
  co_event_id :: string
  co_kind :: nat
  co_case_id :: string
  co_request_event_id :: "string option"
  co_signer :: string
  co_decision_outcome :: "string option"
  co_target_operation :: "string option"
  co_supersedes :: "string option"
  co_signed_at :: nat

definition or_else :: "'a option \<Rightarrow> 'a option \<Rightarrow> 'a option" where
  "or_else a b = (case a of Some x \<Rightarrow> Some x | None \<Rightarrow> b)"

definition correlate :: "host \<Rightarrow> nostr_event \<Rightarrow> correlation option" where
  "correlate h e =
     (case extract_d_tag (ev_tags e) of
        None \<Rightarrow> None
      | Some case_id \<Rightarrow>
          if case_id = [] then None
          else Some
            \<lparr>co_event_id = ev_id e, co_kind = ev_kind e, co_case_id = case_id,
             co_request_event_id =
               or_else (tag_with_marker (ev_tags e) ''e'' ''request'')
                 (or_else (extract_appeal_target (ev_tags e)) (unmarked_tag (ev_tags e) ''e'')),
             co_signer = ev_pubkey e,
             co_decision_outcome = map_option action_str (h_outcome h (ev_content e)),
             co_target_operation = tag_value (ev_tags e) ''op'',
             co_supersedes = extract_supersedes_target (ev_tags e),
             co_signed_at = ev_created_at e\<rparr>)"

section \<open>Commits\<close>

record projection_commit =
  pc_event_id :: string
  pc_case_id :: string
  pc_request_event_id :: string
  pc_expected_state :: string
  pc_decision_id :: string
  pc_outcome :: string
  pc_outcome_detail :: "string option"
  pc_prior :: "string option"
  pc_reasoning :: string
  pc_broker_pubkey :: string
  pc_new_state :: string
  pc_decided_at :: nat

record supersession_commit =
  su_event_id :: string
  su_case_id :: string
  su_superseded_event_id :: string
  su_superseded_decision_id :: string
  su_expected_state :: string
  su_decision_id :: string
  su_outcome :: string
  su_outcome_detail :: "string option"
  su_reasoning :: string
  su_broker_pubkey :: string
  su_decided_at :: nat

record appeal_commit =
  ap_event_id :: string
  ap_case_id :: string
  ap_appellant :: string
  ap_cited_event_id :: string
  ap_cited_decision_id :: string
  ap_at :: nat

datatype commit = Response projection_commit | Supersession supersession_commit | Appeal appeal_commit

fun commit_event_id :: "commit \<Rightarrow> string" where
  "commit_event_id (Response c) = pc_event_id c"
| "commit_event_id (Supersession c) = su_event_id c"
| "commit_event_id (Appeal c) = ap_event_id c"

fun commit_matches :: "commit \<Rightarrow> correlation \<Rightarrow> bool" where
  "commit_matches (Response c) co \<longleftrightarrow>
     co_event_id co = pc_event_id c \<and> co_case_id co = pc_case_id c \<and>
     co_signer co = pc_broker_pubkey c \<and> co_request_event_id co = Some (pc_request_event_id c) \<and>
     co_decision_outcome co = Some (pc_outcome c)"
| "commit_matches (Supersession c) co \<longleftrightarrow>
     co_event_id co = su_event_id c \<and> co_case_id co = su_case_id c \<and>
     co_signer co = su_broker_pubkey c \<and> co_supersedes co = Some (su_superseded_event_id c) \<and>
     co_decision_outcome co = Some (su_outcome c)"
| "commit_matches (Appeal c) co \<longleftrightarrow>
     co_event_id co = ap_event_id c \<and> co_signer co = ap_appellant c \<and>
     co_request_event_id co = Some (ap_cited_event_id c)"

section \<open>The projection statements\<close>

definition awaiting_stages :: "string list" where
  "awaiting_stages = [''relay-accepted'', ''projection-failed'']"

text \<open>\<open>PROJECTION_DECISION_SQL\<close>, \<open>PROJECTION_CASE_SQL\<close>, \<open>PROJECTION_RECEIPT_SQL\<close>\<close>

definition projection_decision_stmt :: "projection_commit \<Rightarrow> stmt" where
  "projection_decision_stmt c db =
     insert_decision
       (list_ex (\<lambda>r. ca_id r = pc_case_id c \<and> ca_state r = pc_expected_state c \<and>
            ca_nostr_event_id r = Some (pc_request_event_id c) \<and>
            ca_state r \<in> {''open'', ''under_review'', ''reopened''}) (db_cases db)
        \<and> latest_id (pc_case_id c) db = pc_prior c
        \<and> list_ex (\<lambda>r. rc_event_id r = pc_event_id c \<and> rc_case_id r = pc_case_id c \<and>
            rc_request_event_id r = Some (pc_request_event_id c) \<and>
            rc_stage r \<in> set awaiting_stages) (db_receipts db))
       \<lparr>dr_decision_id = pc_decision_id c, dr_case_id = pc_case_id c, dr_outcome = pc_outcome c,
        dr_outcome_detail = pc_outcome_detail c, dr_broker_pubkey = pc_broker_pubkey c,
        dr_reasoning = pc_reasoning c, dr_prior = pc_prior c, dr_superseded_by = None,
        dr_decided_at = pc_decided_at c\<rparr> db"

definition projection_case_stmt :: "string \<Rightarrow> string \<Rightarrow> nat \<Rightarrow> string \<Rightarrow> stmt" where
  "projection_case_stmt new_state assigned_to now case_id db =
     update_cases (\<lambda>r. ca_id r = case_id \<and> db_changes db = 1)
       (\<lambda>r. r\<lparr>ca_state := new_state, ca_assigned_to := Some assigned_to, ca_updated_at := now\<rparr>) db"

definition projection_receipt_stmt :: "nat \<Rightarrow> string option \<Rightarrow> string \<Rightarrow> stmt" where
  "projection_receipt_stmt now decision_id event_id db =
     update_receipts (\<lambda>r. rc_event_id r = event_id \<and> db_changes db = 1)
       (\<lambda>r. r\<lparr>rc_stage := stage_as_str ProjectionCommitted, rc_projected_at := Some now,
              rc_decision_id := decision_id, rc_stage_error := None\<rparr>) db"

text \<open>\<open>SUPERSESSION_DECISION_SQL\<close>, \<open>SUPERSESSION_MARK_SQL\<close>, \<open>SUPERSESSION_CASE_SQL\<close>\<close>

definition supersession_decision_stmt :: "supersession_commit \<Rightarrow> stmt" where
  "supersession_decision_stmt c db =
     insert_decision
       (list_ex (\<lambda>r. ca_id r = su_case_id c \<and> ca_state r = su_expected_state c \<and>
            ca_state r \<in> set supersedable_states) (db_cases db)
        \<and> list_ex (\<lambda>d. dr_decision_id d = su_superseded_decision_id c \<and> dr_case_id d = su_case_id c \<and>
            dr_superseded_by d = None) (db_decisions db)
        \<and> list_ex (\<lambda>r. rc_event_id r = su_event_id c \<and> rc_case_id r = su_case_id c \<and>
            rc_stage r \<in> set awaiting_stages) (db_receipts db))
       \<lparr>dr_decision_id = su_decision_id c, dr_case_id = su_case_id c, dr_outcome = su_outcome c,
        dr_outcome_detail = su_outcome_detail c, dr_broker_pubkey = su_broker_pubkey c,
        dr_reasoning = su_reasoning c, dr_prior = Some (su_superseded_decision_id c),
        dr_superseded_by = None, dr_decided_at = su_decided_at c\<rparr> db"

definition supersession_mark_stmt :: "supersession_commit \<Rightarrow> stmt" where
  "supersession_mark_stmt c db =
     update_decisions (\<lambda>d. dr_decision_id d = su_superseded_decision_id c \<and>
          dr_superseded_by d = None \<and> db_changes db = 1)
       (\<lambda>d. d\<lparr>dr_superseded_by := Some (su_decision_id c)\<rparr>) db"

definition supersession_case_stmt :: "supersession_commit \<Rightarrow> stmt" where
  "supersession_case_stmt c db =
     update_cases (\<lambda>r. ca_id r = su_case_id c \<and> db_changes db = 1)
       (\<lambda>r. r\<lparr>ca_state := ''superseded'', ca_assigned_to := Some (su_broker_pubkey c),
              ca_updated_at := su_decided_at c\<rparr>) db"

text \<open>\<open>APPEAL_REOPEN_SQL\<close>; SQL's \<open>lower\<close> is ASCII.\<close>

definition appeal_reopen_stmt :: "appeal_commit \<Rightarrow> stmt" where
  "appeal_reopen_stmt c db =
     update_cases (\<lambda>r. ca_id r = ap_case_id c \<and>
          ascii_lower (ca_created_by r) = ascii_lower (ap_appellant c) \<and>
          ca_state r \<in> set appealable_states \<and>
          list_ex (\<lambda>d. dr_decision_id d = ap_cited_decision_id c \<and> dr_case_id d = ap_case_id c)
            (db_decisions db))
       (\<lambda>r. r\<lparr>ca_state := ''reopened'', ca_updated_at := ap_at c\<rparr>) db"

definition commit_projection :: "projection_commit \<Rightarrow> gov_db \<Rightarrow> gov_db \<times> (store_error + unit)" where
  "commit_projection c =
     run_batch [projection_decision_stmt c,
       projection_case_stmt (pc_new_state c) (pc_broker_pubkey c) (pc_decided_at c) (pc_case_id c),
       projection_receipt_stmt (pc_decided_at c) (Some (pc_decision_id c)) (pc_event_id c)]"

definition commit_supersession :: "supersession_commit \<Rightarrow> gov_db \<Rightarrow> gov_db \<times> (store_error + unit)" where
  "commit_supersession c =
     run_batch [supersession_decision_stmt c, supersession_mark_stmt c, supersession_case_stmt c,
       projection_receipt_stmt (su_decided_at c) (Some (su_decision_id c)) (su_event_id c)]"

definition commit_appeal :: "appeal_commit \<Rightarrow> gov_db \<Rightarrow> gov_db \<times> (store_error + unit)" where
  "commit_appeal c =
     run_batch [appeal_reopen_stmt c, projection_receipt_stmt (ap_at c) None (ap_event_id c)]"

section \<open>The store operations on D1\<close>

datatype accept_outcome = Fresh | Replay receipt_stage nat

definition new_receipt :: "correlation \<Rightarrow> nat \<Rightarrow> receipt_rec" where
  "new_receipt c accepted_at =
     \<lparr>rc_event_id = co_event_id c, rc_kind = co_kind c, rc_case_id = co_case_id c,
      rc_request_event_id = co_request_event_id c, rc_signer = co_signer c,
      rc_decision_outcome = co_decision_outcome c, rc_target_operation = co_target_operation c,
      rc_supersedes = co_supersedes c, rc_stage = stage_as_str RelayAccepted, rc_stage_error = None,
      rc_decision_id = None, rc_signed_at = co_signed_at c, rc_accepted_at = Some accepted_at,
      rc_projected_at = None, rc_replays = 0, rc_applied_at = None, rc_applied_by = None,
      rc_acknowledgement = None\<rparr>"

text \<open>\<open>INSERT OR IGNORE\<close>, then on a replay \<open>UPDATE ... RETURNING stage, replays\<close>.\<close>

definition insert_receipt :: "receipt_rec \<Rightarrow> gov_db \<Rightarrow> gov_db" where
  "insert_receipt r db =
     (if rc_event_id r \<in> rc_event_id ` set (db_receipts db) then db\<lparr>db_changes := 0\<rparr>
      else db\<lparr>db_receipts := db_receipts db @ [r], db_changes := 1\<rparr>)"

definition bump_replays :: "string \<Rightarrow> gov_db \<Rightarrow> gov_db" where
  "bump_replays i db =
     db\<lparr>db_receipts := update_rows (\<lambda>r. rc_event_id r = i) (\<lambda>r. r\<lparr>rc_replays := rc_replays r + 1\<rparr>)
          (db_receipts db),
        db_changes := count_rows (\<lambda>r. rc_event_id r = i) (db_receipts db)\<rparr>"

definition record_accepted ::
  "correlation \<Rightarrow> nat \<Rightarrow> gov_db \<Rightarrow> gov_db \<times> (store_error + accept_outcome)"
where
  "record_accepted c accepted_at db0 =
     (case next_call db0 of
        (RequestLost, db1) \<Rightarrow> (db1, Inl CallFailed)
      | (n, db1) \<Rightarrow>
          (let db2 = insert_receipt (new_receipt c accepted_at) db1 in
           if n = ReplyLost then (db2, Inl CallFailed)
           else if db_changes db2 > 0 then (db2, Inr Fresh)
           else
             (case next_call db2 of
                (RequestLost, db3) \<Rightarrow> (db3, Inl CallFailed)
              | (n', db3) \<Rightarrow>
                  (let db4 = bump_replays (co_event_id c) db3 in
                   if n' = ReplyLost then (db4, Inl CallFailed)
                   else
                     (case find_receipt (co_event_id c) db4 of
                        None \<Rightarrow> (db4, Inl ReceiptVanished)
                      | Some r \<Rightarrow>
                          (case stage_parse (rc_stage r) of
                             None \<Rightarrow> (db4, Inl (UnknownStage (rc_stage r)))
                           | Some st \<Rightarrow> (db4, Inr (Replay st (rc_replays r)))))))))"

definition mark_projection_failed ::
  "string \<Rightarrow> failure \<Rightarrow> nat \<Rightarrow> gov_db \<Rightarrow> gov_db \<times> (store_error + unit)"
where
  "mark_projection_failed event_id err now db0 =
     (case next_call db0 of
        (RequestLost, db) \<Rightarrow> (db, Inl CallFailed)
      | (n, db) \<Rightarrow>
          (let p = (\<lambda>r. rc_event_id r = event_id \<and> rc_stage r \<noteq> stage_as_str ProjectionCommitted) in
           (db\<lparr>db_receipts := update_rows p
                (\<lambda>r. r\<lparr>rc_stage := stage_as_str ProjectionFailed, rc_stage_error := Some err,
                       rc_accepted_at := (case rc_accepted_at r of Some t \<Rightarrow> Some t | None \<Rightarrow> Some now)\<rparr>)
                (db_receipts db),
               db_changes := count_rows p (db_receipts db)\<rparr>,
            if n = ReplyLost then Inl CallFailed else Inr ())))"

section \<open>The stage machine, over any store\<close>

text \<open>The methods of the trait \<open>ReceiptStore\<close>.\<close>

record 's store_ops =
  so_record_accepted :: "correlation \<Rightarrow> nat \<Rightarrow> 's \<Rightarrow> 's \<times> (store_error + accept_outcome)"
  so_commit_projection :: "projection_commit \<Rightarrow> 's \<Rightarrow> 's \<times> (store_error + unit)"
  so_commit_supersession :: "supersession_commit \<Rightarrow> 's \<Rightarrow> 's \<times> (store_error + unit)"
  so_commit_appeal :: "appeal_commit \<Rightarrow> 's \<Rightarrow> 's \<times> (store_error + unit)"
  so_mark_projection_failed :: "string \<Rightarrow> failure \<Rightarrow> nat \<Rightarrow> 's \<Rightarrow> 's \<times> (store_error + unit)"

definition d1_store :: "gov_db store_ops" where
  "d1_store =
     \<lparr>so_record_accepted = record_accepted, so_commit_projection = commit_projection,
      so_commit_supersession = commit_supersession, so_commit_appeal = commit_appeal,
      so_mark_projection_failed = mark_projection_failed\<rparr>"

datatype receipt_outcome = Committed receipt_stage | DuplicateIgnored nat | Reconciled nat
  | NotProjected failure | NotRecorded store_error | Uncorrelated

definition outcome_is_applied :: "receipt_outcome \<Rightarrow> bool" where
  "outcome_is_applied r =
     (case r of Committed _ \<Rightarrow> True | Reconciled _ \<Rightarrow> True | DuplicateIgnored _ \<Rightarrow> True | _ \<Rightarrow> False)"

definition store_commit :: "'s store_ops \<Rightarrow> commit \<Rightarrow> 's \<Rightarrow> 's \<times> (store_error + unit)" where
  "store_commit ops c s =
     (case c of
        Response p \<Rightarrow> so_commit_projection ops p s
      | Supersession p \<Rightarrow> so_commit_supersession ops p s
      | Appeal p \<Rightarrow> so_commit_appeal ops p s)"

text \<open>The part of \<open>apply_with_receipt\<close> after the receipt is known to await its projection.\<close>

definition commit_with_receipt ::
  "'s store_ops \<Rightarrow> commit \<Rightarrow> nat \<Rightarrow> nat \<Rightarrow> 's \<Rightarrow> 's \<times> receipt_outcome"
where
  "commit_with_receipt ops c now replays s =
     (case store_commit ops c s of
        (s', Inr _) \<Rightarrow>
          (s', if replays > 0 then Reconciled replays else Committed ProjectionCommitted)
      | (s', Inl e) \<Rightarrow>
          (fst (so_mark_projection_failed ops (commit_event_id c) (StoreFailure e) now s'),
           NotProjected (StoreFailure e)))"

definition apply_with_receipt ::
  "'s store_ops \<Rightarrow> correlation \<Rightarrow> commit \<Rightarrow> nat \<Rightarrow> 's \<Rightarrow> 's \<times> receipt_outcome"
where
  "apply_with_receipt ops co c now s =
     (if \<not> commit_matches c co then (s, Uncorrelated)
      else case so_record_accepted ops co now s of
        (s', Inl e) \<Rightarrow> (s', NotRecorded e)
      | (s', Inr Fresh) \<Rightarrow> commit_with_receipt ops c now 0 s'
      | (s', Inr (Replay stage replays)) \<Rightarrow>
          if \<not> awaits_projection stage then (s', DuplicateIgnored replays)
          else commit_with_receipt ops c now replays s')"

text \<open>One delivery of a signed event, its outcome dropped, and how often a run of deliveries
  changed what is observed of the store.\<close>

definition deliver :: "'s store_ops \<Rightarrow> correlation \<Rightarrow> commit \<Rightarrow> nat \<Rightarrow> 's \<Rightarrow> 's" where
  "deliver ops co c now s = fst (apply_with_receipt ops co c now s)"

fun effect_changes :: "('s \<Rightarrow> 'e) \<Rightarrow> ('x \<Rightarrow> 's \<Rightarrow> 's) \<Rightarrow> 'x list \<Rightarrow> 's \<Rightarrow> nat" where
  "effect_changes eff step [] s = 0"
| "effect_changes eff step (x # xs) s =
     (if eff (step x s) = eff s then 0 else 1) + effect_changes eff step xs (step x s)"

text \<open>What is observed changes at most once when every step that changes it commits, and nothing
  changes after a commit.\<close>

lemma effect_changes_once:
  assumes step: "\<And>x s. ok s \<Longrightarrow> ok (step x s) \<and> (eff (step x s) = eff s \<or> committed (step x s)) \<and>
      (committed s \<longrightarrow> eff (step x s) = eff s \<and> committed (step x s))"
  shows "ok s \<Longrightarrow> effect_changes eff step xs s \<le> 1 \<and>
      (committed s \<longrightarrow> effect_changes eff step xs s = 0)"
proof (induction xs arbitrary: s)
  case (Cons x xs)
  from step [OF Cons.prems, of x] Cons.IH [of "step x s"] show ?case by auto
qed simp

locale receipt_store =
  fixes ops :: "'s store_ops"
    and inv :: "'s \<Rightarrow> bool"
    and stage_at :: "string \<Rightarrow> 's \<Rightarrow> string option"
    and effects :: "'s \<Rightarrow> 'e"
  assumes accept_inv: "inv s \<Longrightarrow> inv (fst (so_record_accepted ops co n s))"
    and commit_inv: "inv s \<Longrightarrow> stage_at (commit_event_id c) s = Some raw \<Longrightarrow>
          inv (fst (store_commit ops c s))"
    and mark_inv: "inv s \<Longrightarrow> inv (fst (so_mark_projection_failed ops i e n s))"
    and accept_effects: "inv s \<Longrightarrow> effects (fst (so_record_accepted ops co n s)) = effects s"
    and mark_effects: "inv s \<Longrightarrow> effects (fst (so_mark_projection_failed ops i e n s)) = effects s"
    and accept_stage: "inv s \<Longrightarrow> stage_at i s = Some raw \<Longrightarrow>
          stage_at i (fst (so_record_accepted ops co n s)) = Some raw"
    and accept_fresh: "inv s \<Longrightarrow> so_record_accepted ops co n s = (s', Inr Fresh) \<Longrightarrow>
          stage_at (co_event_id co) s = None \<and> stage_at (co_event_id co) s' = Some ''relay-accepted''"
    and accept_replay: "inv s \<Longrightarrow> so_record_accepted ops co n s = (s', Inr (Replay st k)) \<Longrightarrow>
          \<exists>raw. stage_at (co_event_id co) s' = Some raw \<and> stage_parse raw = Some st"
    and commit_atomic: "inv s \<Longrightarrow> stage_at (commit_event_id c) s = Some raw \<Longrightarrow>
          store_commit ops c s = (s', r) \<Longrightarrow>
          (effects s' = effects s \<and> r \<noteq> Inr ()) \<or>
          stage_at (commit_event_id c) s' = Some ''projection-committed''"
    and mark_stage: "inv s \<Longrightarrow> stage_at i s = Some ''projection-committed'' \<Longrightarrow>
          stage_at i (fst (so_mark_projection_failed ops i e n s)) = Some ''projection-committed''"
begin

lemma commit_with_receipt_effects:
  assumes "inv s" "stage_at (commit_event_id c) s = Some raw"
    and "commit_with_receipt ops c now k s = (s', r)"
  shows "inv s' \<and> (effects s' = effects s \<or> stage_at (commit_event_id c) s' = Some ''projection-committed'')
    \<and> (outcome_is_applied r \<longrightarrow> stage_at (commit_event_id c) s' = Some ''projection-committed'')"
proof (cases "store_commit ops c s")
  case (Pair t res)
  have "inv t" using commit_inv [OF assms(1,2)] Pair by simp
  note at = commit_atomic [OF assms(1,2) Pair]
  show ?thesis
  proof (cases res)
    case (Inl e)
    then have s': "s' = fst (so_mark_projection_failed ops (commit_event_id c) (StoreFailure e) now t)"
      and r: "r = NotProjected (StoreFailure e)"
      using assms(3) by (simp_all add: commit_with_receipt_def Pair Inl)
    have "effects s' = effects t" unfolding s' by (rule mark_effects [OF \<open>inv t\<close>])
    moreover have "inv s'" unfolding s' by (rule mark_inv [OF \<open>inv t\<close>])
    moreover have "stage_at (commit_event_id c) t = Some ''projection-committed'' \<Longrightarrow>
        stage_at (commit_event_id c) s' = Some ''projection-committed''"
      unfolding s' by (rule mark_stage [OF \<open>inv t\<close>])
    ultimately show ?thesis using at r by (auto simp: outcome_is_applied_def)
  next
    case (Inr u)
    have "s' = t" using assms(3) by (simp add: commit_with_receipt_def Pair Inr)
    then show ?thesis using at Inr \<open>inv t\<close> by simp
  qed
qed

lemma apply_effects:
  assumes "inv s" and "apply_with_receipt ops co c now s = (s', r)"
  shows "inv s' \<and> (effects s' = effects s \<or> stage_at (co_event_id co) s' = Some ''projection-committed'')"
proof (cases "commit_matches c co")
  case False
  then show ?thesis using assms by (simp add: apply_with_receipt_def)
next
  case True
  then have id: "co_event_id co = commit_event_id c" by (cases c) auto
  obtain t a where a: "so_record_accepted ops co now s = (t, a)" by fastforce
  have t: "inv t" "effects t = effects s"
    using accept_inv [OF assms(1), of co now] accept_effects [OF assms(1), of co now] a by simp_all
  consider (err) "s' = t" | (run) k raw where "stage_at (co_event_id co) t = Some raw"
      "commit_with_receipt ops c now k t = (s', r)"
    using assms True a accept_fresh [OF assms(1)] accept_replay [OF assms(1)]
    by (auto simp: apply_with_receipt_def split: sum.splits accept_outcome.splits if_splits) blast+
  then show ?thesis
  proof cases
    case err
    with t show ?thesis by simp
  next
    case run
    from commit_with_receipt_effects [OF t(1) _ run(2)] run(1) t(2) id show ?thesis by auto
  qed
qed

text \<open>What the reported outcome says about the receipt.\<close>

lemma apply_reported:
  assumes "inv s" and "apply_with_receipt ops co c now s = (s', r)" "outcome_is_applied r"
  shows "\<exists>raw st. stage_at (co_event_id co) s' = Some raw \<and> stage_parse raw = Some st \<and>
     \<not> awaits_projection st"
proof -
  have m: "commit_matches c co"
    using assms(2,3) by (auto simp: apply_with_receipt_def outcome_is_applied_def split: if_splits)
  then have id: "co_event_id co = commit_event_id c" by (cases c) auto
  obtain t a where a: "so_record_accepted ops co now s = (t, a)" by fastforce
  have t: "inv t" using accept_inv [OF assms(1), of co now] a by simp
  consider (dup) st k where "a = Inr (Replay st k)" "\<not> awaits_projection st" "s' = t"
    | (run) k raw where "stage_at (co_event_id co) t = Some raw"
      "commit_with_receipt ops c now k t = (s', r)"
    using assms m a accept_fresh [OF assms(1)] accept_replay [OF assms(1)]
    by (auto simp: apply_with_receipt_def outcome_is_applied_def
        split: sum.splits accept_outcome.splits if_splits) blast+
  then show ?thesis
  proof cases
    case dup
    with accept_replay [OF assms(1), of co now t st k] a show ?thesis by auto
  next
    case run
    have "stage_at (co_event_id co) s' = Some ''projection-committed''"
      using commit_with_receipt_effects [OF t _ run(2)] run(1) id assms(3) by auto
    then show ?thesis by (simp add: stage_parse_def awaits_projection_def)
  qed
qed

lemma apply_committed:
  assumes "inv s" "stage_at (co_event_id co) s = Some ''projection-committed''"
    and "apply_with_receipt ops co c now s = (s', r)"
  shows "effects s' = effects s \<and> stage_at (co_event_id co) s' = Some ''projection-committed''"
proof (cases "commit_matches c co")
  case False
  then show ?thesis using assms by (simp add: apply_with_receipt_def)
next
  case True
  obtain t a where a: "so_record_accepted ops co now s = (t, a)" by fastforce
  have t: "effects t = effects s" "stage_at (co_event_id co) t = Some ''projection-committed''"
    using accept_effects [OF assms(1), of co now] accept_stage [OF assms(1,2), of co now] a
    by simp_all
  have "a \<noteq> Inr Fresh"
    using accept_fresh [OF assms(1), of co now t] assms(2) a by auto
  moreover have "st = ProjectionCommitted" if "a = Inr (Replay st k)" for st k
    using accept_replay [OF assms(1), of co now t st k] a that t(2) by (simp add: stage_parse_def)
  ultimately have "s' = t"
    using assms(3) True a
    by (cases a) (auto simp: apply_with_receipt_def awaits_projection_def split: accept_outcome.splits)
  with t show ?thesis by simp
qed

text \<open>However often one signed event is delivered, and whatever calls fail in between, its effects
  happen at most once.\<close>

lemma deliver_once:
  "inv s \<Longrightarrow> effect_changes effects (deliver ops co c) ts s \<le> 1 \<and>
     (stage_at (co_event_id co) s = Some ''projection-committed'' \<longrightarrow>
      effect_changes effects (deliver ops co c) ts s = 0)"
proof (rule effect_changes_once [where ok = inv])
  fix now t
  assume t: "inv t"
  obtain t' r where a: "apply_with_receipt ops co c now t = (t', r)" by fastforce
  show "inv (deliver ops co c now t) \<and> (effects (deliver ops co c now t) = effects t \<or>
      stage_at (co_event_id co) (deliver ops co c now t) = Some ''projection-committed'') \<and>
    (stage_at (co_event_id co) t = Some ''projection-committed'' \<longrightarrow>
      effects (deliver ops co c now t) = effects t \<and>
      stage_at (co_event_id co) (deliver ops co c now t) = Some ''projection-committed'')"
    using apply_effects [OF t a] apply_committed [OF t _ a] by (simp add: deliver_def a)
qed

end

end
