(* ===== verification/Receipt_Store.thy ===== *)
theory Receipt_Store
  imports Receipts
begin

text \<open>
  The D1 store of \<open>receipts.rs\<close> satisfies the laws of \<open>receipt_store\<close>: each batch of conditional
  statements changes either every one of its rows or none, so a commit that touches a case or a
  decision has moved its receipt to \<open>projection-committed\<close>, whatever reply the caller saw.
\<close>

section \<open>Rows and keys\<close>

lemma update_rows_False [simp]: "update_rows (\<lambda>r. False) f rows = rows"
  by (simp add: update_rows_def)

lemma update_rows_keys [simp]:
  "(\<And>r. key (f r) = key r) \<Longrightarrow> map key (update_rows p f rows) = map key rows"
  by (simp add: update_rows_def)

lemma count_rows_False [simp]: "count_rows (\<lambda>r. False) rows = 0"
  by (simp add: count_rows_def)

lemma count_rows_key_le:
  assumes "distinct (map key rows)" "\<And>r. p r \<Longrightarrow> key r = k"
  shows "count_rows p rows \<le> 1"
  using assms(1)
proof (induction rows)
  case (Cons r rows)
  show ?case
  proof (cases "p r")
    case True
    then have "\<not> p r'" if "r' \<in> set rows" for r'
      using that Cons.prems assms(2) by (metis distinct.simps(2) image_eqI list.map(2) set_map)
    then have "filter p rows = []" by simp
    then show ?thesis by (simp add: count_rows_def)
  qed (use Cons in \<open>simp add: count_rows_def\<close>)
qed (simp add: count_rows_def)

lemma count_rows_eq_0: "count_rows p rows = 0 \<longleftrightarrow> \<not> list_ex p rows"
  by (auto simp: count_rows_def filter_empty_conv list_ex_iff)

lemma count_rows_cases:
  assumes "distinct (map key rows)" "\<And>r. p r \<Longrightarrow> key r = k"
  shows "count_rows p rows = (if list_ex p rows then 1 else 0)"
proof -
  have "count_rows p rows \<le> 1" by (rule count_rows_key_le [OF assms])
  then show ?thesis using count_rows_eq_0 [of p rows] by (cases "list_ex p rows") simp_all
qed

lemma update_rows_none: "\<not> list_ex p rows \<Longrightarrow> update_rows p f rows = rows"
  by (auto simp: update_rows_def list_ex_iff intro: map_idI)

lemma find_update_rows:
  assumes "\<And>r. key (f r) = key r"
  shows "List.find (\<lambda>r. key r = k) (update_rows p f rows) =
    map_option (\<lambda>r. if p r then f r else r) (List.find (\<lambda>r. key r = k) rows)"
  using assms by (induction rows) (auto simp: update_rows_def)

lemma find_key_iff:
  "distinct (map key rows) \<Longrightarrow> List.find (\<lambda>r. key r = k) rows = Some r \<longleftrightarrow> r \<in> set rows \<and> key r = k"
  by (induction rows) (auto simp: rev_image_eqI)

lemma find_append_other:
  "key r \<noteq> k \<Longrightarrow> List.find (\<lambda>r. key r = k) (rows @ [r]) = List.find (\<lambda>r. key r = k) rows"
  by (induction rows) auto

lemma find_append_new:
  "k \<notin> key ` set rows \<Longrightarrow> key r = k \<Longrightarrow> List.find (\<lambda>r. key r = k) (rows @ [r]) = Some r"
  by (induction rows) auto

section \<open>What a database must satisfy, and what is observed of it\<close>

text \<open>The primary keys of the three tables.\<close>

definition gov_inv :: "gov_db \<Rightarrow> bool" where
  "gov_inv db \<longleftrightarrow> distinct (map ca_id (db_cases db)) \<and>
     distinct (map dr_decision_id (db_decisions db)) \<and> distinct (map rc_event_id (db_receipts db))"

definition receipt_stage_at :: "string \<Rightarrow> gov_db \<Rightarrow> string option" where
  "receipt_stage_at i db = map_option rc_stage (find_receipt i db)"

definition gov_effects :: "gov_db \<Rightarrow> case_rec list \<times> decision_rec list" where
  "gov_effects db = (db_cases db, db_decisions db)"

lemma next_call_db:
  assumes "next_call db = (n, db')"
  shows "db_cases db' = db_cases db" "db_decisions db' = db_decisions db"
    "db_receipts db' = db_receipts db"
  using assms by (auto simp: next_call_def split: list.splits)

lemma next_call_same:
  assumes "next_call db = (n, db')"
  shows "gov_inv db' = gov_inv db" "receipt_stage_at i db' = receipt_stage_at i db"
    "gov_effects db' = gov_effects db"
  using next_call_db [OF assms]
  by (simp_all add: gov_inv_def receipt_stage_at_def find_receipt_def gov_effects_def)

section \<open>The batches\<close>

text \<open>A batch result that left every row alone, or moved the receipt to \<open>projection-committed\<close>.\<close>

definition batch_ok :: "string \<Rightarrow> gov_db \<Rightarrow> (gov_db \<times> nat list) option \<Rightarrow> bool" where
  "batch_ok event_id db res =
     (case res of
        None \<Rightarrow> True
      | Some (db', cs) \<Rightarrow> gov_inv db' \<and>
          ((gov_effects db' = gov_effects db \<and> db_receipts db' = db_receipts db \<and>
            \<not> list_all (\<lambda>c. c = 1) cs) \<or>
           receipt_stage_at event_id db' = Some ''projection-committed''))"

lemma receipt_stmt_commits:
  assumes "gov_inv db" "db_changes db = 1" "receipt_stage_at i db = Some raw"
  shows "\<exists>db'. projection_receipt_stmt now did i db = Some db' \<and> gov_inv db' \<and> db_changes db' = 1 \<and>
     receipt_stage_at i db' = Some ''projection-committed''"
proof -
  let ?p = "\<lambda>r. rc_event_id r = i \<and> db_changes db = 1"
  have ex: "list_ex ?p (db_receipts db)"
    using assms by (auto simp: receipt_stage_at_def find_receipt_def list_ex_iff dest: find_Some_mem)
  have "distinct (map rc_event_id (db_receipts db))" using assms(1) by (simp add: gov_inv_def)
  then have "count_rows ?p (db_receipts db) = 1"
    using ex by (subst count_rows_cases [where k = i and key = rc_event_id]) auto
  moreover obtain r where "List.find (\<lambda>r. rc_event_id r = i) (db_receipts db) = Some r"
    using assms(3) by (auto simp: receipt_stage_at_def find_receipt_def)
  moreover from this have "rc_event_id r = i" by (auto dest: find_Some_mem)
  ultimately show ?thesis
    using assms(1,2)
    by (simp add: projection_receipt_stmt_def update_receipts_def gov_inv_def receipt_stage_at_def
        find_receipt_def find_update_rows)
qed

lemma receipt_tail_ok:
  assumes "gov_inv db2" "db_changes db2 = 1" "receipt_stage_at i db2 = Some raw"
  shows "batch_ok i db (Option.bind (projection_receipt_stmt now did i db2) (\<lambda>y. Some (y, cs y)))"
  using receipt_stmt_commits [OF assms, of now did] by (auto simp: batch_ok_def)

lemma stmts_unchanged:
  assumes "db_changes db = 0"
  shows "projection_case_stmt st who now i db = Some db"
    "projection_receipt_stmt now did i db = Some db"
    "supersession_mark_stmt c db = Some db" "supersession_case_stmt c db = Some db"
  using assms
  by (simp_all add: projection_case_stmt_def projection_receipt_stmt_def supersession_mark_stmt_def
      supersession_case_stmt_def update_cases_def update_receipts_def update_decisions_def)

lemma update_cases_inv:
  "update_cases p f db = Some db' \<Longrightarrow> (\<And>r. ca_id (f r) = ca_id r) \<Longrightarrow> gov_inv db \<Longrightarrow>
   gov_inv db' \<and> db_receipts db' = db_receipts db \<and> db_decisions db' = db_decisions db"
  by (auto simp: update_cases_def gov_inv_def)

lemma batch_ok_zero:
  "gov_inv db \<Longrightarrow> batch_ok i db (Some (db\<lparr>db_changes := 0\<rparr>, 0 # cs))"
  by (simp add: batch_ok_def gov_inv_def gov_effects_def)

lemma run_projection_ok:
  assumes "gov_inv db" "receipt_stage_at (pc_event_id c) db = Some raw"
  shows "batch_ok (pc_event_id c) db (run_stmts
     [projection_decision_stmt c,
      projection_case_stmt (pc_new_state c) (pc_broker_pubkey c) (pc_decided_at c) (pc_case_id c),
      projection_receipt_stmt (pc_decided_at c) (Some (pc_decision_id c)) (pc_event_id c)] db)"
proof (cases "projection_decision_stmt c db")
  case None
  then show ?thesis by (simp add: batch_ok_def)
next
  case (Some db1)
  show ?thesis
  proof (cases "db_changes db1 = 0")
    case True
    then have "db1 = db\<lparr>db_changes := 0\<rparr>"
      using Some by (auto simp: projection_decision_stmt_def insert_decision_def split: if_splits)
    then show ?thesis
      using batch_ok_zero [OF assms(1)] True by (simp add: Some stmts_unchanged)
  next
    case False
    then have d1: "db_cases db1 = db_cases db" "db_receipts db1 = db_receipts db" "db_changes db1 = 1"
      and inv1: "gov_inv db1"
      and ex: "\<exists>r \<in> set (db_cases db). ca_id r = pc_case_id c"
      using Some assms(1)
      by (auto simp: projection_decision_stmt_def insert_decision_def gov_inv_def list_ex_iff
          split: if_splits)
    let ?p = "\<lambda>r. ca_id r = pc_case_id c \<and> db_changes db1 = 1"
    obtain db2 where c2: "projection_case_stmt (pc_new_state c) (pc_broker_pubkey c)
        (pc_decided_at c) (pc_case_id c) db1 = Some db2"
      by (simp add: projection_case_stmt_def update_cases_def)
    have "db_changes db2 = count_rows ?p (db_cases db1)"
      using c2 by (auto simp: projection_case_stmt_def update_cases_def)
    also have "\<dots> = 1"
      using inv1 ex d1
      by (subst count_rows_cases [where k = "pc_case_id c" and key = ca_id])
         (auto simp: gov_inv_def list_ex_iff)
    finally have ch2: "db_changes db2 = 1" .
    have inv2: "gov_inv db2" and r2: "db_receipts db2 = db_receipts db1"
      using update_cases_inv [OF c2 [unfolded projection_case_stmt_def] _ inv1] by simp_all
    have "receipt_stage_at (pc_event_id c) db2 = Some raw"
      using assms(2) r2 d1 by (simp add: receipt_stage_at_def find_receipt_def)
    from receipt_tail_ok [OF inv2 ch2 this] show ?thesis
      by (simp add: Some c2)
  qed
qed

lemma run_supersession_ok:
  assumes "gov_inv db" "receipt_stage_at (su_event_id c) db = Some raw"
  shows "batch_ok (su_event_id c) db (run_stmts
     [supersession_decision_stmt c, supersession_mark_stmt c, supersession_case_stmt c,
      projection_receipt_stmt (su_decided_at c) (Some (su_decision_id c)) (su_event_id c)] db)"
proof (cases "supersession_decision_stmt c db")
  case None
  then show ?thesis by (simp add: batch_ok_def)
next
  case (Some db1)
  show ?thesis
  proof (cases "db_changes db1 = 0")
    case True
    then have "db1 = db\<lparr>db_changes := 0\<rparr>"
      using Some by (auto simp: supersession_decision_stmt_def insert_decision_def split: if_splits)
    then show ?thesis
      using batch_ok_zero [OF assms(1)] True by (simp add: Some stmts_unchanged)
  next
    case False
    then have d1: "db_cases db1 = db_cases db" "db_receipts db1 = db_receipts db" "db_changes db1 = 1"
      and inv1: "gov_inv db1"
      and ex: "\<exists>r \<in> set (db_cases db). ca_id r = su_case_id c"
      and old: "\<exists>d \<in> set (db_decisions db1). dr_decision_id d = su_superseded_decision_id c \<and>
                  dr_superseded_by d = None"
      using Some assms(1)
      by (auto simp: supersession_decision_stmt_def insert_decision_def gov_inv_def list_ex_iff
          split: if_splits)
    let ?m = "\<lambda>d. dr_decision_id d = su_superseded_decision_id c \<and> dr_superseded_by d = None \<and>
                 db_changes db1 = 1"
    obtain db2 where c2: "supersession_mark_stmt c db1 = Some db2"
      by (simp add: supersession_mark_stmt_def update_decisions_def)
    have "db_changes db2 = count_rows ?m (db_decisions db1)"
      using c2 by (auto simp: supersession_mark_stmt_def update_decisions_def)
    also have "\<dots> = 1"
      using inv1 old d1
      by (subst count_rows_cases [where k = "su_superseded_decision_id c" and key = dr_decision_id])
         (auto simp: gov_inv_def list_ex_iff)
    finally have ch2: "db_changes db2 = 1" .
    have inv2: "gov_inv db2" "db_receipts db2 = db_receipts db1" "db_cases db2 = db_cases db1"
      using c2 inv1 by (auto simp: supersession_mark_stmt_def update_decisions_def gov_inv_def)
    let ?p = "\<lambda>r. ca_id r = su_case_id c \<and> db_changes db2 = 1"
    obtain db3 where c3: "supersession_case_stmt c db2 = Some db3"
      by (simp add: supersession_case_stmt_def update_cases_def)
    have "db_changes db3 = count_rows ?p (db_cases db2)"
      using c3 by (auto simp: supersession_case_stmt_def update_cases_def)
    also have "\<dots> = 1"
      using inv2 ex d1 ch2
      by (subst count_rows_cases [where k = "su_case_id c" and key = ca_id])
         (auto simp: gov_inv_def list_ex_iff)
    finally have ch3: "db_changes db3 = 1" .
    have inv3: "gov_inv db3" and r3: "db_receipts db3 = db_receipts db2"
      using update_cases_inv [OF c3 [unfolded supersession_case_stmt_def] _ inv2(1)] by simp_all
    have "receipt_stage_at (su_event_id c) db3 = Some raw"
      using assms(2) r3 inv2 d1 by (simp add: receipt_stage_at_def find_receipt_def)
    from receipt_tail_ok [OF inv3 ch3 this] show ?thesis
      by (simp add: Some c2 c3)
  qed
qed

lemma run_appeal_ok:
  assumes "gov_inv db" "receipt_stage_at (ap_event_id c) db = Some raw"
  shows "batch_ok (ap_event_id c) db (run_stmts
     [appeal_reopen_stmt c, projection_receipt_stmt (ap_at c) None (ap_event_id c)] db)"
proof -
  let ?p = "\<lambda>r. ca_id r = ap_case_id c \<and>
          ascii_lower (ca_created_by r) = ascii_lower (ap_appellant c) \<and>
          ca_state r \<in> set appealable_states \<and>
          list_ex (\<lambda>d. dr_decision_id d = ap_cited_decision_id c \<and> dr_case_id d = ap_case_id c)
            (db_decisions db)"
  obtain db1 where c1: "appeal_reopen_stmt c db = Some db1"
    by (simp add: appeal_reopen_stmt_def update_cases_def)
  have ch: "db_changes db1 = count_rows ?p (db_cases db)"
    using c1 by (auto simp: appeal_reopen_stmt_def update_cases_def)
  have "distinct (map ca_id (db_cases db))" using assms(1) by (simp add: gov_inv_def)
  then have n: "count_rows ?p (db_cases db) = (if list_ex ?p (db_cases db) then 1 else 0)"
    by (rule count_rows_cases [where k = "ap_case_id c"]) simp
  have inv1: "gov_inv db1" and r1: "db_receipts db1 = db_receipts db"
    using update_cases_inv [OF c1 [unfolded appeal_reopen_stmt_def] _ assms(1)] by simp_all
  have st: "receipt_stage_at (ap_event_id c) db1 = Some raw"
    using assms(2) r1 by (simp add: receipt_stage_at_def find_receipt_def)
  show ?thesis
  proof (cases "list_ex ?p (db_cases db)")
    case True
    then have "db_changes db1 = 1" using ch n by simp
    from receipt_tail_ok [OF inv1 this st] show ?thesis by (simp add: c1)
  next
    case False
    then have z: "db_changes db1 = 0" using ch n by simp
    have "db1 = db\<lparr>db_changes := 0\<rparr>"
      using c1 z update_rows_none [OF False] by (auto simp: appeal_reopen_stmt_def update_cases_def)
    then show ?thesis
      using batch_ok_zero [OF assms(1)] z by (simp add: c1 stmts_unchanged)
  qed
qed

section \<open>The laws\<close>

lemma run_batch_ok:
  assumes "gov_inv db" "receipt_stage_at i db = Some raw"
    and "\<And>db. gov_inv db \<Longrightarrow> receipt_stage_at i db = Some raw \<Longrightarrow> batch_ok i db (run_stmts ss db)"
    and "run_batch ss db = (db', r)"
  shows "gov_inv db' \<and> ((gov_effects db' = gov_effects db \<and> r \<noteq> Inr ()) \<or>
           receipt_stage_at i db' = Some ''projection-committed'')"
proof -
  obtain n db1 where n: "next_call db = (n, db1)" by fastforce
  note same = next_call_same [OF n]
  have ok: "batch_ok i db1 (run_stmts ss db1)"
    using assms(1,2) same by (intro assms(3)) simp_all
  show ?thesis
    using assms(1,4) ok same
    by (cases n) (auto simp: run_batch_def n batch_ok_def split: option.splits if_splits)
qed

lemma store_commit_ok:
  assumes "gov_inv db" "receipt_stage_at (commit_event_id c) db = Some raw"
    and "store_commit d1_store c db = (db', r)"
  shows "gov_inv db' \<and> ((gov_effects db' = gov_effects db \<and> r \<noteq> Inr ()) \<or>
           receipt_stage_at (commit_event_id c) db' = Some ''projection-committed'')"
proof (cases c)
  case (Response p)
  have run: "commit_projection p db = (db', r)"
    using assms(3) by (simp add: Response store_commit_def d1_store_def)
  show ?thesis
    unfolding Response commit_event_id.simps
    by (rule run_batch_ok [OF assms(1) assms(2) [unfolded Response commit_event_id.simps]
          run_projection_ok run [unfolded commit_projection_def]])
next
  case (Supersession p)
  have run: "commit_supersession p db = (db', r)"
    using assms(3) by (simp add: Supersession store_commit_def d1_store_def)
  show ?thesis
    unfolding Supersession commit_event_id.simps
    by (rule run_batch_ok [OF assms(1) assms(2) [unfolded Supersession commit_event_id.simps]
          run_supersession_ok run [unfolded commit_supersession_def]])
next
  case (Appeal p)
  have run: "commit_appeal p db = (db', r)"
    using assms(3) by (simp add: Appeal store_commit_def d1_store_def)
  show ?thesis
    unfolding Appeal commit_event_id.simps
    by (rule run_batch_ok [OF assms(1) assms(2) [unfolded Appeal commit_event_id.simps]
          run_appeal_ok run [unfolded commit_appeal_def]])
qed

lemma insert_receipt_facts:
  assumes "gov_inv db"
  shows "gov_inv (insert_receipt r db)" "gov_effects (insert_receipt r db) = gov_effects db"
    "receipt_stage_at i db = Some raw \<Longrightarrow> receipt_stage_at i (insert_receipt r db) = Some raw"
    "db_changes (insert_receipt r db) > 0 \<Longrightarrow>
       receipt_stage_at (rc_event_id r) db = None \<and>
       receipt_stage_at (rc_event_id r) (insert_receipt r db) = Some (rc_stage r)"
proof -
  show "gov_inv (insert_receipt r db)" "gov_effects (insert_receipt r db) = gov_effects db"
    using assms by (auto simp: insert_receipt_def gov_inv_def gov_effects_def)
  have "List.find P (xs @ [r]) = Some y" if "List.find P xs = Some y" for P and xs and y :: receipt_rec
    using that by (induction xs) (auto split: if_splits)
  then show "receipt_stage_at i db = Some raw \<Longrightarrow> receipt_stage_at i (insert_receipt r db) = Some raw"
    by (auto simp: insert_receipt_def receipt_stage_at_def find_receipt_def)
  show "db_changes (insert_receipt r db) > 0 \<Longrightarrow>
       receipt_stage_at (rc_event_id r) db = None \<and>
       receipt_stage_at (rc_event_id r) (insert_receipt r db) = Some (rc_stage r)"
    by (auto simp: insert_receipt_def receipt_stage_at_def find_receipt_def find_None_iff_ball
        find_append_new image_iff split: if_splits)
qed

lemma update_receipts_facts:
  assumes "gov_inv db" "\<And>r. rc_event_id (f r) = rc_event_id r"
  shows "gov_inv (db\<lparr>db_receipts := update_rows p f (db_receipts db), db_changes := n\<rparr>)"
    "gov_effects (db\<lparr>db_receipts := update_rows p f (db_receipts db), db_changes := n\<rparr>) = gov_effects db"
    "receipt_stage_at i (db\<lparr>db_receipts := update_rows p f (db_receipts db), db_changes := n\<rparr>) =
       map_option (\<lambda>r. rc_stage (if p r then f r else r)) (find_receipt i db)"
  using assms
  by (simp_all add: gov_inv_def gov_effects_def receipt_stage_at_def find_receipt_def
      find_update_rows option.map_comp o_def)

lemma bump_replays_facts:
  assumes "gov_inv db"
  shows "gov_inv (bump_replays i db)" "gov_effects (bump_replays i db) = gov_effects db"
    "receipt_stage_at j (bump_replays i db) = receipt_stage_at j db"
proof -
  note u = update_receipts_facts [OF assms, of "\<lambda>r. r\<lparr>rc_replays := rc_replays r + 1\<rparr>"]
  show "gov_inv (bump_replays i db)" "gov_effects (bump_replays i db) = gov_effects db"
    unfolding bump_replays_def by (rule u; simp)+
  show "receipt_stage_at j (bump_replays i db) = receipt_stage_at j db"
    unfolding bump_replays_def
    by (subst u(3)) (simp, cases "find_receipt j db", simp_all add: receipt_stage_at_def)
qed

lemma mark_facts:
  assumes "gov_inv db"
  shows "gov_inv (fst (mark_projection_failed i e n db))"
    "gov_effects (fst (mark_projection_failed i e n db)) = gov_effects db"
    "receipt_stage_at j db = Some ''projection-committed'' \<Longrightarrow>
     receipt_stage_at j (fst (mark_projection_failed i e n db)) = Some ''projection-committed''"
proof -
  obtain m db1 where m: "next_call db = (m, db1)" by fastforce
  note same = next_call_same [OF m]
  have i1: "gov_inv db1" using assms same by simp
  note u = update_receipts_facts [OF i1, of "\<lambda>r. r\<lparr>rc_stage := stage_as_str ProjectionFailed,
       rc_stage_error := Some e, rc_accepted_at := (case rc_accepted_at r of Some t \<Rightarrow> Some t | None \<Rightarrow> Some n)\<rparr>"]
  show "gov_inv (fst (mark_projection_failed i e n db))"
    "gov_effects (fst (mark_projection_failed i e n db)) = gov_effects db"
    using i1 same u by (cases m; simp add: mark_projection_failed_def m Let_def)+
  show "receipt_stage_at j (fst (mark_projection_failed i e n db)) = Some ''projection-committed''"
    if "receipt_stage_at j db = Some ''projection-committed''"
  proof -
    have "receipt_stage_at j db1 = Some ''projection-committed''" using that same by simp
    then obtain r where "find_receipt j db1 = Some r" "rc_stage r = ''projection-committed''"
      by (auto simp: receipt_stage_at_def)
    then show ?thesis
      using u(3) by (cases m) (simp_all add: mark_projection_failed_def m Let_def receipt_stage_at_def)
  qed
qed

text \<open>What recording an acceptance leaves, and what it reports.\<close>

lemma record_accepted_facts:
  assumes "gov_inv db" "record_accepted co n db = (db', r)"
  shows "gov_inv db' \<and> gov_effects db' = gov_effects db \<and>
     (\<forall>i raw. receipt_stage_at i db = Some raw \<longrightarrow> receipt_stage_at i db' = Some raw) \<and>
     (r = Inr Fresh \<longrightarrow> receipt_stage_at (co_event_id co) db = None \<and>
        receipt_stage_at (co_event_id co) db' = Some ''relay-accepted'') \<and>
     (\<forall>st k. r = Inr (Replay st k) \<longrightarrow>
        (\<exists>raw. receipt_stage_at (co_event_id co) db' = Some raw \<and> stage_parse raw = Some st))"
proof -
  obtain m db1 where m: "next_call db = (m, db1)" by fastforce
  note s1 = next_call_same [OF m]
  show ?thesis
  proof (cases "m = RequestLost")
    case True
    then show ?thesis using assms s1 by (auto simp: record_accepted_def m)
  next
    case False
    define db2 where "db2 = insert_receipt (new_receipt co n) db1"
    have ev: "rc_event_id (new_receipt co n) = co_event_id co" "rc_stage (new_receipt co n) = ''relay-accepted''"
      by (simp_all add: new_receipt_def)
    have i1: "gov_inv db1" using assms(1) s1 by simp
    note ins = insert_receipt_facts [OF i1, where r = "new_receipt co n", folded db2_def, unfolded ev]
    show ?thesis
    proof (cases "m = ReplyLost \<or> db_changes db2 > 0")
      case True
      then have "db' = db2 \<and> (r = Inl CallFailed \<or> r = Inr Fresh \<and> db_changes db2 > 0)"
        using assms(2) False by (cases m) (auto simp: record_accepted_def m Let_def db2_def)
      then show ?thesis using ins s1 by auto
    next
      case nofresh: False
      obtain m' db3 where m': "next_call db2 = (m', db3)" by fastforce
      note s3 = next_call_same [OF m']
      show ?thesis
      proof (cases "m' = RequestLost")
        case True
        then have "db' = db3" "r = Inl CallFailed"
          using assms(2) False nofresh m'
          by (cases m; simp add: record_accepted_def m Let_def db2_def [symmetric])+
        then show ?thesis using ins s1 s3 by auto
      next
        case sent: False
        define db4 where "db4 = bump_replays (co_event_id co) db3"
        have i3: "gov_inv db3" using ins s3 by simp
        note bump = bump_replays_facts [OF i3, where i = "co_event_id co", folded db4_def]
        have "db' = db4 \<and> r \<noteq> Inr Fresh \<and> (\<forall>st k. r = Inr (Replay st k) \<longrightarrow>
            (\<exists>raw. receipt_stage_at (co_event_id co) db4 = Some raw \<and> stage_parse raw = Some st))"
          using assms(2) False nofresh sent m'
          by (cases m; cases m')
             (auto simp: record_accepted_def m Let_def db2_def [symmetric] db4_def [symmetric]
               receipt_stage_at_def split: option.splits)
        then show ?thesis
          using bump ins s1 s3 by auto
      qed
    qed
  qed
qed

interpretation d1: receipt_store d1_store gov_inv receipt_stage_at gov_effects
proof unfold_locales
  fix s s' :: gov_db and co n st k raw i c r e
  show "gov_inv s \<Longrightarrow> gov_inv (fst (so_record_accepted d1_store co n s))"
    and "gov_inv s \<Longrightarrow> gov_effects (fst (so_record_accepted d1_store co n s)) = gov_effects s"
    and "gov_inv s \<Longrightarrow> receipt_stage_at i s = Some raw \<Longrightarrow>
      receipt_stage_at i (fst (so_record_accepted d1_store co n s)) = Some raw"
    using record_accepted_facts [of s co n] by (cases "record_accepted co n s"; simp add: d1_store_def)+
  show "gov_inv s \<Longrightarrow> so_record_accepted d1_store co n s = (s', Inr Fresh) \<Longrightarrow>
      receipt_stage_at (co_event_id co) s = None \<and> receipt_stage_at (co_event_id co) s' = Some ''relay-accepted''"
    and "gov_inv s \<Longrightarrow> so_record_accepted d1_store co n s = (s', Inr (Replay st k)) \<Longrightarrow>
      \<exists>raw. receipt_stage_at (co_event_id co) s' = Some raw \<and> stage_parse raw = Some st"
    using record_accepted_facts [of s co n s'] by (simp_all add: d1_store_def)
  show "gov_inv s \<Longrightarrow> receipt_stage_at (commit_event_id c) s = Some raw \<Longrightarrow>
      gov_inv (fst (store_commit d1_store c s))"
    using store_commit_ok [of s c raw] by (cases "store_commit d1_store c s") simp
  show "gov_inv s \<Longrightarrow> receipt_stage_at (commit_event_id c) s = Some raw \<Longrightarrow>
      store_commit d1_store c s = (s', r) \<Longrightarrow>
      (gov_effects s' = gov_effects s \<and> r \<noteq> Inr ()) \<or>
      receipt_stage_at (commit_event_id c) s' = Some ''projection-committed''"
    using store_commit_ok [of s c raw s' r] by simp
  show "gov_inv s \<Longrightarrow> gov_inv (fst (so_mark_projection_failed d1_store i e n s))"
    and "gov_inv s \<Longrightarrow> gov_effects (fst (so_mark_projection_failed d1_store i e n s)) = gov_effects s"
    and "gov_inv s \<Longrightarrow> receipt_stage_at i s = Some ''projection-committed'' \<Longrightarrow>
      receipt_stage_at i (fst (so_mark_projection_failed d1_store i e n s)) = Some ''projection-committed''"
    using mark_facts [where db = s and i = i and e = e and n = n] by (simp_all add: d1_store_def)
qed

end
