(* ===== verification/Projection.thy ===== *)
theory Projection
  imports Receipt_Store
begin

text \<open>
  The governance projections of \<open>nip_handlers.rs\<close> (\<open>project_action_request\<close>,
  \<open>project_action_response\<close>, \<open>project_supersession\<close>, \<open>project_appeal\<close>) and the application
  receipts of \<open>nostr-bbs-auth-worker/src/governance_api.rs\<close>, over the tables of
  \<open>Receipts\<close>. The wall clock, the resolved panel tags, the advertised tier, the selection key and
  the governance rank of a key are arguments.
\<close>

section \<open>Projecting a request\<close>

text \<open>\<open>CASE_UPSERT_SQL\<close>, \<open>x\<close> being the row \<open>excluded\<close>.\<close>

definition upsert_updates :: "gov_db \<Rightarrow> case_rec \<Rightarrow> case_rec \<Rightarrow> bool" where
  "upsert_updates db x r \<longleftrightarrow>
     ca_created_by r = ca_created_by x \<and> ca_state r \<in> {''open'', ''under_review'', ''reopened''} \<and>
     (case (ca_nostr_event_id r, ca_nostr_event_id x) of
        (Some a, Some b) \<Rightarrow> a \<noteq> b \<and>
          ca_updated_at x > (case db_event_times db a of Some t \<Rightarrow> t | None \<Rightarrow> 0)
      | _ \<Rightarrow> False)"

definition upsert_row :: "case_rec \<Rightarrow> case_rec \<Rightarrow> case_rec" where
  "upsert_row x r =
     r\<lparr>ca_category := ca_category x, ca_subject_kind := ca_subject_kind x,
       ca_subject_id := ca_subject_id x, ca_title := ca_title x, ca_summary := ca_summary x,
       ca_priority := ca_priority x, ca_nostr_event_id := ca_nostr_event_id x,
       ca_updated_at := ca_updated_at x, ca_declared_tier := ca_declared_tier x,
       ca_effective_tier := ca_effective_tier x, ca_tp := ca_tp x,
       ca_max_pending_hours := ca_max_pending_hours x, ca_stale_after := ca_stale_after x\<rparr>"

definition upsert_case :: "case_rec \<Rightarrow> gov_db \<Rightarrow> gov_db" where
  "upsert_case x db =
     (if ca_id x \<notin> ca_id ` set (db_cases db)
      then db\<lparr>db_cases := db_cases db @ [x], db_changes := 1\<rparr>
      else (let p = (\<lambda>r. ca_id r = ca_id x \<and> upsert_updates db x r) in
            db\<lparr>db_cases := update_rows p (upsert_row x) (db_cases db),
               db_changes := count_rows p (db_cases db)\<rparr>))"

definition opt_default :: "'a \<Rightarrow> 'a option \<Rightarrow> 'a" where
  "opt_default d x = (case x of Some v \<Rightarrow> v | None \<Rightarrow> d)"

definition request_row :: "nostr_event \<Rightarrow> request_boundary \<Rightarrow> case_rec" where
  "request_row e b =
     \<lparr>ca_id = opt_default (ev_id e) (extract_d_tag (ev_tags e)),
      ca_category = opt_default ''manual_submission'' (extract_tag (ev_tags e) ''category''),
      ca_state = ''open'', ca_from_share_state = None, ca_to_share_state = None,
      ca_created_by = ev_pubkey e, ca_assigned_to = None, ca_nostr_event_id = Some (ev_id e),
      ca_created_at = ev_created_at e, ca_updated_at = ev_created_at e,
      ca_declared_tier = map_option tier_as_str (rb_declared b),
      ca_effective_tier = Some (tier_as_str (rb_effective b)),
      ca_tp = map_option (\<lambda>p. (verif_as_str (tp_verifiability p), revers_as_str (tp_reversibility p),
                stakes_as_str (tp_stakes p))) (rb_props b),
      ca_calibration_sample = rb_calibration_sample b, ca_probe_digest = rb_probe_digest b,
      ca_max_pending_hours = rb_max_pending_hours b, ca_stale_after = rb_stale_after b,
      ca_subject_kind = opt_default ''opaque'' (extract_tag (ev_tags e) ''subject-kind''),
      ca_subject_id = opt_default [] (extract_tag (ev_tags e) ''subject-id''),
      ca_title = opt_default ''Untitled'' (extract_tag (ev_tags e) ''title''),
      ca_summary = ev_content e,
      ca_priority = opt_default 50 (Option.bind (extract_tag (ev_tags e) ''priority'') parse_u32)\<rparr>"

definition project_action_request ::
  "host \<Rightarrow> tag list option \<Rightarrow> risk_tier \<Rightarrow> string \<Rightarrow> nostr_event \<Rightarrow> gov_db \<Rightarrow> gov_db outcome"
where
  "project_action_request h panel_tags advertised key e db =
     (case plan_request_boundary h (opt_default (ev_id e) (extract_d_tag (ev_tags e))) (ev_pubkey e)
             (ev_tags e) (ev_content e) panel_tags advertised key of
        Panics \<Rightarrow> Panics
      | Returns b \<Rightarrow>
          (case next_call db of
             (RequestLost, db1) \<Rightarrow> Returns db1
           | (_, db1) \<Rightarrow> Returns (upsert_case (request_row e b) db1)))"

section \<open>Projecting a response\<close>

text \<open>A read gives nothing when its call is lost either way.\<close>

definition read_ok :: "gov_db \<Rightarrow> bool \<times> gov_db" where
  "read_ok db = (case next_call db of (n, db') \<Rightarrow> (n = Delivered, db'))"

definition committed_replay ::
  "correlation \<Rightarrow> nat \<Rightarrow> gov_db \<Rightarrow> gov_db \<times> receipt_outcome option"
where
  "committed_replay co now db =
     (case read_ok db of
        (False, db1) \<Rightarrow> (db1, Some (NotRecorded CallFailed))
      | (True, db1) \<Rightarrow>
          if receipt_stage_at (co_event_id co) db1 = Some ''projection-committed'' then
            (case record_accepted co now db1 of
               (db2, Inr (Replay _ n)) \<Rightarrow> (db2, Some (DuplicateIgnored n))
             | (db2, Inr Fresh) \<Rightarrow> (db2, Some (NotRecorded ReceiptVanished))
             | (db2, Inl err) \<Rightarrow> (db2, Some (NotRecorded err)))
          else (db1, None))"

definition refuse_projection ::
  "correlation \<Rightarrow> failure \<Rightarrow> nat \<Rightarrow> gov_db \<Rightarrow> gov_db \<times> receipt_outcome"
where
  "refuse_projection co why now db =
     (let db1 = fst (record_accepted co now db) in
      (fst (mark_projection_failed (co_event_id co) why now db1), NotProjected why))"

definition response_commit ::
  "nostr_event \<Rightarrow> correlation \<Rightarrow> broker_case_row option \<Rightarrow> response_projection \<Rightarrow> projection_commit"
where
  "response_commit e co row p =
     \<lparr>pc_event_id = ev_id e, pc_case_id = co_case_id co,
      pc_request_event_id = opt_default [] (Option.bind row bcr_nostr_event_id),
      pc_expected_state = opt_default [] (map_option bcr_state row),
      pc_decision_id = rp_decision_id p, pc_outcome = rp_outcome p,
      pc_outcome_detail = rp_outcome_detail p, pc_prior = rp_prior_decision_id p,
      pc_reasoning = rp_reasoning p, pc_broker_pubkey = ev_pubkey e,
      pc_new_state = case_state_as_str (rp_new_state p), pc_decided_at = ev_created_at e\<rparr>"

text \<open>\<open>record_case_delegation\<close>: \<open>INSERT OR IGNORE\<close> on (case, delegate).\<close>

definition record_case_delegation ::
  "string \<Rightarrow> string \<Rightarrow> string \<Rightarrow> string \<Rightarrow> nat \<Rightarrow> gov_db \<Rightarrow> gov_db"
where
  "record_case_delegation case_id delegate delegated_by decision_id now db =
     (case next_call db of
        (RequestLost, db1) \<Rightarrow> db1
      | (_, db1) \<Rightarrow>
          (let r = \<lparr>dg_case_id = case_id, dg_delegate = ascii_lower delegate,
                    dg_delegated_by = delegated_by, dg_decision_id = decision_id,
                    dg_delegated_at = now\<rparr> in
           if list_ex (\<lambda>d. dg_case_id d = case_id \<and> dg_delegate d = ascii_lower delegate)
                (db_delegations db1)
           then db1\<lparr>db_changes := 0\<rparr>
           else db1\<lparr>db_delegations := db_delegations db1 @ [r], db_changes := 1\<rparr>))"

text \<open>The second half of \<open>project_action_response\<close>: the plan, its commit and, only when that
  was applied, the delegation it opens.\<close>

definition open_delegation ::
  "correlation \<Rightarrow> nostr_event \<Rightarrow> response_projection \<Rightarrow> gov_db \<Rightarrow> gov_db"
where
  "open_delegation co e proj db =
     (case (if rp_outcome proj = ''delegate'' then rp_outcome_detail proj else None) of
        Some delegate \<Rightarrow>
          if \<not> is_blank delegate
          then record_case_delegation (co_case_id co) delegate (ev_pubkey e)
                 (rp_decision_id proj) (ev_created_at e) db
          else db
      | None \<Rightarrow> db)"

definition route_response ::
  "host \<Rightarrow> nat \<Rightarrow> nostr_event \<Rightarrow> correlation \<Rightarrow> broker_case_row option \<Rightarrow> string option \<Rightarrow> gov_db \<Rightarrow>
   (gov_db \<times> receipt_outcome) outcome"
where
  "route_response h now e co row latest db =
     (case plan_action_response h (co_case_id co) row (ev_id e) (ev_content e) (ev_pubkey e) latest
             (ev_created_at e) of
        Panics \<Rightarrow> Panics
      | Returns (Inl err) \<Rightarrow> Returns (refuse_projection co (PlanFailure err) now db)
      | Returns (Inr proj) \<Rightarrow>
          (case apply_with_receipt d1_store co (Response (response_commit e co row proj)) now db of
             (db', res) \<Rightarrow>
               Returns (if outcome_is_applied res then open_delegation co e proj db' else db', res)))"

definition project_action_response ::
  "host \<Rightarrow> nat \<Rightarrow> nostr_event \<Rightarrow> gov_db \<Rightarrow> (gov_db \<times> receipt_outcome) outcome"
where
  "project_action_response h now e db =
     (case correlate h e of
        None \<Rightarrow> Returns (db, Uncorrelated)
      | Some co \<Rightarrow>
          (case committed_replay co now db of
             (db1, Some res) \<Rightarrow> Returns (db1, res)
           | (db1, None) \<Rightarrow>
               (let (ok1, db2) = read_ok db1;
                    row = (if ok1 then select_case_row (co_case_id co) db2 else None);
                    (ok2, db3) = read_ok db2;
                    latest = (if ok2 then latest_id (co_case_id co) db3 else None)
                in route_response h now e co row latest db3)))"

section \<open>Projecting a supersession and an appeal\<close>

text \<open>The rank of a key: at least admin for a relay admin, else the highest of its granted roles.\<close>

definition governance_rank :: "bool \<Rightarrow> string list \<Rightarrow> nat" where
  "governance_rank is_admin roles =
     fold (\<lambda>role rank. max rank (governance_role_rank role)) roles
       (if is_admin then max 0 (governance_role_rank ''admin'') else 0)"

definition load_superseded_decision ::
  "string \<Rightarrow> gov_db \<Rightarrow> (gov_db \<times> superseded_decision_row option) outcome"
where
  "load_superseded_decision superseded_event_id db =
     (case decision_id_for_event superseded_event_id of
        Panics \<Rightarrow> Panics
      | Returns did \<Rightarrow>
          (case read_ok db of
             (False, db1) \<Rightarrow> Returns (db1, None)
           | (True, db1) \<Rightarrow> Returns (db1,
               map_option (\<lambda>d. \<lparr>sd_broker_pubkey = dr_broker_pubkey d, sd_case_id = dr_case_id d,
                                sd_superseded_by = dr_superseded_by d\<rparr>) (find_decision did db1))))"

definition supersession_authorised ::
  "(string \<Rightarrow> nat) \<Rightarrow> string \<Rightarrow> string \<Rightarrow> string \<Rightarrow> string \<Rightarrow> gov_db \<Rightarrow>
   (gov_db \<times> (supersession_refusal + unit)) outcome"
where
  "supersession_authorised rank superseder event_id case_id superseded_event_id db =
     (case load_superseded_decision superseded_event_id db of
        Panics \<Rightarrow> Panics
      | Returns (db1, target) \<Rightarrow>
          (case supersession_ingest_refusal event_id case_id target of
             Panics \<Rightarrow> Panics
           | Returns (Inl r) \<Rightarrow> Returns (db1, Inl r)
           | Returns (Inr _) \<Rightarrow>
               (case target of
                  None \<Rightarrow> Returns (db1, Inl TargetMissing)
                | Some t \<Rightarrow> Returns (db1,
                    if is_authorised (supersede_authority_of (sd_broker_pubkey t) superseder
                         (rank (sd_broker_pubkey t)) (rank superseder))
                    then Inr () else Inl RUnauthorised))))"

definition project_supersession ::
  "host \<Rightarrow> (string \<Rightarrow> nat) \<Rightarrow> nat \<Rightarrow> nostr_event \<Rightarrow> gov_db \<Rightarrow> (gov_db \<times> receipt_outcome) outcome"
where
  "project_supersession h rank now e db =
     (case (correlate h e, extract_supersedes_target (ev_tags e)) of
        (Some co, Some old_id) \<Rightarrow>
          (case committed_replay co now db of
             (db1, Some res) \<Rightarrow> Returns (db1, res)
           | (db1, None) \<Rightarrow>
               (case load_superseded_decision old_id db1 of
                  Panics \<Rightarrow> Panics
                | Returns (db2, None) \<Rightarrow> Returns (refuse_projection co
                    (Token (supersession_token SMissingSupersededDecision)) now db2)
                | Returns (db2, Some t) \<Rightarrow>
                    (let (ok, db3) = read_ok db2;
                         row = (if ok then select_case_row (co_case_id co) db3 else None);
                         ctx = \<lparr>sc_case_id = co_case_id co, sc_superseded_case_id = sd_case_id t,
                                sc_superseded_by = sd_superseded_by t, sc_case_row = row\<rparr>
                     in case plan_supersession h (ev_id e) (Some old_id) (ev_content e) (ev_pubkey e)
                               (sd_broker_pubkey t) (rank (sd_broker_pubkey t)) (rank (ev_pubkey e))
                               ctx (ev_created_at e) of
                          Panics \<Rightarrow> Panics
                        | Returns (Inl err) \<Rightarrow>
                            Returns (refuse_projection co (Token (supersession_token err)) now db3)
                        | Returns (Inr p) \<Rightarrow>
                            Returns (apply_with_receipt d1_store co (Supersession
                              \<lparr>su_event_id = ev_id e, su_case_id = co_case_id co,
                               su_superseded_event_id = old_id,
                               su_superseded_decision_id = sp_superseded_decision_id p,
                               su_expected_state = opt_default [] (map_option bcr_state row),
                               su_decision_id = sp_decision_id p, su_outcome = sp_outcome p,
                               su_outcome_detail = sp_outcome_detail p, su_reasoning = sp_reasoning p,
                               su_broker_pubkey = ev_pubkey e, su_decided_at = ev_created_at e\<rparr>)
                              now db3))))
      | _ \<Rightarrow> Returns (db, Uncorrelated))"

definition project_appeal ::
  "host \<Rightarrow> nat \<Rightarrow> nostr_event \<Rightarrow> gov_db \<Rightarrow> (gov_db \<times> receipt_outcome) outcome"
where
  "project_appeal h now e db =
     (case (correlate h e, extract_appeal_target (ev_tags e)) of
        (Some co, Some cited_id) \<Rightarrow>
          (case committed_replay co now db of
             (db1, Some res) \<Rightarrow> Returns (db1, res)
           | (db1, None) \<Rightarrow>
               (let case_id = opt_default [] (tag_value (ev_tags e) ''case'') in
                case decision_id_for_event cited_id of
                  Panics \<Rightarrow> Panics
                | Returns cited_did \<Rightarrow>
                    (let (ok1, db2) = read_ok db1;
                         row = (if ok1 then select_case_row case_id db2 else None);
                         (ok2, db3) = read_ok db2;
                         cited_case = (if ok2 then map_option dr_case_id (find_decision cited_did db3)
                                       else None)
                     in case plan_appeal (ev_pubkey e) case_id row cited_case of
                          Inl r \<Rightarrow> Returns (refuse_projection co (Token (appeal_token r)) now db3)
                        | Inr _ \<Rightarrow> Returns (apply_with_receipt d1_store co (Appeal
                            \<lparr>ap_event_id = ev_id e, ap_case_id = case_id, ap_appellant = ev_pubkey e,
                             ap_cited_event_id = cited_id, ap_cited_decision_id = cited_did,
                             ap_at = ev_created_at e\<rparr>) now db3))))
      | _ \<Rightarrow> Returns (db, Uncorrelated))"

section \<open>Application receipts\<close>

datatype application_refusal = UnknownApplicationStage | NotAuthorised | NotTheCaseOwner
  | ManualRequiresAdmin | ManualRequiresApprovedCase | AdvanceRefused stage_advance_error

fun application_status :: "application_refusal \<Rightarrow> nat" where
  "application_status UnknownApplicationStage = 400"
| "application_status NotAuthorised = 403"
| "application_status NotTheCaseOwner = 403"
| "application_status ManualRequiresAdmin = 403"
| "application_status ManualRequiresApprovedCase = 409"
| "application_status (AdvanceRefused _) = 409"

record application_caller =
  ac_is_admin :: bool
  ac_is_registered_agent :: bool
  ac_is_case_owner :: bool

definition plan_application_advance ::
  "receipt_stage \<Rightarrow> receipt_stage \<Rightarrow> application_caller \<Rightarrow> string \<Rightarrow> string option \<Rightarrow>
   application_refusal + unit"
where
  "plan_application_advance current requested caller case_state latest_outcome =
     (if \<not> is_application_stage requested then Inl UnknownApplicationStage
      else if \<not> ac_is_admin caller \<and> \<not> ac_is_registered_agent caller then Inl NotAuthorised
      else if \<not> ac_is_admin caller \<and> \<not> ac_is_case_owner caller then Inl NotTheCaseOwner
      else if requested = AppliedManually \<and> \<not> ac_is_admin caller then Inl ManualRequiresAdmin
      else if requested = AppliedManually \<and>
              (case_state \<notin> {''decided'', ''resolved''} \<or> latest_outcome \<noteq> Some ''approve'')
      then Inl ManualRequiresApprovedCase
      else case can_advance_stage current requested of
        Inl e \<Rightarrow> Inl (AdvanceRefused e)
      | Inr _ \<Rightarrow> Inr ())"

text \<open>
  \<open>handle_receipt_application\<close> once the caller is authenticated: the HTTP status and the database.
  \<open>registered\<close> is the agent registry, \<open>admin\<close> the auth worker's admin test.
\<close>

definition report_application ::
  "(string \<Rightarrow> bool) \<Rightarrow> (string \<Rightarrow> bool) \<Rightarrow> string \<Rightarrow> string \<Rightarrow> string \<Rightarrow> string option \<Rightarrow> nat \<Rightarrow>
   gov_db \<Rightarrow> gov_db \<times> nat"
where
  "report_application admin registered caller event_id stage_text acknowledgement now db =
     (case stage_parse stage_text of
        None \<Rightarrow> (db, application_status UnknownApplicationStage)
      | Some requested \<Rightarrow>
          (case find_receipt event_id db of
             None \<Rightarrow> (db, 404)
           | Some r \<Rightarrow>
               (case stage_parse (rc_stage r) of
                  None \<Rightarrow> (db, 500)
                | Some current \<Rightarrow>
                    (let c = find_case (rc_case_id r) db;
                         who = \<lparr>ac_is_admin = admin caller, ac_is_registered_agent = registered caller,
                                ac_is_case_owner = (case c of None \<Rightarrow> False
                                  | Some x \<Rightarrow> ascii_lower (ca_created_by x) = ascii_lower caller)\<rparr>
                     in case plan_application_advance current requested who
                               (case c of Some x \<Rightarrow> ca_state x | None \<Rightarrow> [])
                               (case c of None \<Rightarrow> None
                                | Some x \<Rightarrow> map_option dr_outcome (latest_decision (ca_id x) db)) of
                          Inl refusal \<Rightarrow> (db, application_status refusal)
                        | Inr _ \<Rightarrow>
                            (let p = (\<lambda>r'. rc_event_id r' = event_id \<and> rc_stage r' = stage_as_str current);
                                 ack = (case acknowledgement of
                                          Some a \<Rightarrow> if is_blank a then None else Some a
                                        | None \<Rightarrow> None);
                                 db' = db\<lparr>db_receipts := update_rows p
                                      (\<lambda>r'. r'\<lparr>rc_stage := stage_as_str requested, rc_applied_at := Some now,
                                             rc_applied_by := Some caller, rc_acknowledgement := ack\<rparr>)
                                      (db_receipts db),
                                    db_changes := count_rows p (db_receipts db)\<rparr>
                             in (db', if db_changes db' = 0 then 409 else 200))))))"

section \<open>What the handlers leave\<close>

lemma read_ok_same:
  assumes "read_ok db = (ok, db')"
  shows "gov_inv db' = gov_inv db" "receipt_stage_at i db' = receipt_stage_at i db"
    "gov_effects db' = gov_effects db"
  using assms next_call_same unfolding read_ok_def by (auto split: prod.splits)

lemma committed_replay_facts:
  assumes "gov_inv db" "committed_replay co now db = (db', res)"
  shows "gov_inv db' \<and> gov_effects db' = gov_effects db \<and>
     (\<forall>i raw. receipt_stage_at i db = Some raw \<longrightarrow> receipt_stage_at i db' = Some raw) \<and>
     (res = None \<longrightarrow> receipt_stage_at (co_event_id co) db \<noteq> Some ''projection-committed'')"
proof -
  obtain ok db1 where r: "read_ok db = (ok, db1)" by fastforce
  obtain db2 a where a: "record_accepted co now db1 = (db2, a)" by fastforce
  note same = read_ok_same [OF r]
  have "gov_inv db1" using assms(1) same by simp
  from record_accepted_facts [OF this a] same assms show ?thesis
    by (cases ok) (auto simp: committed_replay_def r a split: if_splits sum.splits accept_outcome.splits)
qed

lemma refuse_projection_facts:
  assumes "gov_inv db"
  shows "gov_inv (fst (refuse_projection co why now db))"
    "gov_effects (fst (refuse_projection co why now db)) = gov_effects db"
proof -
  obtain db1 a where a: "record_accepted co now db = (db1, a)" by fastforce
  note f = record_accepted_facts [OF assms a]
  then have "gov_inv db1" by blast
  from mark_facts [OF this] f show "gov_inv (fst (refuse_projection co why now db))"
    "gov_effects (fst (refuse_projection co why now db)) = gov_effects db"
    by (simp_all add: refuse_projection_def a)
qed

lemma record_case_delegation_same:
  "gov_inv (record_case_delegation ci d b di t db) = gov_inv db"
  "receipt_stage_at i (record_case_delegation ci d b di t db) = receipt_stage_at i db"
  "gov_effects (record_case_delegation ci d b di t db) = gov_effects db"
proof -
  obtain n db1 where n: "next_call db = (n, db1)" by fastforce
  note same = next_call_same [OF n]
  show "gov_inv (record_case_delegation ci d b di t db) = gov_inv db"
    "receipt_stage_at i (record_case_delegation ci d b di t db) = receipt_stage_at i db"
    "gov_effects (record_case_delegation ci d b di t db) = gov_effects db"
    unfolding same [symmetric]
    by (cases n; simp add: record_case_delegation_def n Let_def gov_inv_def receipt_stage_at_def
        find_receipt_def gov_effects_def)+
qed

lemma correlate_event_id: "correlate h e = Some co \<Longrightarrow> co_event_id co = ev_id e"
  by (auto simp: correlate_def split: option.splits if_splits)

text \<open>The database after one delivery; a panicking delivery leaves what it had.\<close>

definition response_step :: "host \<Rightarrow> nostr_event \<Rightarrow> nat \<Rightarrow> gov_db \<Rightarrow> gov_db" where
  "response_step h e now db =
     (case project_action_response h now e db of Panics \<Rightarrow> db | Returns (db', _) \<Rightarrow> db')"

lemma open_delegation_same [simp]:
  "gov_inv (open_delegation co e proj db) = gov_inv db"
  "receipt_stage_at i (open_delegation co e proj db) = receipt_stage_at i db"
  "gov_effects (open_delegation co e proj db) = gov_effects db"
  by (simp_all add: open_delegation_def record_case_delegation_same split: option.split)

lemma route_response_facts:
  assumes "gov_inv db" "route_response h now e co row latest db = Returns (db', r)"
  shows "gov_inv db' \<and> (gov_effects db' = gov_effects db \<or>
      receipt_stage_at (co_event_id co) db' = Some ''projection-committed'')"
proof (cases "plan_action_response h (co_case_id co) row (ev_id e) (ev_content e) (ev_pubkey e) latest
        (ev_created_at e)")
  case Panics
  then show ?thesis using assms by (simp add: route_response_def)
next
  case (Returns pr)
  show ?thesis
  proof (cases pr)
    case (Inl err)
    then have "db' = fst (refuse_projection co (PlanFailure err) now db)"
      using assms(2) by (simp add: route_response_def Returns)
    then show ?thesis using refuse_projection_facts [OF assms(1)] by simp
  next
    case (Inr proj)
    obtain db4 out where a: "apply_with_receipt d1_store co
        (Response (response_commit e co row proj)) now db = (db4, out)" by fastforce
    have "db' = (if outcome_is_applied out then open_delegation co e proj db4 else db4)"
      using assms(2) by (simp add: route_response_def Returns Inr a split: if_splits)
    then show ?thesis using d1.apply_effects [OF assms(1) a] by simp
  qed
qed

lemma response_step_cases:
  assumes "gov_inv db"
  shows "gov_inv (response_step h e now db) \<and>
     (gov_effects (response_step h e now db) = gov_effects db \<or>
      receipt_stage_at (ev_id e) (response_step h e now db) = Some ''projection-committed'') \<and>
     (receipt_stage_at (ev_id e) db = Some ''projection-committed'' \<longrightarrow>
      gov_effects (response_step h e now db) = gov_effects db \<and>
      receipt_stage_at (ev_id e) (response_step h e now db) = Some ''projection-committed'')"
proof (cases "project_action_response h now e db")
  case Panics
  then show ?thesis using assms by (simp add: response_step_def)
next
  case (Returns dr)
  obtain db' r where p: "project_action_response h now e db = Returns (db', r)"
    using Returns by (cases dr) auto
  have step: "response_step h e now db = db'" by (simp add: response_step_def p)
  show ?thesis
  proof (cases "correlate h e")
    case None
    then have "db' = db" using p by (simp add: project_action_response_def)
    then show ?thesis using assms by (simp add: step)
  next
    case (Some co)
    obtain db1 res where c: "committed_replay co now db = (db1, res)" by fastforce
    note cf = committed_replay_facts [OF assms c] and id = correlate_event_id [OF Some]
    obtain ok1 db2 where r1: "read_ok db1 = (ok1, db2)" by fastforce
    obtain ok2 db3 where r2: "read_ok db2 = (ok2, db3)" by fastforce
    note s = read_ok_same [OF r1] read_ok_same [OF r2]
    show ?thesis
    proof (cases res)
      case (Some out)
      then have "db' = db1" using p by (simp add: project_action_response_def \<open>correlate h e = Some co\<close> c)
      then show ?thesis using cf by (simp add: step)
    next
      case None
      have "gov_inv db3" "gov_effects db3 = gov_effects db" using cf s by simp_all
      moreover have "\<exists>row latest. route_response h now e co row latest db3 = Returns (db', r)"
        using p by (simp add: project_action_response_def \<open>correlate h e = Some co\<close> c None r1 r2) blast
      ultimately show ?thesis
        using route_response_facts cf None id by (fastforce simp: step)
    qed
  qed
qed

text \<open>A case that is not open is never planned a first-order decision.\<close>

lemma plan_terminal_refused:
  assumes "h_outcome h content = Some o'" "decision_id_for_event event_id = Returns did"
    and "bcr_state row \<notin> {''open'', ''under_review'', ''reopened''}"
  shows "\<exists>err. plan_action_response h case_id (Some row) event_id content b latest now = Returns (Inl err)"
proof -
  have "plan_action_response h case_id (Some row) event_id content b latest now \<noteq> Panics"
    by (simp add: plan_action_response_def assms(1,2) Let_def split: option.split prod.split sum.split)
  moreover have "plan_action_response h case_id (Some row) event_id content b latest now \<noteq> Returns (Inr p)" for p
    using assms(3) decide_on_row [where did = did and o' = o' and b = b and now = now and n = now and
        case_id = case_id and row = row and latest = latest and
        r = "case response_reasoning h content of Some r \<Rightarrow> r | None \<Rightarrow> []"]
      case_state_parse_terminal [of "bcr_state row"]
    by (auto simp: plan_action_response_def assms(1,2) Let_def split: option.splits prod.splits sum.splits)
  ultimately show ?thesis
    by (metis outcome.exhaust sum.exhaust)
qed

section \<open>A concrete case\<close>

definition sample_host :: host where
  "sample_host = \<lparr>h_json = (\<lambda>_. None), h_outcome = (\<lambda>c. if c = ''ok'' then Some Approve else None),
     h_f32 = (\<lambda>_. None), h_position = (\<lambda>_ _. 0)\<rparr>"

definition sample_response :: nostr_event where
  "sample_response = \<lparr>ev_id = ''b1'', ev_pubkey = ''admin'', ev_created_at = 7, ev_kind = 31403,
     ev_tags = [[''d'', ''case''], [''e'', ''a1'']], ev_content = ''ok'', ev_sig = []\<rparr>"

definition sample_case :: case_rec where
  "sample_case = \<lparr>ca_id = ''case'', ca_category = ''workflow_review'', ca_state = ''open'',
     ca_from_share_state = None, ca_to_share_state = None, ca_created_by = ''agent'',
     ca_assigned_to = None, ca_nostr_event_id = Some ''a1'', ca_created_at = 1, ca_updated_at = 1,
     ca_declared_tier = None, ca_effective_tier = Some ''medium'', ca_tp = None,
     ca_calibration_sample = False, ca_probe_digest = None, ca_max_pending_hours = 72,
     ca_stale_after = None, ca_subject_kind = ''opaque'', ca_subject_id = [], ca_title = [],
     ca_summary = [], ca_priority = 50\<rparr>"

definition sample_db :: "net list \<Rightarrow> gov_db" where
  "sample_db ns = \<lparr>db_cases = [sample_case], db_decisions = [], db_receipts = [],
     db_delegations = [], db_event_times = (\<lambda>_. None), db_changes = 0, db_net = ns\<rparr>"

definition sample_correlation :: correlation where
  "sample_correlation = \<lparr>co_event_id = ''b1'', co_kind = 31403, co_case_id = ''case'',
     co_request_event_id = Some ''a1'', co_signer = ''admin'', co_decision_outcome = Some ''approve'',
     co_target_operation = None, co_supersedes = None, co_signed_at = 7\<rparr>"

definition sample_commit :: projection_commit where
  "sample_commit = \<lparr>pc_event_id = ''b1'', pc_case_id = ''case'', pc_request_event_id = ''a1'',
     pc_expected_state = ''open'', pc_decision_id = ''dec-b1'', pc_outcome = ''approve'',
     pc_outcome_detail = None, pc_prior = None, pc_reasoning = [], pc_broker_pubkey = ''admin'',
     pc_new_state = ''decided'', pc_decided_at = 7\<rparr>"

text \<open>The case decided and its response reported as applied.\<close>

definition sample_applied_db :: gov_db where
  "sample_applied_db = (sample_db [])
     \<lparr>db_cases := [sample_case\<lparr>ca_state := ''decided''\<rparr>],
      db_receipts := [(new_receipt sample_correlation 10)\<lparr>rc_stage := ''applied''\<rparr>]\<rparr>"

lemma sample_db_inv: "gov_inv (sample_db ns)"
  by (simp add: gov_inv_def sample_db_def)

lemmas sample_defs = sample_correlation_def sample_host_def sample_response_def sample_case_def sample_db_def
lemma sample_correlate: "correlate sample_host sample_response = Some sample_correlation"
    by (simp add: correlate_def sample_defs extract_d_tag_def tag_first_def or_else_def
    tag_with_marker_def extract_appeal_target_def extract_supersedes_target_def
    extract_e_tag_with_marker_def unmarked_tag_def tag_value_def)
lemma sample_decision_id: "decision_id_for_event ''b1'' = Returns ''dec-b1''"
  by (simp add: decision_id_for_event_def str_slice_to_def str_get_def is_char_boundary_def)
lemma sample_plan: "plan_action_response sample_host ''case'' (Some \<lparr>bcr_category = ''workflow_review'', bcr_state = ''open'',
    bcr_effective_tier = Some ''medium'', bcr_nostr_event_id = Some ''a1'', bcr_created_by = ''agent'',
    bcr_from_share_state = None, bcr_to_share_state = None\<rparr>) ''b1'' ''ok'' ''admin'' None 7 =
  Returns (Inr \<lparr>rp_decision_id = ''dec-b1'', rp_outcome = ''approve'', rp_outcome_detail = None, rp_prior_decision_id = None, rp_new_state = Decided, rp_reasoning = []\<rparr>)"
    by (simp add: plan_action_response_def sample_decision_id blocked_for_system_def
    select_case_row_def find_case_def sample_defs response_reasoning_def
    human_resolution_required_def tier_parse_def known_case_states_def decide_def
    record_decision_def row_snapshot_def category_parse_def case_state_parse_def plans_share_def
    Let_def)
lemma sample_step: "gov_effects (response_step sample_host sample_response 10 (sample_db [])) =
  ([sample_case\<lparr>ca_state := ''decided'', ca_assigned_to := Some ''admin'', ca_updated_at := 7\<rparr>],
   [\<lparr>dr_decision_id = ''dec-b1'', dr_case_id = ''case'', dr_outcome = ''approve'',
    dr_outcome_detail = None, dr_broker_pubkey = ''admin'', dr_reasoning = [], dr_prior = None,
    dr_superseded_by = None, dr_decided_at = 7\<rparr>])"
    by (simp add: response_step_def project_action_response_def sample_correlate [unfolded
    sample_defs] sample_plan [unfolded sample_defs] committed_replay_def read_ok_def next_call_def
    receipt_stage_at_def find_receipt_def latest_id_def latest_decision_def route_response_def
   apply_with_receipt_def record_accepted_def insert_receipt_def new_receipt_def
    commit_with_receipt_def store_commit_def d1_store_def commit_projection_def run_batch_def
   projection_decision_stmt_def insert_decision_def projection_case_stmt_def
    projection_receipt_stmt_def update_cases_def update_receipts_def update_rows_def
    count_rows_def response_commit_def opt_default_def
   select_case_row_def find_case_def sample_defs outcome_is_applied_def open_delegation_def
    awaiting_stages_def gov_effects_def)

section \<open>Redelivery after an application receipt\<close>

lemma next_call_ready [simp]: "db_net db = [] \<Longrightarrow> next_call db = (Delivered, db)"
  by (simp add: next_call_def)

lemma mark_fails_ready:
  assumes "db_net db = []" "receipt_stage_at i db = Some raw" "raw \<noteq> ''projection-committed''"
  shows "receipt_stage_at i (fst (mark_projection_failed i why now db)) = Some ''projection-failed''"
proof -
  obtain r where r: "find_receipt i db = Some r" "rc_stage r = raw"
    using assms(2) by (auto simp: receipt_stage_at_def)
  then have "rc_event_id r = i" by (auto simp: find_receipt_def dest: find_Some_mem)
  with r assms show ?thesis
    by (simp add: mark_projection_failed_def Let_def receipt_stage_at_def find_receipt_def find_update_rows)
qed

lemma record_replay_ready:
  assumes "gov_inv db" "db_net db = []" "receipt_stage_at (co_event_id co) db = Some raw"
  shows "db_net (fst (record_accepted co now db)) = []"
    "receipt_stage_at (co_event_id co) (fst (record_accepted co now db)) = Some raw"
proof -
  obtain r where "List.find (\<lambda>r. rc_event_id r = co_event_id co) (db_receipts db) = Some r"
    using assms(3) by (auto simp: receipt_stage_at_def find_receipt_def)
  from find_Some_mem [OF this] have "co_event_id co \<in> rc_event_id ` set (db_receipts db)"
    by (simp only: image_iff) (rule bexI [of _ r]; simp)
  then show "db_net (fst (record_accepted co now db)) = []"
    using assms(2) by (simp add: record_accepted_def insert_receipt_def new_receipt_def Let_def
        bump_replays_def split: option.split)
  obtain db' a where a: "record_accepted co now db = (db', a)" by fastforce
  from record_accepted_facts [OF assms(1) a] assms(3)
  show "receipt_stage_at (co_event_id co) (fst (record_accepted co now db)) = Some raw" by (simp add: a)
qed

lemma stage_as_str_committed: "stage_as_str st = ''projection-committed'' \<longleftrightarrow> st = ProjectionCommitted"
  by (cases st) simp_all

section \<open>Properties\<close>

text \<open>C1. Exactly once: however often the relay is delivered one signed action response, at whatever
  times, and whichever of its database calls or their replies are lost on the way, the cases and
  decisions change at most once over all the deliveries. The three statements of a commit either
  all change their row or none does, and a receipt at \<open>projection-committed\<close> stops every later
  delivery.\<close>

theorem response_exactly_once:
  "gov_inv db \<Longrightarrow> effect_changes gov_effects (response_step h e) times_seen db \<le> 1"
  using effect_changes_once [where ok = gov_inv and step = "response_step h e" and eff = gov_effects
      and committed = "\<lambda>db. receipt_stage_at (ev_id e) db = Some ''projection-committed''"
      and s = db and xs = times_seen]
    response_step_cases [of _ h e] by blast

theorem response_exactly_once_witness:
  "effect_changes gov_effects (response_step sample_host sample_response) [10, 20] (sample_db []) \<le> 1 \<and>
   gov_effects (response_step sample_host sample_response 10 (sample_db [])) \<noteq> gov_effects (sample_db [])"
proof
  show "effect_changes gov_effects (response_step sample_host sample_response) [10, 20] (sample_db []) \<le> 1"
    by (rule response_exactly_once [OF sample_db_inv])
  show "gov_effects (response_step sample_host sample_response 10 (sample_db [])) \<noteq> gov_effects (sample_db [])"
    by (simp add: sample_step) (simp add: gov_effects_def sample_db_def)
qed

text \<open>C6. The stage machine over the D1 store, for a plan of any kind (a decision, a supersession, an
  appeal): an outcome that reports the mutation applied leaves the receipt at
  \<open>projection-committed\<close> or past it, and a delivery that changed a case or a decision has moved
  its receipt to \<open>projection-committed\<close>, even when the caller saw a failed call.\<close>

theorem apply_with_receipt_atomic:
  "gov_inv db \<Longrightarrow> apply_with_receipt d1_store co c now db = (db', r) \<Longrightarrow>
     gov_inv db' \<and>
     (gov_effects db' = gov_effects db \<or>
      receipt_stage_at (co_event_id co) db' = Some ''projection-committed'') \<and>
     (outcome_is_applied r \<longrightarrow>
       (\<exists>raw st. receipt_stage_at (co_event_id co) db' = Some raw \<and> stage_parse raw = Some st \<and>
          \<not> awaits_projection st))"
  using d1.apply_effects d1.apply_reported by blast

theorem apply_with_receipt_atomic_witness:
  "gov_effects (fst (apply_with_receipt d1_store sample_correlation (Response sample_commit) 10
       (sample_db [Delivered, ReplyLost]))) = gov_effects (sample_db []) \<or>
   receipt_stage_at ''b1'' (fst (apply_with_receipt d1_store sample_correlation (Response sample_commit) 10
       (sample_db [Delivered, ReplyLost]))) = Some ''projection-committed''"
  using apply_with_receipt_atomic [OF sample_db_inv surjective_pairing,
      of sample_correlation "Response sample_commit" 10 "[Delivered, ReplyLost]"]
  by (simp add: sample_correlation_def) (simp add: gov_effects_def sample_db_def)

text \<open>A regression of the receipt ladder: when a signed action response has been projected, its
  case decided, and the mutation owner has reported an application stage (received, applied, not
  applied, applied manually), one more delivery of the same event moves its receipt back to
  \<open>projection-failed\<close>. The replay test looks for \<open>projection-committed\<close> alone, so the handler
  plans again on the decided case, is refused, and the guard of the failure transition protects
  \<open>projection-committed\<close> alone.\<close>

theorem redelivery_regresses_application:
  assumes "gov_inv db" "db_net db = []" "correlate h e = Some co"
    and "h_outcome h (ev_content e) = Some o'" "decision_id_for_event (ev_id e) = Returns did"
    and "receipt_stage_at (ev_id e) db = Some (stage_as_str st)" "is_application_stage st"
    and "find_case (co_case_id co) db = Some c"
    and "ca_state c \<notin> {''open'', ''under_review'', ''reopened''}"
  shows "receipt_stage_at (ev_id e) (response_step h e now db) = Some ''projection-failed''"
proof -
  have id: "co_event_id co = ev_id e" by (rule correlate_event_id [OF assms(3)])
  have st: "stage_as_str st \<noteq> ''projection-committed''"
    using assms(7) by (auto simp: stage_as_str_committed is_application_stage_def)
  obtain row where row: "select_case_row (co_case_id co) db = Some row" "bcr_state row = ca_state c"
    by (simp add: select_case_row_def assms(8))
  obtain err where "plan_action_response h (co_case_id co) (Some row) (ev_id e) (ev_content e)
      (ev_pubkey e) (latest_id (co_case_id co) db) (ev_created_at e) = Returns (Inl err)"
    using plan_terminal_refused [OF assms(4,5)] row(2) assms(9) by metis
  then have "response_step h e now db = fst (refuse_projection co (PlanFailure err) now db)"
    using assms(2,6) st id row(1)
    by (simp add: response_step_def project_action_response_def assms(3) committed_replay_def
        read_ok_def route_response_def case_prod_unfold del: not_None_eq)
  also have "\<dots> = fst (mark_projection_failed (ev_id e) (PlanFailure err) now (fst (record_accepted co now db)))"
    by (simp add: refuse_projection_def id Let_def)
  finally show ?thesis
    using record_replay_ready [of db co _ now] mark_fails_ready assms(1,2,6) st by (simp add: id)
qed

theorem redelivery_regresses_application_witness:
  "receipt_stage_at ''b1'' sample_applied_db = Some ''applied'' \<and>
   receipt_stage_at ''b1'' (response_step sample_host sample_response 20 sample_applied_db) =
     Some ''projection-failed''"
proof -
  have stage: "receipt_stage_at ''b1'' sample_applied_db = Some ''applied''"
    by (simp add: sample_applied_db_def receipt_stage_at_def find_receipt_def new_receipt_def
        sample_correlation_def)
  have "receipt_stage_at (ev_id sample_response) (response_step sample_host sample_response 20 sample_applied_db) =
     Some ''projection-failed''"
  proof (rule redelivery_regresses_application [OF _ _ sample_correlate])
    show "gov_inv sample_applied_db" by (simp add: sample_applied_db_def gov_inv_def sample_db_def)
    show "db_net sample_applied_db = []" by (simp add: sample_applied_db_def sample_db_def)
    show "h_outcome sample_host (ev_content sample_response) = Some Approve"
      by (simp add: sample_host_def sample_response_def)
    show "decision_id_for_event (ev_id sample_response) = Returns ''dec-b1''"
      by (simp add: sample_response_def sample_decision_id)
    show "receipt_stage_at (ev_id sample_response) sample_applied_db = Some (stage_as_str Applied)"
      using stage by (simp add: sample_response_def)
    show "is_application_stage Applied" by (simp add: is_application_stage_def)
    show "find_case (co_case_id sample_correlation) sample_applied_db = Some (sample_case\<lparr>ca_state := ''decided''\<rparr>)"
      by (simp add: find_case_def sample_applied_db_def sample_case_def sample_correlation_def)
    show "ca_state (sample_case\<lparr>ca_state := ''decided''\<rparr>) \<notin> {''open'', ''under_review'', ''reopened''}"
      by simp
  qed
  with stage show ?thesis by (simp add: sample_response_def)
qed

end
