(* ===== verification/Application.thy ===== *)
theory Application
  imports Projection Machine
begin

text \<open>
  Consequences of the governance projections that span several calls: the application receipts of
  the auth worker move a receipt only forward along the ladder; a re-posted request cannot rewrite
  what a case records about its origin; and a decision to delegate leaves a case no delegate can
  decide.
\<close>

section \<open>Stages as text\<close>

lemma stage_parse_as_str [simp]: "stage_parse (stage_as_str st) = Some st"
  by (cases st) (simp_all add: stage_parse_def)

lemma stage_path_append:
  "stage_path c ns \<Longrightarrow> stage_path (last (c # ns)) ms \<Longrightarrow> stage_path c (ns @ ms)"
  by (induction ns arbitrary: c) auto

section \<open>One application report\<close>

datatype report_op = Report string string string "string option" nat

fun report_step :: "(string \<Rightarrow> bool) \<Rightarrow> (string \<Rightarrow> bool) \<Rightarrow> report_op \<Rightarrow> gov_db \<Rightarrow> gov_db" where
  "report_step admin registered (Report caller event_id stage_text ack now) db =
     fst (report_application admin registered caller event_id stage_text ack now db)"

text \<open>A receipt's stage is where it was or further along accepted advances, and nothing but
  receipts changes.\<close>

definition stage_moves :: "string option \<Rightarrow> string option \<Rightarrow> bool" where
  "stage_moves a b \<longleftrightarrow> a = b \<or>
     (\<exists>st ns. a = Some (stage_as_str st) \<and> ns \<noteq> [] \<and> stage_path st ns \<and>
        b = Some (stage_as_str (last ns)))"

definition reports_only :: "gov_db \<Rightarrow> gov_db \<Rightarrow> bool" where
  "reports_only db db' \<longleftrightarrow> gov_effects db' = gov_effects db \<and>
     (\<forall>i. stage_moves (receipt_stage_at i db) (receipt_stage_at i db'))"

lemma stage_as_str_inject: "stage_as_str a = stage_as_str b \<longleftrightarrow> a = b"
  by (metis option.inject stage_parse_as_str)

lemma stage_moves_trans: "stage_moves a b \<Longrightarrow> stage_moves b c \<Longrightarrow> stage_moves a c"
proof -
  assume ab: "stage_moves a b" and bc: "stage_moves b c"
  show ?thesis
  proof (cases "a = b \<or> b = c")
    case True
    with ab bc show ?thesis by auto
  next
    case False
    then obtain st ns st' ms where p: "a = Some (stage_as_str st)" "ns \<noteq> []" "stage_path st ns"
      "b = Some (stage_as_str (last ns))" "b = Some (stage_as_str st')" "ms \<noteq> []" "stage_path st' ms"
      "c = Some (stage_as_str (last ms))"
      using ab bc by (auto simp: stage_moves_def)
    then have "st' = last ns" by (simp add: stage_as_str_inject)
    then have "stage_path st (ns @ ms)" using p by (intro stage_path_append) simp_all
    with p show ?thesis
      unfolding stage_moves_def by (intro disjI2 exI [of _ st] exI [of _ "ns @ ms"]) simp
  qed
qed

lemma stage_moves_refl: "stage_moves a a"
  by (simp add: stage_moves_def)

lemma stage_moves_step:
  "can_advance_stage c n = Inr () \<Longrightarrow> stage_moves (Some (stage_as_str c)) (Some (stage_as_str n))"
  unfolding stage_moves_def by (intro disjI2 exI [of _ c] exI [of _ "[n]"]) simp

lemma plan_application_ok:
  "plan_application_advance cur req who cs out = Inr u \<Longrightarrow> can_advance_stage cur req = Inr ()"
  by (auto simp: plan_application_advance_def split: if_splits sum.splits)

lemma stage_text: "stage_parse raw = Some st \<Longrightarrow> raw = stage_as_str st"
  by (auto simp: stage_parse_def split: if_splits)

lemma report_application_moves:
  "reports_only db (fst (report_application admin registered caller event_id stage_text ack now db))"
proof -
  let ?db' = "fst (report_application admin registered caller event_id stage_text ack now db)"
  consider (same) "?db' = db"
    | (moved) cur req r p f where "find_receipt event_id db = Some r" "stage_parse (rc_stage r) = Some cur"
        "can_advance_stage cur req = Inr ()" "\<And>r. rc_event_id (f r) = rc_event_id r"
        "\<And>r. rc_stage (f r) = stage_as_str req"
        "\<And>r. p r \<longleftrightarrow> rc_event_id r = event_id \<and> rc_stage r = stage_as_str cur"
        "?db' = db\<lparr>db_receipts := update_rows p f (db_receipts db), db_changes := count_rows p (db_receipts db)\<rparr>"
  proof (cases "stage_parse stage_text"; cases "find_receipt event_id db")
    fix req r
    assume a: "stage_parse stage_text = Some req" "find_receipt event_id db = Some r"
    show thesis
    proof (cases "stage_parse (rc_stage r)")
      case None
      then show thesis by (intro same) (simp add: report_application_def a)
    next
      case (Some cur)
      show thesis
      proof (cases "can_advance_stage cur req = Inr ()")
        case True
        show thesis
        proof (cases "?db' = db")
          case False
          then show thesis
            by (intro moved [OF a(2) Some True _ _ _ ])
               (auto simp: report_application_def a Some Let_def split: sum.splits)
        qed (rule same)
      next
        case False
        then show thesis
          using plan_application_ok by (intro same)
            (fastforce simp: report_application_def a Some Let_def split: sum.splits)
      qed
    qed
  qed (auto simp: report_application_def split: option.splits intro: same)
  then show ?thesis
  proof cases
    case same
    then show ?thesis by (simp add: reports_only_def stage_moves_def)
  next
    case moved
    have "stage_moves (receipt_stage_at i db) (receipt_stage_at i ?db')" for i
    proof (cases "find_receipt i db")
      case None
      then show ?thesis
        by (simp add: moved(7) receipt_stage_at_def find_receipt_def find_update_rows moved(4)
            stage_moves_def)
    next
      case (Some r')
      then have at: "receipt_stage_at i ?db' = Some (rc_stage (if p r' then f r' else r'))"
        by (simp add: moved(7) receipt_stage_at_def find_receipt_def find_update_rows moved(4))
      have was: "receipt_stage_at i db = Some (rc_stage r')"
        using Some by (simp add: receipt_stage_at_def)
      show ?thesis
        unfolding at was
        using stage_moves_step [OF moved(3)] moved(5,6) [of r'] by (auto simp: stage_moves_refl)
    qed
    moreover have "gov_effects ?db' = gov_effects db" by (simp add: moved(7) gov_effects_def)
    ultimately show ?thesis by (simp add: reports_only_def)
  qed
qed

interpretation reports: step_machine "report_step admin registered" reports_only
  for admin registered
proof unfold_locales
  show "reports_only s s" for s by (simp add: reports_only_def stage_moves_def)
  show "reports_only s t \<Longrightarrow> reports_only t u \<Longrightarrow> reports_only s u" for s t u
    by (auto simp: reports_only_def intro: stage_moves_trans)
  show "reports_only s (report_step admin registered x s)" for s x
    by (cases x) (simp add: report_application_moves)
qed

lemma planned_state:
  assumes "plan_action_response h case_id (Some row) event_id content b latest now = Returns (Inr p)"
  shows "(\<exists>o'. rp_new_state p = state_after o' \<and> rp_outcome p = action_str o') \<and>
    bcr_state row \<in> {''open'', ''under_review'', ''reopened''}"
  using assms unfolding planned_response_iff by auto

text \<open>The cases a request by this key must not touch: decided ones and those another key raised.\<close>

definition settled_for :: "string \<Rightarrow> case_rec \<Rightarrow> bool" where
  "settled_for pk r \<longleftrightarrow>
     ca_state r \<notin> {''open'', ''under_review'', ''reopened''} \<or> ca_created_by r \<noteq> pk"

section \<open>Properties\<close>

text \<open>The application endpoint alone never moves a receipt backwards: over any sequence of reports
  by any callers, with any stage texts, every receipt's stage is the one it had or one reached from
  it by accepted advances of the ladder (so a terminal fact stays), and no case, decision or other
  column of the governed state changes.\<close>

theorem application_reports_advance:
  "reports_only db (run (report_step admin registered) reports_made db)"
  by (rule reports.run_rel)

text \<open>Delegation is a dead end: once a planned decision delegates a case, the state it persists
  admits no further first-order decision by anyone, in particular not by the delegate whom the
  recorded delegation admits at ingest; the aggregate counts \<^const>\<open>Delegated\<close> as terminal.\<close>

theorem delegated_case_undecidable:
  "\<not> (plan_action_response h case_id (Some row) event_id content b latest now = Returns (Inr p) \<and>
      rp_outcome p = ''delegate'' \<and>
      plan_action_response h' case_id (Some (row\<lparr>bcr_state := case_state_as_str (rp_new_state p)\<rparr>))
        event_id' content' b' latest' now' = Returns (Inr q))"
proof
  assume a: "plan_action_response h case_id (Some row) event_id content b latest now = Returns (Inr p) \<and>
      rp_outcome p = ''delegate'' \<and>
      plan_action_response h' case_id (Some (row\<lparr>bcr_state := case_state_as_str (rp_new_state p)\<rparr>))
        event_id' content' b' latest' now' = Returns (Inr q)"
  then obtain o' where "rp_new_state p = state_after o'" "action_str o' = ''delegate''"
    using planned_state by metis
  then have "rp_new_state p = Delegated" by (cases o') simp_all
  with a planned_state [of h' case_id "row\<lparr>bcr_state := case_state_as_str (rp_new_state p)\<rparr>"]
  show False by auto
qed

text \<open>A re-posted request updates a case in place and cannot rewrite its origin: every row of the
  table keeps its identity, creator, creation time, state, calibration mark and probe digest, a
  case that is decided or was raised by another key is not changed at all, and at most one new row
  is added, open and carrying the request's own author.\<close>

theorem request_upsert_keeps_origin:
  "(\<exists>extra. map (\<lambda>r. (ca_id r, ca_created_by r, ca_created_at r, ca_state r, ca_calibration_sample r,
                    ca_probe_digest r)) (db_cases (upsert_case (request_row e b) db)) =
      map (\<lambda>r. (ca_id r, ca_created_by r, ca_created_at r, ca_state r, ca_calibration_sample r,
                ca_probe_digest r)) (db_cases db) @ extra \<and>
      set extra \<subseteq> {(ca_id (request_row e b), ev_pubkey e, ev_created_at e, ''open'',
                     rb_calibration_sample b, rb_probe_digest b)}) \<and>
   filter (settled_for (ev_pubkey e))
     (db_cases (upsert_case (request_row e b) db)) =
   filter (settled_for (ev_pubkey e))
     (db_cases db)"
proof (cases "ca_id (request_row e b) \<in> ca_id ` set (db_cases db)")
  case False
  then show ?thesis
    by (simp add: upsert_case_def) (simp add: request_row_def settled_for_def)
next
  case True
  define p where "p = (\<lambda>r. ca_id r = ca_id (request_row e b) \<and> upsert_updates db (request_row e b) r)"
  have cases: "db_cases (upsert_case (request_row e b) db) =
      update_rows p (upsert_row (request_row e b)) (db_cases db)"
    using True by (simp add: upsert_case_def p_def Let_def)
  have p: "p r \<Longrightarrow> ca_created_by r = ev_pubkey e \<and> ca_state r \<in> {''open'', ''under_review'', ''reopened''}" for r
    by (auto simp: p_def upsert_updates_def request_row_def split: option.splits)
  have keeps: "filter Q (update_rows p f rows) = filter Q rows"
    if "\<And>r. p r \<Longrightarrow> \<not> Q r \<and> \<not> Q (f r)" for Q f and rows :: "case_rec list"
    using that by (induction rows) (auto simp: update_rows_def)
  show ?thesis
    unfolding cases
  proof (intro conjI exI [of _ "[]"])
    show "filter (settled_for (ev_pubkey e))
        (update_rows p (upsert_row (request_row e b)) (db_cases db)) =
      filter (settled_for (ev_pubkey e))
        (db_cases db)"
      by (rule keeps) (use p in \<open>simp add: upsert_row_def settled_for_def\<close>)
  qed (simp_all add: update_rows_def upsert_row_def)
qed

end
