(* ===== verification/Filters.thy ===== *)
theory Filters
  imports Events
begin

text \<open>
  Subscription filters of \<open>nostr-bbs-relay-worker/src/relay_do/filter.rs\<close>: the conditions a filter
  compiles to for a stored read, the in-memory matcher of the live path, and their agreement. The
  text of the SQL is its abstract syntax with the parameters bound in place; \<open>LIKE ... ESCAPE\<close> is
  SQLite's matching on bytes, insensitive to ASCII case.
\<close>

record nostr_filter =
  nf_ids :: "string list option"
  nf_authors :: "string list option"
  nf_kinds :: "nat list option"
  nf_since :: "nat option"
  nf_until :: "nat option"
  nf_limit :: "nat option"
  nf_search :: "string option"
  nf_extra :: "(string \<times> json) list"

section \<open>Tag filters\<close>

datatype tag_filter_plan = Ignore | MatchNothing | Values string "string list"

definition is_tag_name_byte :: "char \<Rightarrow> bool" where
  "is_tag_name_byte c \<longleftrightarrow> is_ascii_alphanumeric c \<or> c = CHR ''_'' \<or> c = CHR ''-''"

definition nonempty_strings :: "json list \<Rightarrow> string list" where
  "nonempty_strings xs = filter (\<lambda>s. s \<noteq> []) (List.map_filter json_as_str xs)"

definition tag_filter_plan_of :: "string \<Rightarrow> json \<Rightarrow> tag_filter_plan" where
  "tag_filter_plan_of key values =
     (case strip_prefix ''#'' key of
        None \<Rightarrow> Ignore
      | Some tag_name \<Rightarrow>
          if \<not> list_all is_tag_name_byte tag_name then Ignore
          else if tag_name = ''probe'' then MatchNothing
          else case json_as_array values of
            None \<Rightarrow> Ignore
          | Some arr \<Rightarrow>
              if nonempty_strings arr = [] then MatchNothing
              else Values tag_name (nonempty_strings arr))"

section \<open>Search\<close>

definition search_term :: "nostr_filter \<Rightarrow> string option" where
  "search_term f = (case nf_search f of Some s \<Rightarrow> if s \<noteq> [] then Some s else None | None \<Rightarrow> None)"

definition backslash :: char where "backslash = CHR 92"

text \<open>\<open>str::replace\<close> of a one-byte pattern.\<close>

definition replace_char :: "char \<Rightarrow> string \<Rightarrow> string \<Rightarrow> string" where
  "replace_char c r s = concat (map (\<lambda>x. if x = c then r else [x]) s)"

definition like_pattern :: "string \<Rightarrow> string" where
  "like_pattern term =
     ''%'' @ replace_char (CHR ''_'') [backslash, CHR ''_'']
               (replace_char (CHR ''%'') [backslash, CHR ''%'']
                 (replace_char backslash [backslash, backslash] term)) @ ''%''"

fun contains :: "string \<Rightarrow> string \<Rightarrow> bool" where
  "contains n [] \<longleftrightarrow> n = []"
| "contains n (c # cs) \<longleftrightarrow> starts_with n (c # cs) \<or> contains n cs"

definition content_matches_search :: "string \<Rightarrow> string \<Rightarrow> bool" where
  "content_matches_search content term = contains (ascii_lower term) (ascii_lower content)"

text \<open>SQLite's \<open>text LIKE pattern ESCAPE '\'\<close>.\<close>

fun sql_like :: "string \<Rightarrow> string \<Rightarrow> bool" where
  "sql_like [] s \<longleftrightarrow> s = []"
| "sql_like (p # ps) s \<longleftrightarrow>
     (if p = CHR ''%'' then sql_like ps s \<or> (case s of [] \<Rightarrow> False | c # cs \<Rightarrow> sql_like (p # ps) cs)
      else case s of
        [] \<Rightarrow> False
      | c # cs \<Rightarrow>
          if p = backslash then
            (case ps of [] \<Rightarrow> False
             | q # qs \<Rightarrow> ascii_lower_char q = ascii_lower_char c \<and> sql_like qs cs)
          else if p = CHR ''_'' then sql_like ps cs
          else ascii_lower_char p = ascii_lower_char c \<and> sql_like ps cs)"

section \<open>The stored read\<close>

datatype sql_cond = IdIn "string list" | PubkeyIn "string list" | KindIn "nat list"
  | CreatedGe nat | CreatedLe nat | Never | TagExists string "string list" | ContentLike string

text \<open>An \<open>IN\<close> list, or \<open>1 = 0\<close> for an empty one.\<close>

definition in_cond :: "('a list \<Rightarrow> sql_cond) \<Rightarrow> 'a list option \<Rightarrow> sql_cond list" where
  "in_cond mk xs = (case xs of None \<Rightarrow> [] | Some ys \<Rightarrow> if ys \<noteq> [] then [mk ys] else [Never])"

text \<open>
  The tag filters: the first usable one becomes the driver, the others \<open>EXISTS\<close> conditions.
\<close>

fun tag_conditions ::
  "(string \<times> json) list \<Rightarrow> (string \<times> string list) option \<Rightarrow> sql_cond list \<times> (string \<times> string list) option"
where
  "tag_conditions [] driver = ([], driver)"
| "tag_conditions ((key, values) # es) driver =
     (case tag_filter_plan_of key values of
        Ignore \<Rightarrow> tag_conditions es driver
      | MatchNothing \<Rightarrow> (let (cs, d) = tag_conditions es driver in (Never # cs, d))
      | Values name vs \<Rightarrow>
          (case driver of
             None \<Rightarrow> tag_conditions es (Some (name, vs))
           | Some _ \<Rightarrow> (let (cs, d) = tag_conditions es driver in (TagExists name vs # cs, d))))"

definition build_filter_conditions ::
  "nostr_filter \<Rightarrow> sql_cond list \<times> (string \<times> string list) option"
where
  "build_filter_conditions f =
     (let (tags, driver) = tag_conditions (nf_extra f) None in
      (in_cond IdIn (nf_ids f) @ in_cond PubkeyIn (nf_authors f) @ in_cond KindIn (nf_kinds f)
       @ (case nf_since f of Some t \<Rightarrow> [CreatedGe t] | None \<Rightarrow> [])
       @ (case nf_until f of Some t \<Rightarrow> [CreatedLe t] | None \<Rightarrow> [])
       @ tags
       @ (case search_term f of Some t \<Rightarrow> [ContentLike (like_pattern t)] | None \<Rightarrow> []),
       driver))"

text \<open>
  A row of \<open>events\<close> (\<open>EVENTS_CREATE_SQL\<close>). The \<open>tags\<close> column holds the tags as JSON text, which
  the model keeps as the tag list it encodes. Numbers are bound as \<open>f64\<close>.
\<close>

record event_row =
  er_id :: string
  er_pubkey :: string
  er_created_at :: nat
  er_kind :: nat
  er_tags :: "tag list"
  er_content :: string
  er_sig :: string
  er_d_tag :: string
  er_received_at :: nat

definition into_nostr_event :: "event_row \<Rightarrow> nostr_event" where
  "into_nostr_event r =
     \<lparr>ev_id = er_id r, ev_pubkey = er_pubkey r, ev_created_at = u64_of_f64 (er_created_at r),
      ev_kind = u64_of_f64 (er_kind r), ev_tags = er_tags r, ev_content = er_content r,
      ev_sig = er_sig r\<rparr>"

text \<open>A row of \<open>event_tags\<close>: event id, tag name, tag value.\<close>

type_synonym tag_row = "string \<times> string \<times> string"

definition tag_row_exists :: "tag_row list \<Rightarrow> string \<Rightarrow> string \<Rightarrow> string list \<Rightarrow> bool" where
  "tag_row_exists rows event_id name vs =
     list_ex (\<lambda>(i, n, v). i = event_id \<and> n = name \<and> v \<in> set vs) rows"

fun sql_holds :: "tag_row list \<Rightarrow> event_row \<Rightarrow> sql_cond \<Rightarrow> bool" where
  "sql_holds rows e (IdIn xs) = (er_id e \<in> set xs)"
| "sql_holds rows e (PubkeyIn xs) = (er_pubkey e \<in> set xs)"
| "sql_holds rows e (KindIn xs) = (er_kind e \<in> set (map f64_of_u64 xs))"
| "sql_holds rows e (CreatedGe t) = (er_created_at e \<ge> f64_of_u64 t)"
| "sql_holds rows e (CreatedLe t) = (er_created_at e \<le> f64_of_u64 t)"
| "sql_holds rows e Never = False"
| "sql_holds rows e (TagExists n vs) = tag_row_exists rows (er_id e) n vs"
| "sql_holds rows e (ContentLike p) = sql_like p (er_content e)"

definition sql_selects :: "tag_row list \<Rightarrow> nostr_filter \<Rightarrow> event_row \<Rightarrow> bool" where
  "sql_selects rows f e =
     (case build_filter_conditions f of
        (cs, driver) \<Rightarrow> list_all (sql_holds rows e) cs \<and>
          (case driver of None \<Rightarrow> True | Some (n, vs) \<Rightarrow> tag_row_exists rows (er_id e) n vs))"

section \<open>The live path\<close>

definition tag_filter_matches :: "nostr_event \<Rightarrow> string \<times> json \<Rightarrow> bool" where
  "tag_filter_matches e kv =
     (case tag_filter_plan_of (fst kv) (snd kv) of
        Ignore \<Rightarrow> True
      | MatchNothing \<Rightarrow> False
      | Values name required \<Rightarrow>
          list_ex (\<lambda>t. get_at t 0 = Some name \<and>
             (case get_at t 1 of Some v \<Rightarrow> v \<in> set required | None \<Rightarrow> False)) (ev_tags e))"

definition opt_all :: "('a \<Rightarrow> bool) \<Rightarrow> 'a option \<Rightarrow> bool" where
  "opt_all P x = (case x of Some v \<Rightarrow> P v | None \<Rightarrow> True)"

definition filter_matches :: "nostr_event \<Rightarrow> nostr_filter \<Rightarrow> bool" where
  "filter_matches e f \<longleftrightarrow>
     opt_all (\<lambda>ids. ev_id e \<in> set ids) (nf_ids f) \<and>
     opt_all (\<lambda>as. ev_pubkey e \<in> set as) (nf_authors f) \<and>
     opt_all (\<lambda>ks. ev_kind e \<in> set ks) (nf_kinds f) \<and>
     opt_all (\<lambda>t. \<not> ev_created_at e < t) (nf_since f) \<and>
     opt_all (\<lambda>t. \<not> ev_created_at e > t) (nf_until f) \<and>
     opt_all (content_matches_search (ev_content e)) (search_term f) \<and>
     list_all (tag_filter_matches e) (nf_extra f)"

definition event_matches_filters :: "nostr_event \<Rightarrow> nostr_filter list \<Rightarrow> bool" where
  "event_matches_filters e fs = list_ex (filter_matches e) fs"

section \<open>Other readers of the module\<close>

text \<open>\<open>split_a_ref\<close>: the text of the kind is parsed by the standard library's \<open>f64\<close> parser, an
  argument here.\<close>

definition split_a_ref :: "(string \<Rightarrow> 'f option) \<Rightarrow> string \<Rightarrow> ('f \<times> string \<times> string) option" where
  "split_a_ref parse_f64 a_ref =
     (let (k, rest) = (case split_once (CHR '':'') a_ref of Some (a, b) \<Rightarrow> (a, Some b) | None \<Rightarrow> (a_ref, None)) in
      Option.bind (parse_f64 k) (\<lambda>kind.
      Option.bind rest (\<lambda>r.
      Option.bind (split_once (CHR '':'') r) (\<lambda>(pubkey, d). Some (kind, pubkey, d)))))"

datatype expiration_error = ExpirationMalformed | ExpirationPast

definition expiration_admission :: "nostr_event \<Rightarrow> nat \<Rightarrow> expiration_error + unit" where
  "expiration_admission e now =
     (case tag_value (ev_tags e) ''expiration'' of
        None \<Rightarrow> Inr ()
      | Some raw \<Rightarrow>
          if raw = [] \<or> \<not> list_all is_ascii_digit raw then Inl ExpirationMalformed
          else case parse_u64 raw of
            Some ts \<Rightarrow> if ts < now then Inl ExpirationPast else Inr ()
          | None \<Rightarrow> Inl ExpirationMalformed)"

section \<open>The search term and \<open>LIKE\<close>\<close>

definition like_escape :: "string \<Rightarrow> string" where
  "like_escape term =
     concat (map (\<lambda>c. if c = backslash \<or> c = CHR ''%'' \<or> c = CHR ''_'' then [backslash, c] else [c]) term)"

lemma replace_char_Nil [simp]: "replace_char c r [] = []"
  by (simp add: replace_char_def)

lemma replace_char_Cons [simp]:
  "replace_char c r (x # xs) = (if x = c then r else [x]) @ replace_char c r xs"
  by (simp add: replace_char_def)

lemma replace_char_append [simp]:
  "replace_char c r (xs @ ys) = replace_char c r xs @ replace_char c r ys"
  by (simp add: replace_char_def)

lemma like_pattern_eq: "like_pattern t = ''%'' @ like_escape t @ ''%''"
proof -
  have "replace_char (CHR ''_'') [backslash, CHR ''_'']
          (replace_char (CHR ''%'') [backslash, CHR ''%'']
            (replace_char backslash [backslash, backslash] t)) = like_escape t"
    by (induction t) (simp_all add: like_escape_def backslash_def)
  then show ?thesis by (simp add: like_pattern_def)
qed

lemma sql_like_any: "sql_like ''%'' s"
  by (induction s) simp_all

lemma starts_with_Cons [simp]: "starts_with (p # ps) (c # cs) \<longleftrightarrow> p = c \<and> starts_with ps cs"
  by (simp add: starts_with_def)

lemma sql_like_escape:
  "sql_like (like_escape t @ ''%'') s \<longleftrightarrow> starts_with (ascii_lower t) (ascii_lower s)"
proof (induction t arbitrary: s)
  case Nil
  then show ?case by (simp add: like_escape_def sql_like_any starts_with_def del: sql_like.simps)
next
  case (Cons x t)
  show ?case
  proof (cases s)
    case Nil
    then show ?thesis by (simp add: like_escape_def starts_with_def backslash_def)
  next
    case (Cons c cs)
    have "like_escape (x # t) =
        (if x = backslash \<or> x = CHR ''%'' \<or> x = CHR ''_'' then [backslash, x] else [x]) @ like_escape t"
      by (simp add: like_escape_def)
    then show ?thesis
      using Cons.IH [of cs] unfolding Cons by (simp add: backslash_def)
  qed
qed

lemma sql_like_leading_any:
  "(\<And>u. sql_like p u \<longleftrightarrow> starts_with n (ascii_lower u)) \<Longrightarrow>
   sql_like (CHR ''%'' # p) s \<longleftrightarrow> contains n (ascii_lower s)"
proof (induction s)
  case Nil
  then show ?case by (cases n) (simp_all add: starts_with_def)
next
  case (Cons c s)
  then show ?case by simp
qed

text \<open>The two search semantics are one.\<close>

lemma like_matches_search: "sql_like (like_pattern t) s \<longleftrightarrow> content_matches_search s t"
  unfolding like_pattern_eq content_matches_search_def
  using sql_like_leading_any [OF sql_like_escape] by simp

lemma contains_iff: "contains n s \<longleftrightarrow> (\<exists>a b. s = a @ n @ b)"
proof (induction s)
  case (Cons c s)
  have "(\<exists>a b. c # s = a @ n @ b) \<longleftrightarrow> starts_with n (c # s) \<or> (\<exists>a b. s = a @ n @ b)"
    unfolding starts_with_iff by (auto simp: Cons_eq_append_conv)
  then show ?case using Cons.IH by simp
qed auto

section \<open>The stored read and the live path agree\<close>

text \<open>Every number of the filter has an exact \<open>f64\<close>.\<close>

definition small_numbers :: "nostr_filter \<Rightarrow> bool" where
  "small_numbers f \<longleftrightarrow>
     opt_all (list_all (\<lambda>k. k < 9007199254740992)) (nf_kinds f) \<and>
     opt_all (\<lambda>t. t < 9007199254740992) (nf_since f) \<and>
     opt_all (\<lambda>t. t < 9007199254740992) (nf_until f)"

text \<open>The rows the insert trigger writes for one event (\<open>PROBE_BLIND_STMTS\<close>).\<close>

definition trigger_rows :: "string \<Rightarrow> tag list \<Rightarrow> tag_row list" where
  "trigger_rows i tags =
     map (\<lambda>t. (i, t ! 0, case get_at t 1 of Some v \<Rightarrow> v | None \<Rightarrow> []))
       (filter (\<lambda>t. t \<noteq> [] \<and> t ! 0 \<noteq> ''probe'') tags)"

text \<open>The index of one stored event is what the trigger wrote for it.\<close>

definition indexed :: "tag_row list \<Rightarrow> event_row \<Rightarrow> bool" where
  "indexed rows e \<longleftrightarrow> filter (\<lambda>r. fst r = er_id e) rows = trigger_rows (er_id e) (er_tags e)"

lemma tag_row_exists_filter:
  "tag_row_exists rows i n vs \<longleftrightarrow>
     list_ex (\<lambda>(_, m, v). m = n \<and> v \<in> set vs) (filter (\<lambda>r. fst r = i) rows)"
  by (auto simp: tag_row_exists_def list_ex_iff)

lemma tag_filter_plan_of_Values:
  assumes "tag_filter_plan_of key values = Values n vs"
  shows "n \<noteq> ''probe''" "[] \<notin> set vs"
  using assms by (auto simp: tag_filter_plan_of_def nonempty_strings_def split: option.splits if_splits)

lemma tag_row_exists_indexed:
  assumes "indexed rows e" "n \<noteq> ''probe''" "[] \<notin> set vs"
  shows "tag_row_exists rows (er_id e) n vs \<longleftrightarrow>
    list_ex (\<lambda>t. get_at t 0 = Some n \<and> (case get_at t 1 of Some v \<Rightarrow> v \<in> set vs | None \<Rightarrow> False))
      (er_tags e)"
proof -
  have "tag_row_exists rows (er_id e) n vs \<longleftrightarrow>
      (\<exists>t \<in> set (er_tags e). t \<noteq> [] \<and> t ! 0 = n \<and>
         (case get_at t 1 of Some v \<Rightarrow> v | None \<Rightarrow> []) \<in> set vs)"
    using assms(1,2)
    by (auto simp: tag_row_exists_filter indexed_def trigger_rows_def list_ex_iff)
  also have "\<dots> \<longleftrightarrow> (\<exists>t \<in> set (er_tags e). get_at t 0 = Some n \<and>
      (case get_at t 1 of Some v \<Rightarrow> v \<in> set vs | None \<Rightarrow> False))"
    using assms(3) by (intro bex_cong refl) (auto simp: get_at_Some_iff get_at_eq_None_iff split: option.splits)
  finally show ?thesis by (simp add: list_ex_iff)
qed

definition driver_holds :: "tag_row list \<Rightarrow> event_row \<Rightarrow> (string \<times> string list) option \<Rightarrow> bool" where
  "driver_holds rows e d = opt_all (\<lambda>(n, vs). tag_row_exists rows (er_id e) n vs) d"

lemma tag_conditions_match:
  assumes "indexed rows e" "tag_conditions es driver = (cs, d)"
  shows "list_all (sql_holds rows e) cs \<and> driver_holds rows e d \<longleftrightarrow>
    list_all (tag_filter_matches (into_nostr_event e)) es \<and> driver_holds rows e driver"
  using assms(2)
proof (induction es arbitrary: driver cs d)
  case Nil
  then show ?case by simp
next
  case (Cons kv es)
  obtain key vals where kv: "kv = (key, vals)" by (cases kv)
  show ?case
  proof (cases "tag_filter_plan_of key vals")
    case Ignore
    with Cons kv show ?thesis by (simp add: tag_filter_matches_def)
  next
    case MatchNothing
    with Cons.prems kv show ?thesis
      by (auto simp: tag_filter_matches_def split: prod.splits)
  next
    case (Values n vs)
    note row = tag_row_exists_indexed [OF assms(1) tag_filter_plan_of_Values [OF Values]]
    have hd: "tag_filter_matches (into_nostr_event e) kv = tag_row_exists rows (er_id e) n vs"
      unfolding row by (simp add: tag_filter_matches_def kv Values into_nostr_event_def)
    show ?thesis
    proof (cases driver)
      case None
      with Cons.prems kv Values have "tag_conditions es (Some (n, vs)) = (cs, d)" by simp
      from Cons.IH [OF this] None hd show ?thesis
        by (auto simp: driver_holds_def opt_all_def)
    next
      case (Some nv)
      obtain cs' where cs': "tag_conditions es driver = (cs', d)" "cs = TagExists n vs # cs'"
        using Cons.prems kv Values Some by (auto split: prod.splits)
      from Cons.IH [OF cs'(1)] cs'(2) hd show ?thesis by auto
    qed
  qed
qed

lemma in_cond_holds:
  "list_all (sql_holds rows e) (in_cond mk xs) \<longleftrightarrow>
     opt_all (\<lambda>ys. ys \<noteq> [] \<and> sql_holds rows e (mk ys)) xs"
  by (auto simp: in_cond_def opt_all_def split: option.split)

lemma small_le_u64_of_f64:
  "t < 9007199254740992 \<Longrightarrow> f64_of_u64 t \<le> x \<longleftrightarrow> t \<le> u64_of_f64 x"
  "t < 9007199254740992 \<Longrightarrow> x \<le> f64_of_u64 t \<longleftrightarrow> u64_of_f64 x \<le> t"
  by (auto simp: f64_of_u64_exact u64_of_f64_def min_def)

lemma small_mem_u64_of_f64:
  assumes "list_all (\<lambda>k. k < 9007199254740992) ks"
  shows "x \<in> set (map f64_of_u64 ks) \<longleftrightarrow> u64_of_f64 x \<in> set ks"
proof -
  have "map f64_of_u64 ks = ks"
    using assms by (auto simp: list_all_iff f64_of_u64_exact intro: map_idI)
  then show ?thesis
    using assms by (auto simp: list_all_iff u64_of_f64_def min_def)
qed

lemma sql_selects_iff_matches:
  assumes "indexed rows e" "small_numbers f"
  shows "sql_selects rows f e \<longleftrightarrow> filter_matches (into_nostr_event e) f"
proof -
  obtain cs d where tc: "tag_conditions (nf_extra f) None = (cs, d)" by force
  have tags: "list_all (sql_holds rows e) cs \<and> driver_holds rows e d \<longleftrightarrow>
      list_all (tag_filter_matches (into_nostr_event e)) (nf_extra f)"
    using tag_conditions_match [OF assms(1) tc] by (simp add: driver_holds_def opt_all_def)
  have kinds: "opt_all (\<lambda>ks. ks \<noteq> [] \<and> er_kind e \<in> set (map f64_of_u64 ks)) (nf_kinds f) \<longleftrightarrow>
      opt_all (\<lambda>ks. u64_of_f64 (er_kind e) \<in> set ks) (nf_kinds f)"
    using assms(2) small_mem_u64_of_f64 [of _ "er_kind e"]
    by (auto simp: small_numbers_def opt_all_def simp del: set_map split: option.splits)
  have strs: "opt_all (\<lambda>xs. xs \<noteq> [] \<and> y \<in> set xs) o' = opt_all (\<lambda>xs. y \<in> set xs) o'" for y and o' :: "string list option"
    by (auto simp: opt_all_def split: option.split)
  have since: "list_all (sql_holds rows e) (case nf_since f of Some t \<Rightarrow> [CreatedGe t] | None \<Rightarrow> []) \<longleftrightarrow>
      opt_all (\<lambda>t. \<not> u64_of_f64 (er_created_at e) < t) (nf_since f)"
    using assms(2) by (auto simp: small_numbers_def opt_all_def small_le_u64_of_f64 not_less split: option.splits)
  have until: "list_all (sql_holds rows e) (case nf_until f of Some t \<Rightarrow> [CreatedLe t] | None \<Rightarrow> []) \<longleftrightarrow>
      opt_all (\<lambda>t. \<not> u64_of_f64 (er_created_at e) > t) (nf_until f)"
    using assms(2) by (auto simp: small_numbers_def opt_all_def small_le_u64_of_f64 not_less split: option.splits)
  have srch: "list_all (sql_holds rows e) (case search_term f of Some t \<Rightarrow> [ContentLike (like_pattern t)] | None \<Rightarrow> []) \<longleftrightarrow>
      opt_all (content_matches_search (er_content e)) (search_term f)"
    by (auto simp: opt_all_def like_matches_search split: option.split)
  have "sql_selects rows f e \<longleftrightarrow>
      list_all (sql_holds rows e) (in_cond IdIn (nf_ids f)) \<and>
      list_all (sql_holds rows e) (in_cond PubkeyIn (nf_authors f)) \<and>
      list_all (sql_holds rows e) (in_cond KindIn (nf_kinds f)) \<and>
      list_all (sql_holds rows e) (case nf_since f of Some t \<Rightarrow> [CreatedGe t] | None \<Rightarrow> []) \<and>
      list_all (sql_holds rows e) (case nf_until f of Some t \<Rightarrow> [CreatedLe t] | None \<Rightarrow> []) \<and>
      list_all (sql_holds rows e) (case search_term f of Some t \<Rightarrow> [ContentLike (like_pattern t)] | None \<Rightarrow> []) \<and>
      (list_all (sql_holds rows e) cs \<and> driver_holds rows e d)"
    by (auto simp: sql_selects_def build_filter_conditions_def tc driver_holds_def opt_all_def
        split: option.split)
  then show ?thesis
    unfolding tags since until srch in_cond_holds sql_holds.simps kinds strs
    by (auto simp: filter_matches_def into_nostr_event_def)
qed

end
