(* ===== verification/Storage.thy ===== *)
theory Storage
  imports Filters Receipts Machine "HOL-Library.Multiset"
begin

text \<open>
  Event storage (\<open>nostr-bbs-relay-worker/src/relay_do/storage.rs\<close>): the \<open>events\<close> table with the
  \<open>event_tags\<close> index its triggers keep, the kind-0 and kind-40 projections, deletion
  (\<open>process_deletion\<close> of \<open>relay_do/nip_handlers.rs\<close>) and the stored read. Every D1 call takes from
  the caller what the network does to it (\<^typ>\<open>net\<close>); a call that never arrives leaves the
  database unchanged, a call whose reply is lost has run.
\<close>

section \<open>NIP-16 treatment\<close>

datatype event_treatment = Regular | Replaceable | Ephemeral | ParameterizedReplaceable

definition treatment_of :: "nat \<Rightarrow> event_treatment" where
  "treatment_of kind =
     (if 20000 \<le> kind \<and> kind < 30000 then Ephemeral
      else if (10000 \<le> kind \<and> kind < 20000) \<or> kind = 0 \<or> kind = 3 then Replaceable
      else if 30000 \<le> kind \<and> kind < 40000 then ParameterizedReplaceable
      else Regular)"

section \<open>Tables and triggers\<close>

record profile_row =
  pf_pubkey :: string
  pf_name :: "string option"
  pf_display_name :: "string option"
  pf_picture :: "string option"
  pf_banner :: "string option"
  pf_about :: "string option"
  pf_nip05 :: "string option"
  pf_lud16 :: "string option"
  pf_last_kind0_at :: nat
  pf_raw_event :: nostr_event

record relay_db =
  rd_events :: "event_row list"
  rd_event_tags :: "tag_row list"
  rd_profiles :: "profile_row list"
  rd_channel_creators :: "(string \<times> string \<times> nat) list"

text \<open>\<open>DELETE FROM events WHERE p\<close> with the delete trigger of migration 0004.\<close>

definition delete_events :: "(event_row \<Rightarrow> bool) \<Rightarrow> relay_db \<Rightarrow> relay_db" where
  "delete_events p db =
     db\<lparr>rd_events := filter (\<lambda>r. \<not> p r) (rd_events db),
        rd_event_tags :=
          filter (\<lambda>t. \<not> list_ex (\<lambda>r. p r \<and> er_id r = fst t) (rd_events db)) (rd_event_tags db)\<rparr>"

text \<open>\<open>INSERT ... ON CONFLICT (id) DO NOTHING\<close> with the insert trigger of \<open>PROBE_BLIND_STMTS\<close>.\<close>

definition insert_event :: "event_row \<Rightarrow> relay_db \<Rightarrow> relay_db" where
  "insert_event row db =
     (if list_ex (\<lambda>r. er_id r = er_id row) (rd_events db) then db
      else db\<lparr>rd_events := rd_events db @ [row],
              rd_event_tags := rd_event_tags db @ trigger_rows (er_id row) (er_tags row)\<rparr>)"

section \<open>Saving an event\<close>

definition row_of :: "nostr_event \<Rightarrow> nat \<Rightarrow> event_row" where
  "row_of e now =
     \<lparr>er_id = ev_id e, er_pubkey = ev_pubkey e, er_created_at = f64_of_u64 (ev_created_at e),
      er_kind = f64_of_u64 (ev_kind e), er_tags = ev_tags e, er_content = ev_content e,
      er_sig = ev_sig e, er_d_tag = d_tag_value (ev_tags e), er_received_at = f64_of_u64 now\<rparr>"

text \<open>The rows a replaceable event displaces: strictly older ones only.\<close>

definition displaced :: "nostr_event \<Rightarrow> event_treatment \<Rightarrow> event_row \<Rightarrow> bool" where
  "displaced e treatment r =
     (case treatment of
        Replaceable \<Rightarrow>
          er_pubkey r = ev_pubkey e \<and> er_kind r = f64_of_u64 (ev_kind e) \<and>
          er_created_at r < f64_of_u64 (ev_created_at e)
      | ParameterizedReplaceable \<Rightarrow>
          er_pubkey r = ev_pubkey e \<and> er_kind r = f64_of_u64 (ev_kind e) \<and>
          er_d_tag r = d_tag_value (ev_tags e) \<and>
          er_created_at r < f64_of_u64 (ev_created_at e)
      | Regular \<Rightarrow> False
      | Ephemeral \<Rightarrow> False)"

text \<open>One D1 call: its effect on the database and whether the caller saw it succeed.\<close>

definition d1_call :: "net \<Rightarrow> (relay_db \<Rightarrow> relay_db) \<Rightarrow> relay_db \<Rightarrow> relay_db \<times> bool" where
  "d1_call n f db =
     (case n of Delivered \<Rightarrow> (f db, True) | RequestLost \<Rightarrow> (db, False) | ReplyLost \<Rightarrow> (f db, False))"

text \<open>
  \<open>upsert_profile\<close>: \<open>content\<close> is what the JSON parser makes of the event's content.
\<close>

definition profile_of :: "nostr_event \<Rightarrow> json \<Rightarrow> profile_row" where
  "profile_of e obj =
     \<lparr>pf_pubkey = ev_pubkey e,
      pf_name = json_str_field ''name'' obj,
      pf_display_name =
        (case json_str_field ''display_name'' obj of
           Some s \<Rightarrow> Some s | None \<Rightarrow> json_str_field ''displayName'' obj),
      pf_picture = json_str_field ''picture'' obj,
      pf_banner = json_str_field ''banner'' obj,
      pf_about = json_str_field ''about'' obj,
      pf_nip05 = json_str_field ''nip05'' obj,
      pf_lud16 = json_str_field ''lud16'' obj,
      pf_last_kind0_at = f64_of_u64 (ev_created_at e),
      pf_raw_event = e\<rparr>"

definition upsert_profile_row :: "profile_row \<Rightarrow> profile_row list \<Rightarrow> profile_row list" where
  "upsert_profile_row p ps =
     (if list_ex (\<lambda>q. pf_pubkey q = pf_pubkey p) ps
      then map (\<lambda>q. if pf_pubkey q = pf_pubkey p \<and> pf_last_kind0_at p \<ge> pf_last_kind0_at q then p else q) ps
      else ps @ [p])"

definition upsert_profile :: "(string \<Rightarrow> json option) \<Rightarrow> nostr_event \<Rightarrow> net \<Rightarrow> relay_db \<Rightarrow> relay_db" where
  "upsert_profile parse e n db =
     (case parse (ev_content e) of
        Some (JObj ms) \<Rightarrow>
          fst (d1_call n (\<lambda>db. db\<lparr>rd_profiles :=
            upsert_profile_row (profile_of e (JObj ms)) (rd_profiles db)\<rparr>) db)
      | _ \<Rightarrow> db)"

definition insert_channel_creator :: "nostr_event \<Rightarrow> relay_db \<Rightarrow> relay_db" where
  "insert_channel_creator e db =
     (if list_ex (\<lambda>r. fst r = ev_id e) (rd_channel_creators db) then db
      else db\<lparr>rd_channel_creators :=
             rd_channel_creators db @ [(ev_id e, ev_pubkey e, f64_of_u64 (ev_created_at e))]\<rparr>)"

text \<open>\<open>save_event\<close>: \<open>n\<close> for the insert (or the delete-and-insert batch), \<open>n'\<close> for the projection.\<close>

definition save_event ::
  "(string \<Rightarrow> json option) \<Rightarrow> nat \<Rightarrow> net \<times> net \<Rightarrow> nostr_event \<Rightarrow> event_treatment \<Rightarrow> relay_db \<Rightarrow> relay_db \<times> bool"
where
  "save_event parse now nets e treatment db =
     (let (db, stored) =
        (case treatment of
           Ephemeral \<Rightarrow> (db, True)
         | Regular \<Rightarrow> d1_call (fst nets) (insert_event (row_of e now)) db
         | _ \<Rightarrow> d1_call (fst nets)
                 (\<lambda>db. insert_event (row_of e now) (delete_events (displaced e treatment) db)) db);
        db = (if stored \<and> ev_kind e = 0 then upsert_profile parse e (snd nets) db else db);
        db = (if stored \<and> ev_kind e = 40
              then fst (d1_call (snd nets) (insert_channel_creator e) db) else db)
      in (db, stored))"

section \<open>Deletion\<close>

definition tag_targets :: "string \<Rightarrow> tag list \<Rightarrow> string list" where
  "tag_targets name tags = map (\<lambda>t. t ! 1) (filter (\<lambda>t. 2 \<le> length t \<and> t ! 0 = name) tags)"

definition delete_by_id :: "nostr_event \<Rightarrow> bool \<Rightarrow> string \<Rightarrow> event_row \<Rightarrow> bool" where
  "delete_by_id del can_delete_any target r \<longleftrightarrow>
     er_id r = target \<and> (can_delete_any \<or> er_pubkey r = ev_pubkey del)"

text \<open>The kind of an \<open>a\<close> reference is a parsed \<open>f64\<close>, compared by the database.\<close>

definition delete_by_ref ::
  "(string \<Rightarrow> 'f option) \<Rightarrow> (nat \<Rightarrow> 'f \<Rightarrow> bool) \<Rightarrow> nostr_event \<Rightarrow> bool \<Rightarrow> string \<Rightarrow> event_row \<Rightarrow> bool"
where
  "delete_by_ref parse_f64 kind_eq del can_delete_any a_ref r =
     (case split_a_ref parse_f64 a_ref of
        None \<Rightarrow> False
      | Some (kind, pubkey, d) \<Rightarrow>
          \<not> (\<not> can_delete_any \<and> pubkey \<noteq> ev_pubkey del) \<and>
          kind_eq (er_kind r) kind \<and> er_pubkey r = pubkey \<and> er_d_tag r = d)"

definition process_deletion ::
  "(string \<Rightarrow> 'f option) \<Rightarrow> (nat \<Rightarrow> 'f \<Rightarrow> bool) \<Rightarrow> (string \<Rightarrow> net) \<Rightarrow> nostr_event \<Rightarrow> bool \<Rightarrow> relay_db \<Rightarrow> relay_db"
where
  "process_deletion parse_f64 kind_eq nets del can_delete_any db =
     fold (\<lambda>a db. fst (d1_call (nets a) (delete_events (delete_by_ref parse_f64 kind_eq del can_delete_any a)) db))
       (tag_targets ''a'' (ev_tags del))
       (fold (\<lambda>i db. fst (d1_call (nets i) (delete_events (delete_by_id del can_delete_any i)) db))
          (tag_targets ''e'' (ev_tags del)) db)"

section \<open>The stored read\<close>

definition MAX_QUERY_LIMIT :: nat where "MAX_QUERY_LIMIT = 1000"
definition MAX_FILTERS :: nat where "MAX_FILTERS = 10"
definition MAX_ROWS_PER_FRAME :: nat where "MAX_ROWS_PER_FRAME = MAX_FILTERS * MAX_QUERY_LIMIT"

definition query_limit :: "nostr_filter \<Rightarrow> nat \<Rightarrow> nat" where
  "query_limit f budget =
     min (min (case nf_limit f of Some l \<Rightarrow> l | None \<Rightarrow> 500) MAX_QUERY_LIMIT) budget"

definition expired :: "nostr_event \<Rightarrow> nat \<Rightarrow> bool" where
  "expired e now =
     (case Option.bind (tag_value (ev_tags e) ''expiration'') parse_u64 of
        Some ts \<Rightarrow> ts < now | None \<Rightarrow> False)"

text \<open>
  \<open>ORDER BY created_at DESC\<close> leaves the order of equal times to the database: \<open>ord\<close> is the order
  it chose. A filter whose query failed contributes nothing (\<open>reach f\<close> is whether it succeeded).
\<close>

fun query_events_from ::
  "(event_row list \<Rightarrow> event_row list) \<Rightarrow> (nostr_filter \<Rightarrow> bool) \<Rightarrow> nat \<Rightarrow> relay_db \<Rightarrow> nat \<Rightarrow> nostr_filter list \<Rightarrow> nostr_event list"
where
  "query_events_from ord reach now db budget [] = []"
| "query_events_from ord reach now db budget (f # fs) =
     (if budget = 0 then []
      else
        (let limit = query_limit f budget;
             rows = (if reach f
                     then take limit (ord (filter (sql_selects (rd_event_tags db) f) (rd_events db)))
                     else [])
         in filter (\<lambda>e. \<not> expired e now) (map into_nostr_event rows)
            @ query_events_from ord reach now db (budget - limit) fs))"

definition query_events ::
  "(event_row list \<Rightarrow> event_row list) \<Rightarrow> (nostr_filter \<Rightarrow> bool) \<Rightarrow> nat \<Rightarrow> relay_db \<Rightarrow> nostr_filter list \<Rightarrow> nostr_event list"
where
  "query_events ord reach now db fs = query_events_from ord reach now db MAX_ROWS_PER_FRAME fs"

section \<open>Channel creators\<close>

text \<open>
  \<open>is_channel_creator\<close>: the first of the two queries that succeeds with a row decides; the events
  table is asked only where the creators table has no row or could not be read.
\<close>

definition creator_matches :: "string \<Rightarrow> string list \<Rightarrow> bool" where
  "creator_matches creator subjects \<longleftrightarrow> creator \<in> set subjects"

definition is_channel_creator :: "bool \<times> bool \<Rightarrow> string list \<Rightarrow> string \<Rightarrow> relay_db \<Rightarrow> bool" where
  "is_channel_creator reach subjects channel_id db =
     (case (if fst reach
            then map_option (\<lambda>r. fst (snd r)) (List.find (\<lambda>r. fst r = channel_id) (rd_channel_creators db))
            else None) of
        Some pk \<Rightarrow> creator_matches pk subjects
      | None \<Rightarrow>
          (case (if snd reach
                 then List.find (\<lambda>r. er_id r = channel_id \<and> er_kind r = 40) (rd_events db)
                 else None) of
             Some r \<Rightarrow> creator_matches (er_pubkey r) subjects
           | None \<Rightarrow> False))"

section \<open>The index invariant\<close>

definition db_indexed :: "relay_db \<Rightarrow> bool" where
  "db_indexed db \<longleftrightarrow>
     distinct (map er_id (rd_events db)) \<and>
     (\<forall>r \<in> set (rd_events db). indexed (rd_event_tags db) r) \<and>
     fst ` set (rd_event_tags db) \<subseteq> er_id ` set (rd_events db)"

definition empty_db :: relay_db where
  "empty_db = \<lparr>rd_events = [], rd_event_tags = [], rd_profiles = [], rd_channel_creators = []\<rparr>"

text \<open>Operations on the store: the relay's writes, deletions, and any purge by condition
  (retention, moderation, administration).\<close>

datatype 'f storage_op =
    SaveOp nat "net \<times> net" nostr_event event_treatment
  | DeletionOp "string \<Rightarrow> net" nostr_event bool
  | PurgeOp net "event_row \<Rightarrow> bool"

fun storage_step ::
  "(string \<Rightarrow> json option) \<Rightarrow> (string \<Rightarrow> 'f option) \<Rightarrow> (nat \<Rightarrow> 'f \<Rightarrow> bool) \<Rightarrow> 'f storage_op \<Rightarrow> relay_db \<Rightarrow> relay_db"
where
  "storage_step parse pf ke (SaveOp now nets e t) db = fst (save_event parse now nets e t db)"
| "storage_step parse pf ke (DeletionOp nets del any) db = process_deletion pf ke nets del any db"
| "storage_step parse pf ke (PurgeOp n p) db = fst (d1_call n (delete_events p) db)"

text \<open>
  What is kept by the elementary writes of the store is kept by every operation.
\<close>

locale kept_by_writes =
  fixes P :: "relay_db \<Rightarrow> bool"
  assumes delete_kept: "P db \<Longrightarrow> P (delete_events p db)"
    and insert_kept: "P db \<Longrightarrow> P (insert_event r db)"
    and profiles_kept: "P db \<Longrightarrow> P (db\<lparr>rd_profiles := ps\<rparr>)"
    and creator_kept: "P db \<Longrightarrow> P (insert_channel_creator e db)"
begin

lemma call_kept: "P db \<Longrightarrow> P (f db) \<Longrightarrow> P (fst (d1_call n f db))"
  by (cases n) (simp_all add: d1_call_def)

lemma profile_kept: "P db \<Longrightarrow> P (upsert_profile parse e n db)"
  unfolding upsert_profile_def
  by (cases "parse (ev_content e)"; cases "the (parse (ev_content e))")
    (simp_all add: call_kept profiles_kept)

lemma save_kept:
  assumes "P db" shows "P (fst (save_event parse now nets e t db))"
proof -
  define r where "r = (case t of
           Ephemeral \<Rightarrow> (db, True)
         | Regular \<Rightarrow> d1_call (fst nets) (insert_event (row_of e now)) db
         | _ \<Rightarrow> d1_call (fst nets)
                 (\<lambda>db. insert_event (row_of e now) (delete_events (displaced e t) db)) db)"
  have "P (fst r)"
    unfolding r_def by (cases t) (simp_all add: assms call_kept insert_kept delete_kept)
  moreover define db1 where "db1 =
      (if snd r \<and> ev_kind e = 0 then upsert_profile parse e (snd nets) (fst r) else fst r)"
  ultimately have "P db1" by (simp add: profile_kept)
  moreover have "fst (save_event parse now nets e t db) =
      (if snd r \<and> ev_kind e = 40 then fst (d1_call (snd nets) (insert_channel_creator e) db1) else db1)"
    unfolding save_event_def db1_def r_def Let_def by (simp only: split_beta fst_conv)
  ultimately show ?thesis by (simp add: call_kept creator_kept)
qed

lemma fold_kept: "P s \<Longrightarrow> (\<And>x s. P s \<Longrightarrow> P (f x s)) \<Longrightarrow> P (fold f xs s)"
  by (induction xs arbitrary: s) simp_all

lemma deletion_kept: "P db \<Longrightarrow> P (process_deletion pf ke nets del any db)"
  unfolding process_deletion_def by (intro fold_kept) (simp_all add: call_kept delete_kept)

lemma step_kept: "P db \<Longrightarrow> P (storage_step parse pf ke op db)"
  by (cases op) (simp_all add: save_kept deletion_kept call_kept delete_kept)

end

sublocale kept_by_writes \<subseteq> invariant_machine "storage_step parse pf ke" P for parse pf ke
  by unfold_locales (rule step_kept)

lemma trigger_rows_fst: "r \<in> set (trigger_rows i tags) \<Longrightarrow> fst r = i"
  by (auto simp: trigger_rows_def)

lemma filter_trigger_rows:
  "filter (\<lambda>r. fst r = j) (trigger_rows i tags) = (if i = j then trigger_rows i tags else [])"
  by (auto intro!: filter_True filter_False dest!: trigger_rows_fst)

lemma insert_event_indexed:
  assumes "db_indexed db" shows "db_indexed (insert_event row db)"
proof (cases "list_ex (\<lambda>r. er_id r = er_id row) (rd_events db)")
  case True
  with assms show ?thesis by (simp add: insert_event_def)
next
  case False
  then have new: "er_id row \<notin> er_id ` set (rd_events db)"
    by (auto simp: list_ex_iff)
  then have none: "filter (\<lambda>r. fst r = er_id row) (rd_event_tags db) = []"
    using assms by (auto simp: db_indexed_def filter_empty_conv)
  have old: "er_id r = er_id row \<Longrightarrow> r \<notin> set (rd_events db)" for r
    using new by (metis image_eqI)
  have keys: "fst ` set (trigger_rows (er_id row) (er_tags row)) \<subseteq> {er_id row}"
    by (auto dest: trigger_rows_fst)
  have "indexed (rd_event_tags db @ trigger_rows (er_id row) (er_tags row)) r"
    if "r \<in> set (rd_events db)" for r
    using that assms old [of r] by (auto simp: db_indexed_def indexed_def filter_trigger_rows)
  moreover have "indexed (rd_event_tags db @ trigger_rows (er_id row) (er_tags row)) row"
    by (simp add: indexed_def filter_trigger_rows none)
  moreover have "fst ` set (rd_event_tags db) \<subseteq> er_id ` set (rd_events db)"
    using assms by (simp add: db_indexed_def)
  ultimately show ?thesis
    using assms False new keys
    by (auto simp: insert_event_def db_indexed_def)
qed

lemma filter_keep:
  "(\<And>x. x \<in> set xs \<Longrightarrow> Q x \<Longrightarrow> P x) \<Longrightarrow> filter Q (filter P xs) = filter Q xs"
  by (induction xs) auto

lemma delete_events_indexed:
  assumes "db_indexed db" shows "db_indexed (delete_events p db)"
proof -
  let ?gone = "\<lambda>t. list_ex (\<lambda>r. p r \<and> er_id r = fst t) (rd_events db)"
  have d: "distinct (map er_id (rd_events db))" using assms by (simp add: db_indexed_def)
  have "indexed (filter (\<lambda>t. \<not> ?gone t) (rd_event_tags db)) r" if r: "r \<in> set (rd_events db)" "\<not> p r" for r
  proof -
    have "r' = r" if "r' \<in> set (rd_events db)" "er_id r' = er_id r" for r'
      using d r that by (auto simp: distinct_map inj_on_def)
    then have "\<not> ?gone t" if "fst t = er_id r" for t :: tag_row
      using r(2) that by (auto simp: list_ex_iff)
    then have "filter (\<lambda>t. fst t = er_id r) (filter (\<lambda>t. \<not> ?gone t) (rd_event_tags db)) =
        filter (\<lambda>t. fst t = er_id r) (rd_event_tags db)"
      by (intro filter_keep) simp
    then show ?thesis
      using assms r(1) unfolding db_indexed_def indexed_def by metis
  qed
  moreover have "distinct (map er_id (filter (\<lambda>r. \<not> p r) (rd_events db)))"
    using d by (simp add: distinct_map_filter)
  moreover have "fst t \<in> er_id ` {r \<in> set (rd_events db). \<not> p r}"
    if t: "t \<in> set (rd_event_tags db)" "\<not> ?gone t" for t
  proof -
    from t(1) assms obtain r where "r \<in> set (rd_events db)" "er_id r = fst t"
      unfolding db_indexed_def by (metis image_iff image_subset_iff)
    moreover from this t(2) have "\<not> p r" by (auto simp: list_ex_iff)
    ultimately show ?thesis by (metis (mono_tags, lifting) image_eqI mem_Collect_eq)
  qed
  ultimately show ?thesis
    by (auto simp: db_indexed_def delete_events_def)
qed

lemma db_indexed_frame [simp]:
  "db_indexed (db\<lparr>rd_profiles := x\<rparr>) = db_indexed db"
  "db_indexed (db\<lparr>rd_channel_creators := y\<rparr>) = db_indexed db"
  by (simp_all add: db_indexed_def)

interpretation index: kept_by_writes db_indexed
  by unfold_locales
    (simp_all add: delete_events_indexed insert_event_indexed insert_channel_creator_def)

lemma empty_db_indexed: "db_indexed empty_db"
  by (simp add: db_indexed_def empty_db_def)

section \<open>What a stored read returns\<close>

text \<open>The database's answer order: a permutation of the selected rows.\<close>

definition is_order :: "(event_row list \<Rightarrow> event_row list) \<Rightarrow> bool" where
  "is_order ord \<longleftrightarrow> (\<forall>xs. mset (ord xs) = mset xs)"

text \<open>No filter of the frame selects more rows than it will be served.\<close>

definition within_limits :: "relay_db \<Rightarrow> nostr_filter list \<Rightarrow> bool" where
  "within_limits db fs \<longleftrightarrow>
     list_all (\<lambda>f. length (filter (sql_selects (rd_event_tags db) f) (rd_events db))
        \<le> query_limit f MAX_QUERY_LIMIT) fs"

definition live_events :: "relay_db \<Rightarrow> nat \<Rightarrow> nostr_filter list \<Rightarrow> nostr_event set" where
  "live_events db now fs =
     {e \<in> into_nostr_event ` set (rd_events db). event_matches_filters e fs \<and> \<not> expired e now}"

lemma query_limit_le: "query_limit f b \<le> MAX_QUERY_LIMIT" "query_limit f b \<le> b"
  by (simp_all add: query_limit_def)

lemma query_limit_enough: "MAX_QUERY_LIMIT \<le> b \<Longrightarrow> query_limit f b = query_limit f MAX_QUERY_LIMIT"
  by (simp add: query_limit_def min_def)

lemma set_order: "is_order ord \<Longrightarrow> set (ord xs) = set xs" "is_order ord \<Longrightarrow> length (ord xs) = length xs"
  unfolding is_order_def by (metis set_mset_mset, metis size_mset)

definition hits :: "relay_db \<Rightarrow> nat \<Rightarrow> nostr_filter \<Rightarrow> nostr_event set" where
  "hits db now f =
     {e. \<exists>r \<in> set (rd_events db). sql_selects (rd_event_tags db) f r \<and> e = into_nostr_event r \<and> \<not> expired e now}"

lemma hits_take:
  assumes "is_order ord"
  shows "set (filter (\<lambda>e. \<not> expired e now) (map into_nostr_event
    (take l (ord (filter (sql_selects (rd_event_tags db) f) (rd_events db)))))) \<subseteq> hits db now f"
proof -
  have "set (take l (ord (filter P xs))) \<subseteq> {r \<in> set xs. P r}" for P :: "event_row \<Rightarrow> bool" and xs
    using set_take_subset [of l "ord (filter P xs)"] set_order(1) [OF assms, of "filter P xs"] by auto
  then show ?thesis by (fastforce simp: hits_def)
qed

lemma hits_all:
  assumes "is_order ord" "length (filter (sql_selects (rd_event_tags db) f) (rd_events db)) \<le> l"
  shows "set (filter (\<lambda>e. \<not> expired e now) (map into_nostr_event
    (take l (ord (filter (sql_selects (rd_event_tags db) f) (rd_events db)))))) = hits db now f"
proof -
  have "take l (ord (filter (sql_selects (rd_event_tags db) f) (rd_events db))) =
      ord (filter (sql_selects (rd_event_tags db) f) (rd_events db))"
    using assms(2) by (simp add: set_order(2) [OF assms(1)])
  then show ?thesis by (auto simp: hits_def set_order(1) [OF assms(1)])
qed

lemma query_events_from_Cons:
  "query_events_from ord reach now db b (f # fs) =
     (if b = 0 then []
      else (if reach f
            then filter (\<lambda>e. \<not> expired e now) (map into_nostr_event
              (take (query_limit f b) (ord (filter (sql_selects (rd_event_tags db) f) (rd_events db)))))
            else [])
        @ query_events_from ord reach now db (b - query_limit f b) fs)"
  by (simp add: Let_def)

lemma query_events_from_sound:
  assumes "is_order ord"
  shows "set (query_events_from ord reach now db b fs) \<subseteq> (\<Union>f \<in> set fs. hits db now f)"
proof (induction fs arbitrary: b)
  case (Cons f fs)
  show ?case
    using Cons.IH [of "b - query_limit f b"] hits_take [OF assms, of now "query_limit f b" db f]
    unfolding query_events_from_Cons
    by (simp del: query_events_from.simps set_map set_filter) blast
qed simp

text \<open>
  The frame's row budget never cuts a frame of at most \<open>MAX_FILTERS\<close> filters short.
\<close>

lemma query_events_from_complete:
  assumes "is_order ord" "\<And>f. reach f" "length fs * MAX_QUERY_LIMIT \<le> b" "within_limits db fs"
  shows "set (query_events_from ord reach now db b fs) = (\<Union>f \<in> set fs. hits db now f)"
  using assms(3,4)
proof (induction fs arbitrary: b)
  case (Cons f fs)
  have b: "MAX_QUERY_LIMIT \<le> b" "b \<noteq> 0" using Cons.prems(1) by (simp_all add: MAX_QUERY_LIMIT_def)
  have l: "length (filter (sql_selects (rd_event_tags db) f) (rd_events db)) \<le> query_limit f b"
    using Cons.prems(2) unfolding query_limit_enough [OF b(1)] by (simp add: within_limits_def)
  have ih: "set (query_events_from ord reach now db (b - query_limit f b) fs) =
      (\<Union>f \<in> set fs. hits db now f)"
  proof (rule Cons.IH)
    show "length fs * MAX_QUERY_LIMIT \<le> b - query_limit f b"
      using Cons.prems(1) query_limit_le(1) [of f b] by simp
    show "within_limits db fs" using Cons.prems(2) by (simp add: within_limits_def)
  qed
  show ?case
    unfolding query_events_from_Cons
    by (simp only: b(2) assms(2) if_True if_False set_append hits_all [OF assms(1) l] ih
        list.set UN_insert)
qed simp

lemma selected_are_live:
  assumes "db_indexed db" "list_all small_numbers fs"
  shows "(\<Union>f \<in> set fs. hits db now f) = live_events db now fs"
proof -
  have "hits db now f =
      {e \<in> into_nostr_event ` set (rd_events db). filter_matches e f \<and> \<not> expired e now}"
    if f: "f \<in> set fs" for f
  proof -
    have sf: "small_numbers f" using assms(2) f unfolding list_all_iff by (rule bspec)
    have "sql_selects (rd_event_tags db) f r = filter_matches (into_nostr_event r) f"
      if "r \<in> set (rd_events db)" for r
      by (rule sql_selects_iff_matches [OF _ sf]) (use assms(1) that in \<open>simp add: db_indexed_def\<close>)
    then show ?thesis unfolding hits_def by blast
  qed
  then show ?thesis
    unfolding live_events_def event_matches_filters_def list_ex_iff by blast
qed

text \<open>C12. A stored read and a live broadcast cannot disagree about a filter. After any sequence of
  writes, deletions and purges on an empty store, whatever the network did to each call, every
  event a REQ or COUNT frame reads back matches the frame's filters as the in-memory matcher of
  the live path decides it (and is not expired); and when no filter selects more rows than its
  limit and every query succeeds, the frame reads back exactly the stored events the live path
  would match, the frame-wide row budget never cutting a frame of at most \<open>MAX_FILTERS\<close>
  filters. The filter's numbers must be below 2^53, where \<open>f64\<close> is exact; the database may
  order rows of equal time as it likes.\<close>

theorem stored_read_is_live_match:
  assumes "is_order ord" "list_all small_numbers fs"
    and "db = run (storage_step parse pf ke) ops empty_db"
  shows "set (query_events ord reach now db fs) \<subseteq> live_events db now fs \<and>
    ((\<forall>f. reach f) \<and> length fs \<le> MAX_FILTERS \<and> within_limits db fs \<longrightarrow>
      set (query_events ord reach now db fs) = live_events db now fs)"
proof -
  have ix: "db_indexed db"
    unfolding assms(3) by (rule index.run_inv [OF empty_db_indexed])
  have "set (query_events ord reach now db fs) \<subseteq> live_events db now fs"
    unfolding query_events_def selected_are_live [OF ix assms(2), symmetric]
    by (rule query_events_from_sound [OF assms(1)])
  moreover have "set (query_events ord reach now db fs) = live_events db now fs"
    if "\<forall>f. reach f" "length fs \<le> MAX_FILTERS" "within_limits db fs"
    unfolding query_events_def selected_are_live [OF ix assms(2), symmetric]
    using that
    by (intro query_events_from_complete [OF assms(1)]) (simp_all add: MAX_ROWS_PER_FRAME_def)
  ultimately show ?thesis by blast
qed

definition sample_stored :: nostr_event where
  "sample_stored = \<lparr>ev_id = ''a1'', ev_pubkey = ''alice'', ev_created_at = 90, ev_kind = 1,
     ev_tags = [[''t'', ''news''], [''probe'', ''x''], [''e'']], ev_content = ''Hello 100%'', ev_sig = ''s''\<rparr>"

definition sample_filter :: nostr_filter where
  "sample_filter = \<lparr>nf_ids = None, nf_authors = None, nf_kinds = Some [1], nf_since = Some 10,
     nf_until = None, nf_limit = None, nf_search = Some ''100%'', nf_extra = [(''#t'', JArr [JStr ''news''])]\<rparr>"

definition sample_store :: relay_db where
  "sample_store = run (storage_step (\<lambda>s. None) (\<lambda>s. None) (\<lambda>k f :: unit. False))
     [SaveOp 95 (Delivered, Delivered) sample_stored Regular,
      PurgeOp RequestLost (\<lambda>r. True)] empty_db"

lemma sample_store_eq:
  "sample_store = \<lparr>rd_events = [row_of sample_stored 95],
     rd_event_tags = [(''a1'', ''t'', ''news''), (''a1'', ''e'', [])], rd_profiles = [], rd_channel_creators = []\<rparr>"
  by (simp add: sample_store_def save_event_def d1_call_def insert_event_def empty_db_def
      row_of_def sample_stored_def trigger_rows_def)

lemma sample_within: "within_limits sample_store [sample_filter]"
proof -
  have "length (filter P (rd_events sample_store)) \<le> 1" for P
    unfolding sample_store_eq by simp
  then have "length (filter P (rd_events sample_store)) \<le> query_limit sample_filter MAX_QUERY_LIMIT" for P
    by (rule order_trans) (simp add: query_limit_def sample_filter_def MAX_QUERY_LIMIT_def)
  then show ?thesis by (simp add: within_limits_def)
qed

lemma sample_live: "sample_stored \<in> live_events sample_store 100 [sample_filter]"
  by (simp add: live_events_def sample_store_eq into_nostr_event_def row_of_def sample_stored_def
      f64_of_u64_exact u64_of_f64_def event_matches_filters_def filter_matches_def sample_filter_def
      opt_all_def search_term_def content_matches_search_def tag_filter_matches_def tag_filter_plan_of_def
      is_tag_name_byte_def is_ascii_alphanumeric_def is_ascii_digit_def code_of_def nonempty_strings_def
      json_as_array_def json_as_str_def List.map_filter_def get_at_def expired_def tag_value_def
      ascii_lower_def ascii_lower_char_def starts_with_def)

theorem stored_read_is_live_match_witness:
  "sample_stored \<in> set (query_events (\<lambda>rows. rows) (\<lambda>f. True) 100 sample_store [sample_filter]) \<and>
   set (query_events (\<lambda>rows. rows) (\<lambda>f. True) 100 sample_store [sample_filter])
     = live_events sample_store 100 [sample_filter]"
proof -
  have "set (query_events (\<lambda>rows. rows) (\<lambda>f. True) 100 sample_store [sample_filter])
      = live_events sample_store 100 [sample_filter]"
    using stored_read_is_live_match [where ord = "\<lambda>rows. rows" and fs = "[sample_filter]",
        OF _ _ sample_store_def, where now = 100 and reach = "\<lambda>f. True"] sample_within
    by (simp add: is_order_def small_numbers_def sample_filter_def opt_all_def MAX_FILTERS_def)
  then show ?thesis using sample_live by simp
qed

section \<open>What a save and a deletion do to the rows\<close>

definition stores :: "event_treatment \<Rightarrow> bool" where
  "stores t \<longleftrightarrow> t \<noteq> Ephemeral"

lemma insert_event_rows:
  "set (rd_events (insert_event row db)) = set (rd_events db) \<union>
     (if er_id row \<in> er_id ` set (rd_events db) then {} else {row})"
proof -
  have "list_ex (\<lambda>r. er_id r = er_id row) (rd_events db) \<longleftrightarrow> er_id row \<in> er_id ` set (rd_events db)"
    unfolding list_ex_iff image_iff by (metis (full_types))
  then show ?thesis by (simp add: insert_event_def)
qed

lemma delete_events_rows: "set (rd_events (delete_events p db)) = {r \<in> set (rd_events db). \<not> p r}"
  by (auto simp: delete_events_def)

lemma displaced_none: "displaced e Regular r = False" "displaced e Ephemeral r = False"
  by (simp_all add: displaced_def)

lemma upsert_profile_events [simp]: "rd_events (upsert_profile parse e n db) = rd_events db"
  by (cases n) (auto simp: upsert_profile_def d1_call_def split: option.split json.split)

lemma creator_call_events [simp]:
  "rd_events (fst (d1_call n (insert_channel_creator e) db)) = rd_events db"
  by (cases n) (simp_all add: d1_call_def insert_channel_creator_def)

lemma save_event_events:
  "rd_events (fst (save_event parse now (k, n) e t db)) =
     rd_events (fst (case t of
           Ephemeral \<Rightarrow> (db, True)
         | Regular \<Rightarrow> d1_call k (insert_event (row_of e now)) db
         | _ \<Rightarrow> d1_call k (\<lambda>db. insert_event (row_of e now) (delete_events (displaced e t) db)) db))"
  unfolding save_event_def Let_def by (simp only: split_beta fst_conv snd_conv) simp

lemma save_event_rows:
  "set (rd_events (fst (save_event parse now (Delivered, n) e t db))) =
     {r \<in> set (rd_events db). \<not> displaced e t r} \<union>
     (if stores t \<and> ev_id e \<notin> er_id ` {r \<in> set (rd_events db). \<not> displaced e t r}
      then {row_of e now} else {})"
proof -
  have "er_id (row_of e now) = ev_id e" by (simp add: row_of_def)
  then show ?thesis
    unfolding save_event_events
    by (cases t) (simp_all add: d1_call_def insert_event_rows delete_events_rows
        displaced_none stores_def)
qed

text \<open>What a delivered save leaves in the table, row by row: every row it had that the event does
  not displace, and the event itself unless it is ephemeral or its id is already held. A
  replaceable event displaces the rows of its author and kind (and d tag, if parameterized)
  that are strictly older, and nothing else.\<close>

theorem save_event_rows_iff:
  "r \<in> set (rd_events (fst (save_event parse now (Delivered, n) e (treatment_of (ev_kind e)) db))) \<longleftrightarrow>
     (r \<in> set (rd_events db) \<and> \<not> displaced e (treatment_of (ev_kind e)) r) \<or>
     (r = row_of e now \<and> stores (treatment_of (ev_kind e)) \<and>
      ev_id e \<notin> er_id ` {r \<in> set (rd_events db). \<not> displaced e (treatment_of (ev_kind e)) r})"
  unfolding save_event_rows by auto

text \<open>A replaceable event that arrives after a newer one of its author and kind is stored beside
  it, and so is one of the same second: the save removes only strictly older rows and never
  compares the arriving event with what is held, so a subscription then sees both versions.\<close>

theorem stale_replaceable_coexists:
  assumes "treatment_of (ev_kind e) = Replaceable"
    and "r \<in> set (rd_events db)" "er_pubkey r = ev_pubkey e" "er_kind r = f64_of_u64 (ev_kind e)"
    and "f64_of_u64 (ev_created_at e) \<le> er_created_at r"
    and "ev_id e \<notin> er_id ` set (rd_events db)"
  shows "{r, row_of e now} \<subseteq>
    set (rd_events (fst (save_event parse now (Delivered, n) e (treatment_of (ev_kind e)) db)))"
  using assms unfolding save_event_rows by (auto simp: displaced_def stores_def)

definition sample_profile :: "string \<Rightarrow> nat \<Rightarrow> nostr_event" where
  "sample_profile i t = \<lparr>ev_id = i, ev_pubkey = ''alice'', ev_created_at = t, ev_kind = 0,
     ev_tags = [], ev_content = ''{}'', ev_sig = ''s''\<rparr>"

theorem stale_replaceable_coexists_witness:
  "{row_of (sample_profile ''new'' 200) 201, row_of (sample_profile ''old'' 100) 202} \<subseteq>
    set (rd_events (fst (save_event (\<lambda>s. None) 202 (Delivered, Delivered) (sample_profile ''old'' 100)
      Replaceable (empty_db\<lparr>rd_events := [row_of (sample_profile ''new'' 200) 201]\<rparr>))))"
proof -
  let ?old = "sample_profile ''old'' 100" and ?r = "row_of (sample_profile ''new'' 200) 201"
  let ?db = "empty_db\<lparr>rd_events := [?r]\<rparr>"
  have t: "treatment_of (ev_kind ?old) = Replaceable"
    by (simp add: treatment_of_def sample_profile_def)
  have r: "er_pubkey ?r = ev_pubkey ?old" "er_kind ?r = f64_of_u64 (ev_kind ?old)"
    by (simp_all add: row_of_def sample_profile_def)
  have le: "f64_of_u64 (ev_created_at ?old) \<le> er_created_at ?r"
    by (simp add: row_of_def sample_profile_def f64_of_u64_exact)
  have "?r \<in> set (rd_events ?db)" "ev_id ?old \<notin> er_id ` set (rd_events ?db)"
    by (simp_all add: row_of_def sample_profile_def)
  from stale_replaceable_coexists [OF t this(1) r le this(2), of 202 "\<lambda>s. None" Delivered]
  show ?thesis unfolding t .
qed

lemma fold_delete_rows:
  "set (rd_events (fold (\<lambda>x db. fst (d1_call Delivered (delete_events (p x)) db)) xs db)) =
     {r \<in> set (rd_events db). \<not> (\<exists>x \<in> set xs. p x r)}"
  by (induction xs arbitrary: db) (auto simp: d1_call_def delete_events_rows)

text \<open>C13. What a deletion event deletes, exactly: the rows it names by an \<open>e\<close> tag's id, or by an
  \<open>a\<close> tag's kind, author and d tag (which may contain colons), and of those, unless the deleter
  holds the delete-any privilege, only rows of the deletion's own author.\<close>

theorem process_deletion_exact:
  "r \<in> set (rd_events (process_deletion pf ke (\<lambda>t. Delivered) del any db)) \<longleftrightarrow>
     r \<in> set (rd_events db) \<and>
     \<not> ((any \<or> er_pubkey r = ev_pubkey del) \<and>
        (er_id r \<in> set (tag_targets ''e'' (ev_tags del)) \<or>
         (\<exists>a \<in> set (tag_targets ''a'' (ev_tags del)). \<exists>k.
            split_a_ref pf a = Some (k, er_pubkey r, er_d_tag r) \<and> ke (er_kind r) k)))"
  unfolding process_deletion_def fold_delete_rows
  by (auto simp: delete_by_id_def delete_by_ref_def split: option.splits)

section \<open>A creator's rights survive deletion\<close>

definition recorded_creator :: "string \<Rightarrow> relay_db \<Rightarrow> string option" where
  "recorded_creator c db =
     map_option (\<lambda>r. fst (snd r)) (List.find (\<lambda>r. fst r = c) (rd_channel_creators db))"

lemma find_append_some: "List.find P xs = Some y \<Longrightarrow> List.find P (xs @ ys) = Some y"
  by (induction xs) auto

lemma recorded_creator_frame [simp]:
  "recorded_creator c (delete_events p db) = recorded_creator c db"
  "recorded_creator c (insert_event r db) = recorded_creator c db"
  "recorded_creator c (db\<lparr>rd_profiles := ps\<rparr>) = recorded_creator c db"
  by (simp_all add: recorded_creator_def delete_events_def insert_event_def)

lemma recorded_creator_insert:
  "recorded_creator c db = Some pk \<Longrightarrow> recorded_creator c (insert_channel_creator e db) = Some pk"
  by (auto simp: recorded_creator_def insert_channel_creator_def dest: find_append_some)

interpretation creator: kept_by_writes "\<lambda>db. recorded_creator c db = Some pk" for c pk
  by unfold_locales (simp_all add: recorded_creator_insert)

lemma is_channel_creator_recorded:
  "recorded_creator c db = Some pk \<Longrightarrow>
   is_channel_creator (True, b) subjects c db = creator_matches pk subjects"
  unfolding is_channel_creator_def recorded_creator_def
  by (simp only: fst_conv if_True option.case)

text \<open>C14. Once a channel's creator is recorded, whatever is saved, deleted or purged afterwards, the
  same key and no other is the channel's creator: a deletion of the kind-40 event cannot strip
  the creator's rights, and a second kind-40 with the same id cannot take them over.\<close>

theorem creator_rights_survive:
  assumes "recorded_creator c db = Some pk"
  shows "is_channel_creator (True, b) subjects c (run (storage_step parse pf ke) ops db) \<longleftrightarrow>
    pk \<in> set subjects"
  using is_channel_creator_recorded [OF creator.run_inv [OF assms]]
  by (simp add: creator_matches_def)

theorem creator_rights_survive_witness:
  "is_channel_creator (True, True) [''device'', ''alice''] ''chan''
     (run (storage_step (\<lambda>s. None) (\<lambda>s. None) (\<lambda>k f :: unit. False))
        [PurgeOp Delivered (\<lambda>r. True)] (empty_db\<lparr>rd_channel_creators := [(''chan'', ''alice'', 5)]\<rparr>))"
  using creator_rights_survive [where c = "''chan''" and pk = "''alice''" and b = True
      and db = "empty_db\<lparr>rd_channel_creators := [(''chan'', ''alice'', 5)]\<rparr>"
      and subjects = "[''device'', ''alice'']"
      and ops = "[PurgeOp Delivered (\<lambda>r. True)]" and ke = "\<lambda>k f :: unit. False"]
  by (simp add: recorded_creator_def)

end
