(* ===== verification/Access.thy ===== *)
theory Access
  imports Storage
begin

text \<open>
  Who may read what: the zones of \<open>nostr-bbs-relay-worker/src/zone_config.rs\<close>, the NIP-42 rules of
  \<open>relay_do/nip42.rs\<close>, the tiered calendar projection of \<open>relay_do/calendar_projection.rs\<close> and the
  per-event read gate \<open>authorize_event\<close> of \<open>relay_do/nip_handlers.rs\<close>, shared by REQ, COUNT and the
  live broadcast (\<open>relay_do/broadcast.rs\<close>).

  What a decision reads from D1 or the environment is a field of \<open>read_env\<close>: a lookup answers a
  row, no row, or is unreachable, and each reader's treatment of the last is the code's.
\<close>

section \<open>Zones\<close>

datatype zone_visibility = Public | Locked | Hidden

record zone =
  zo_id :: string
  zo_required_cohorts :: "string list"
  zo_write_cohorts :: "string list option"
  zo_visibility :: zone_visibility
  zo_encrypted :: bool

definition effective_write_cohorts :: "zone \<Rightarrow> string list" where
  "effective_write_cohorts z =
     (case zo_write_cohorts z of Some w \<Rightarrow> w | None \<Rightarrow> zo_required_cohorts z)"

record zone_config =
  zc_zones :: "zone list"
  zc_encryption_enabled :: bool

definition zone_get :: "zone_config \<Rightarrow> string \<Rightarrow> zone option" where
  "zone_get c i = List.find (\<lambda>z. zo_id z = i) (zc_zones c)"

definition is_public_read :: "zone_config \<Rightarrow> string \<Rightarrow> bool" where
  "is_public_read c i =
     (case zone_get c i of
        Some z \<Rightarrow> zo_visibility z = Public \<and> zo_required_cohorts z = [] | None \<Rightarrow> False)"

definition is_encrypted :: "zone_config \<Rightarrow> string \<Rightarrow> bool" where
  "is_encrypted c i \<longleftrightarrow>
     zc_encryption_enabled c \<and>
     (case zone_get c i of Some z \<Rightarrow> zo_encrypted z \<and> \<not> is_public_read c i | None \<Rightarrow> False)"

definition defs_visible_to_nonmember :: "zone_config \<Rightarrow> string \<Rightarrow> bool" where
  "defs_visible_to_nonmember c i =
     (case zone_get c i of Some z \<Rightarrow> zo_visibility z \<noteq> Hidden | None \<Rightarrow> False)"

definition cohorts_can_read :: "zone_config \<Rightarrow> string \<Rightarrow> string list \<Rightarrow> bool" where
  "cohorts_can_read c i cohorts =
     (case zone_get c i of
        None \<Rightarrow> False
      | Some z \<Rightarrow>
          if zo_required_cohorts z = [] then zo_visibility z = Public
          else list_ex (\<lambda>x. x \<in> set (zo_required_cohorts z)) cohorts)"

definition cohorts_can_write :: "zone_config \<Rightarrow> string \<Rightarrow> string list \<Rightarrow> bool" where
  "cohorts_can_write c i cohorts =
     (case zone_get c i of
        None \<Rightarrow> False
      | Some z \<Rightarrow>
          if effective_write_cohorts z = [] then False
          else list_ex (\<lambda>x. x \<in> set (effective_write_cohorts z)) cohorts)"

definition encryption_flag :: "string \<Rightarrow> bool" where
  "encryption_flag raw \<longleftrightarrow> trimmed_scalars raw = map code_of ''true''"

text \<open>
  \<open>ZoneConfig::load\<close>: \<open>parse\<close> is the JSON decoding of the zone array (the serde derive of \<open>Zone\<close>);
  each variable may be unset.
\<close>

definition load_zones ::
  "(string \<Rightarrow> zone list option) \<Rightarrow> string option \<Rightarrow> string option \<Rightarrow> zone_config"
where
  "load_zones parse encryption_var zone_var =
     (let none = \<lparr>zc_zones = [], zc_encryption_enabled = False\<rparr> in
      case zone_var of
        None \<Rightarrow> none
      | Some raw \<Rightarrow>
          if trimmed_scalars raw = [] then none
          else \<lparr>zc_zones = (case parse raw of Some zs \<Rightarrow> zs | None \<Rightarrow> []),
                zc_encryption_enabled =
                  (case encryption_var of Some v \<Rightarrow> encryption_flag v | None \<Rightarrow> False)\<rparr>)"

text \<open>\<open>is_zone_ciphertext\<close>: \<open>b64\<close> is the base64 decoder.\<close>

definition is_zone_ciphertext ::
  "(string \<Rightarrow> nat list option) \<Rightarrow> string \<Rightarrow> tag list \<Rightarrow> string \<Rightarrow> bool"
where
  "is_zone_ciphertext b64 zone tags content \<longleftrightarrow>
     list_ex (\<lambda>t. 4 \<le> length t \<and> t ! 0 = ''zk'' \<and> t ! 1 = zone \<and>
        (case parse_u32 (t ! 2) of Some e \<Rightarrow> e \<ge> 1 | None \<Rightarrow> False) \<and> is_hex64 (t ! 3)) tags \<and>
     \<not> (length content < 132 \<or> length content > 87472) \<and>
     (case b64 content of Some bytes \<Rightarrow> length bytes \<ge> 99 \<and> bytes ! 0 = 2 | None \<Rightarrow> False)"

section \<open>NIP-42\<close>

datatype auth_mode = Allowlist | Nip42

definition lower_scalar :: "nat \<Rightarrow> nat" where
  "lower_scalar u = (if 65 \<le> u \<and> u \<le> 90 then u + 32 else u)"

definition parse_auth_mode :: "string option \<Rightarrow> auth_mode" where
  "parse_auth_mode raw =
     (case raw of
        Some s \<Rightarrow>
          if map lower_scalar (trimmed_scalars s) = map code_of ''allowlist'' then Allowlist else Nip42
      | None \<Rightarrow> Nip42)"

definition PROTECTED_READ_KINDS :: "nat list" where
  "PROTECTED_READ_KINDS = [4, 13, 14, 1059, 30910, 30911, 30912, 30913, 30914, 30915, 30916]"

definition is_protected_read_kind :: "nat \<Rightarrow> bool" where
  "is_protected_read_kind kind \<longleftrightarrow> kind \<in> set PROTECTED_READ_KINDS"

definition is_correspondence_kind :: "nat \<Rightarrow> bool" where
  "is_correspondence_kind kind \<longleftrightarrow> kind = 4 \<or> kind = 13 \<or> kind = 14 \<or> kind = 1059"

definition protected_read_permitted ::
  "nat \<Rightarrow> string \<Rightarrow> string list \<Rightarrow> string option \<Rightarrow> auth_mode \<Rightarrow> bool"
where
  "protected_read_permitted kind author recipients session_pubkey mode =
     (if \<not> is_protected_read_kind kind then True
      else if is_correspondence_kind kind then
        (case session_pubkey of
           None \<Rightarrow> False
         | Some viewer \<Rightarrow>
             eq_ignore_ascii_case viewer author \<or>
             list_ex (\<lambda>r. eq_ignore_ascii_case r viewer) recipients)
      else mode \<noteq> Nip42 \<or> session_pubkey \<noteq> None)"

definition write_auth_ok :: "auth_mode \<Rightarrow> bool \<Rightarrow> bool" where
  "write_auth_ok mode session_authed \<longleftrightarrow> \<not> (mode = Nip42 \<and> \<not> session_authed)"

definition protected_read_blocked :: "nostr_filter list \<Rightarrow> bool \<Rightarrow> auth_mode \<Rightarrow> bool" where
  "protected_read_blocked fs session_authed mode =
     (if mode \<noteq> Nip42 \<or> session_authed then False
      else list_ex (\<lambda>f. case nf_kinds f of
             Some ks \<Rightarrow> list_ex is_protected_read_kind ks | None \<Rightarrow> False) fs)"

definition allowlist_denial_reason :: "auth_mode \<Rightarrow> bool \<Rightarrow> string" where
  "allowlist_denial_reason mode session_authed =
     (if mode = Nip42 \<and> session_authed then ''restricted: pubkey not in allowlist''
      else ''blocked: pubkey not whitelisted'')"

text \<open>A relay URL in canonical form, as its scalars.\<close>

fun strip_scalars :: "nat list \<Rightarrow> nat list \<Rightarrow> nat list option" where
  "strip_scalars [] s = Some s"
| "strip_scalars (p # ps) [] = None"
| "strip_scalars (p # ps) (c # cs) = (if p = c then strip_scalars ps cs else None)"

definition canonical_relay_url :: "string \<Rightarrow> nat list" where
  "canonical_relay_url u =
     (let lower = map lower_scalar (trimmed_scalars u);
          strip = (\<lambda>p. strip_scalars (map code_of p) lower);
          no_scheme =
            (case strip ''wss://'' of Some r \<Rightarrow> r | None \<Rightarrow>
            (case strip ''ws://'' of Some r \<Rightarrow> r | None \<Rightarrow>
            (case strip ''https://'' of Some r \<Rightarrow> r | None \<Rightarrow>
            (case strip ''http://'' of Some r \<Rightarrow> r | None \<Rightarrow> lower))))
      in rev (dropWhile (\<lambda>u. u = code_of (CHR ''/'')) (rev no_scheme)))"

definition relay_urls_match :: "string \<Rightarrow> string \<Rightarrow> bool" where
  "relay_urls_match a b \<longleftrightarrow> canonical_relay_url a = canonical_relay_url b"

datatype auth_verdict = AuthOk string | AuthRejected string

definition KIND_AUTH :: nat where "KIND_AUTH = 22242"
definition AUTH_MAX_SKEW_SECS :: nat where "AUTH_MAX_SKEW_SECS = 600"

definition abs_diff :: "nat \<Rightarrow> nat \<Rightarrow> nat" where
  "abs_diff a b = (if a \<le> b then b - a else a - b)"

text \<open>\<open>verify\<close> is the strict id and Schnorr signature check of the core crate's key library.\<close>

definition evaluate_auth_event ::
  "(nostr_event \<Rightarrow> bool) \<Rightarrow> nostr_event \<Rightarrow> string option \<Rightarrow> string option \<Rightarrow> nat \<Rightarrow> nat \<Rightarrow> auth_verdict"
where
  "evaluate_auth_event verify e expected_challenge own_relay_url now max_skew =
     (let age = (if abs_diff now (ev_created_at e) > max_skew
                 then AuthRejected ''invalid: auth event too old'' else AuthOk (ev_pubkey e)) in
      if ev_kind e \<noteq> KIND_AUTH then AuthRejected ''invalid: expected kind 22242''
      else if \<not> verify e then AuthRejected ''invalid: signature verification failed''
      else if \<not> (tag_value (ev_tags e) ''challenge'' \<noteq> None \<and>
                 tag_value (ev_tags e) ''challenge'' = expected_challenge)
      then AuthRejected ''invalid: challenge mismatch''
      else
        (case own_relay_url of
           None \<Rightarrow> age
         | Some own \<Rightarrow>
             if trimmed_scalars own = [] then age
             else
               (case tag_value (ev_tags e) ''relay'' of
                  Some claimed \<Rightarrow>
                    if relay_urls_match claimed own then age
                    else AuthRejected ''invalid: relay url mismatch''
                | None \<Rightarrow> AuthRejected ''invalid: missing relay tag'')))"

section \<open>The calendar projection\<close>

datatype projection = Full | FreeBusy | Omit

definition is_known_venue :: "string \<Rightarrow> bool" where
  "is_known_venue v \<longleftrightarrow> v = ''primary'' \<or> v = ''secondary''"

definition read_zone_tag :: "nostr_event \<Rightarrow> string option" where
  "read_zone_tag e = tag_value (ev_tags e) ''zone''"

definition read_venue_tag :: "nostr_event \<Rightarrow> string option" where
  "read_venue_tag e = tag_value (ev_tags e) ''venue''"

definition project_tier ::
  "string list \<Rightarrow> string \<Rightarrow> string option \<Rightarrow> bool \<Rightarrow> bool \<Rightarrow> projection"
where
  "project_tier cohorts event_zone venue is_owner is_admin =
     (let shared = (case venue of Some v \<Rightarrow> is_known_venue v | None \<Rightarrow> False) in
      if is_owner \<or> is_admin then Full
      else if ''admin'' \<in> set cohorts then Full
      else if ''family'' \<in> set cohorts then Full
      else if ''friends'' \<in> set cohorts then
        (if event_zone = ''friends'' then Full
         else if event_zone = ''family'' \<or> event_zone = ''business'' then
           (if shared then FreeBusy else Omit)
         else if event_zone = ''public'' then Full
         else Omit)
      else if ''business'' \<in> set cohorts then
        (if event_zone = ''business'' then Full
         else if event_zone = ''family'' \<or> event_zone = ''friends'' then Omit
         else if event_zone = ''public'' then Full
         else Omit)
      else if event_zone = ''public'' then Full else Omit)"

text \<open>\<open>to_free_busy\<close> of the core crate: the first tag of each kept name, no content, no signature.\<close>

definition to_free_busy :: "nostr_event \<Rightarrow> nostr_event" where
  "to_free_busy e =
     e\<lparr>ev_tags :=
         List.map_filter (\<lambda>n. List.find (\<lambda>t. 2 \<le> length t \<and> t ! 0 = n) (ev_tags e))
           [''d'', ''start'', ''end'', ''zone'', ''venue'']
         @ [[''busy'', ''1'']],
       ev_content := [], ev_sig := []\<rparr>"

definition project_calendar_event ::
  "string list \<Rightarrow> nostr_event \<Rightarrow> bool \<Rightarrow> bool \<Rightarrow> nostr_event option"
where
  "project_calendar_event cohorts e is_owner is_admin =
     (case read_zone_tag e of
        None \<Rightarrow> Some e
      | Some zone \<Rightarrow>
          (case project_tier cohorts zone (read_venue_tag e) is_owner is_admin of
             Full \<Rightarrow> Some e | FreeBusy \<Rightarrow> Some (to_free_busy e) | Omit \<Rightarrow> None))"

definition is_projected_calendar_kind :: "nat \<Rightarrow> bool" where
  "is_projected_calendar_kind kind \<longleftrightarrow> kind = 31922 \<or> kind = 31923 \<or> kind = 31925"

definition is_kanban_kind :: "nat \<Rightarrow> bool" where
  "is_kanban_kind kind \<longleftrightarrow> kind = 30301 \<or> kind = 30302"

section \<open>The viewer\<close>

datatype 'a d1_reply = Unreachable | NoRow | Row 'a

record read_env =
  re_zones :: zone_config
  re_mode :: auth_mode
  re_devices_enabled :: bool
  re_owner :: "string \<Rightarrow> string d1_reply"
  re_admin :: "string \<Rightarrow> bool"
  re_cohorts :: "string \<Rightarrow> (string list \<times> bool) d1_reply"
  re_channel_zone :: "string \<Rightarrow> string d1_reply"
  re_event_tags :: "string \<Rightarrow> tag list d1_reply"

definition effective_principal :: "string \<Rightarrow> string option \<Rightarrow> bool \<Rightarrow> string" where
  "effective_principal pubkey device_owner enabled =
     (if enabled then (case device_owner of Some owner \<Rightarrow> owner | None \<Rightarrow> pubkey) else pubkey)"

definition device_owner :: "read_env \<Rightarrow> string \<Rightarrow> string option" where
  "device_owner env pubkey = (case re_owner env pubkey of Row o' \<Rightarrow> Some o' | _ \<Rightarrow> None)"

definition effective_pubkey :: "read_env \<Rightarrow> string \<Rightarrow> string" where
  "effective_pubkey env pubkey =
     (if \<not> re_devices_enabled env then pubkey
      else effective_principal pubkey (device_owner env pubkey) True)"

definition whitelist_cohorts :: "read_env \<Rightarrow> string \<Rightarrow> string list \<times> bool" where
  "whitelist_cohorts env pubkey = (case re_cohorts env pubkey of Row r \<Rightarrow> r | _ \<Rightarrow> ([], False))"

definition get_channel_zone :: "read_env \<Rightarrow> string \<Rightarrow> string option" where
  "get_channel_zone env c = (case re_channel_zone env c of Row z \<Rightarrow> Some z | _ \<Rightarrow> None)"

definition has_zone_write_access :: "read_env \<Rightarrow> string \<Rightarrow> string \<Rightarrow> bool" where
  "has_zone_write_access env pubkey zone =
     (case whitelist_cohorts env pubkey of
        (cohorts, is_admin) \<Rightarrow> is_admin \<or> cohorts_can_write (re_zones env) zone cohorts)"

record viewer_context =
  vc_session_pubkey :: "string option"
  vc_access_pubkey :: "string option"
  vc_is_admin :: bool
  vc_cohorts :: "string list"
  vc_viewer_is_admin :: bool

definition resolve_viewer_context :: "read_env \<Rightarrow> string option \<Rightarrow> viewer_context" where
  "resolve_viewer_context env session_pubkey =
     (let access = map_option (effective_pubkey env) session_pubkey;
          is_admin = (case access of Some pk \<Rightarrow> re_admin env pk | None \<Rightarrow> False);
          (cohorts, cohort_admin) =
            (case access of Some pk \<Rightarrow> whitelist_cohorts env pk | None \<Rightarrow> ([], False))
      in \<lparr>vc_session_pubkey = session_pubkey, vc_access_pubkey = access, vc_is_admin = is_admin,
          vc_cohorts = cohorts, vc_viewer_is_admin = is_admin \<or> cohort_admin\<rparr>)"

definition zone_read_permitted :: "zone_config \<Rightarrow> string \<Rightarrow> viewer_context \<Rightarrow> bool" where
  "zone_read_permitted zones zone ctx \<longleftrightarrow>
     is_public_read zones zone \<or> vc_viewer_is_admin ctx \<or> cohorts_can_read zones zone (vc_cohorts ctx)"

section \<open>Gift wraps\<close>

definition GIFT_WRAP_KIND :: nat where "GIFT_WRAP_KIND = 1059"

definition gift_wrap_recipient :: "nostr_event \<Rightarrow> string option" where
  "gift_wrap_recipient e =
     (if ev_kind e \<noteq> GIFT_WRAP_KIND then None
      else case tag_value (ev_tags e) ''p'' of
             Some pk \<Rightarrow> if pk \<noteq> [] then Some pk else None | None \<Rightarrow> None)"

definition gift_wrap_readable_by :: "nostr_event \<Rightarrow> string option \<Rightarrow> bool" where
  "gift_wrap_readable_by e session_pubkey =
     (if ev_kind e \<noteq> GIFT_WRAP_KIND then True
      else case (gift_wrap_recipient e, session_pubkey) of
             (Some recipient, Some viewer) \<Rightarrow> eq_ignore_ascii_case recipient viewer
           | _ \<Rightarrow> False)"

definition wants_gift_wraps :: "nostr_filter \<Rightarrow> bool" where
  "wants_gift_wraps f = (case nf_kinds f of Some ks \<Rightarrow> 1059 \<in> set ks | None \<Rightarrow> False)"

text \<open>\<open>HashMap::insert\<close>: the key's value is replaced.\<close>

definition map_insert :: "'k \<Rightarrow> 'v \<Rightarrow> ('k \<times> 'v) list \<Rightarrow> ('k \<times> 'v) list" where
  "map_insert k v m = (k, v) # filter (\<lambda>kv. fst kv \<noteq> k) m"

definition gate_kind_1059_filters :: "nostr_filter list \<Rightarrow> string option \<Rightarrow> nostr_filter list option" where
  "gate_kind_1059_filters fs session_pubkey =
     (if \<not> list_ex wants_gift_wraps fs then Some fs
      else map_option (\<lambda>authed_pk.
        map (\<lambda>f. if wants_gift_wraps f
                 then f\<lparr>nf_extra := map_insert ''#p'' (JArr [JStr authed_pk]) (nf_extra f)\<rparr>
                 else f) fs) session_pubkey)"

section \<open>The per-event read gate\<close>

datatype read_decision = Deliver | DeliverAs nostr_event | Withhold

text \<open>The target's zone and venue come from the stored event an RSVP's \<open>e\<close> tag names.\<close>

definition resolve_rsvp_target :: "read_env \<Rightarrow> nostr_event \<Rightarrow> (string \<times> string option) option" where
  "resolve_rsvp_target env rsvp =
     Option.bind (tag_value (ev_tags rsvp) ''e'') (\<lambda>target.
       case re_event_tags env target of
         Row tags \<Rightarrow> map_option (\<lambda>zone. (zone, tag_value tags ''venue'')) (tag_value tags ''zone'')
       | _ \<Rightarrow> None)"

definition project_calendar_for_viewer :: "read_env \<Rightarrow> viewer_context \<Rightarrow> nostr_event \<Rightarrow> nostr_event option" where
  "project_calendar_for_viewer env ctx e =
     (let is_owner = (case vc_session_pubkey ctx of Some pk \<Rightarrow> pk = ev_pubkey e | None \<Rightarrow> False) in
      if ev_kind e = 31925 then
        (case resolve_rsvp_target env e of
           None \<Rightarrow> if vc_viewer_is_admin ctx \<or> is_owner then Some e else None
         | Some (zone, venue) \<Rightarrow>
             (if project_tier (vc_cohorts ctx) zone venue is_owner (vc_viewer_is_admin ctx) = Full
              then Some e else None))
      else project_calendar_event (vc_cohorts ctx) e is_owner (vc_viewer_is_admin ctx))"

definition authorize_event :: "read_env \<Rightarrow> viewer_context \<Rightarrow> nostr_event \<Rightarrow> read_decision" where
  "authorize_event env ctx e =
     (if \<not> protected_read_permitted (ev_kind e) (ev_pubkey e) (p_recipients (ev_tags e))
           (vc_session_pubkey ctx) (re_mode env)
      then Withhold
      else if is_projected_calendar_kind (ev_kind e) then
        (case project_calendar_for_viewer env ctx e of Some out \<Rightarrow> DeliverAs out | None \<Rightarrow> Withhold)
      else if is_kanban_kind (ev_kind e) then
        (case read_zone_tag e of
           None \<Rightarrow> Deliver
         | Some zone \<Rightarrow>
             if vc_viewer_is_admin ctx
                \<or> (case vc_access_pubkey ctx of Some pk \<Rightarrow> pk = ev_pubkey e | None \<Rightarrow> False)
                \<or> is_public_read (re_zones env) zone
                \<or> cohorts_can_read (re_zones env) zone (vc_cohorts ctx)
             then Deliver else Withhold)
      else
        (case zone_channel_id e of
           None \<Rightarrow> Deliver
         | Some cid \<Rightarrow>
             (case get_channel_zone env cid of
                None \<Rightarrow> Deliver
              | Some zone \<Rightarrow>
                  if vc_is_admin ctx \<or> zone_read_permitted (re_zones env) zone ctx then Deliver
                  else if ev_kind e = 40 \<or> ev_kind e = 41 then
                    (if defs_visible_to_nonmember (re_zones env) zone then Deliver else Withhold)
                  else Withhold)))"

section \<open>The read paths\<close>

text \<open>What a REQ sends of the events its query returned.\<close>

definition req_sends :: "read_env \<Rightarrow> string option \<Rightarrow> nostr_event list \<Rightarrow> nostr_event list" where
  "req_sends env session_pubkey events =
     (let ctx = resolve_viewer_context env session_pubkey in
      List.map_filter (\<lambda>e.
        if \<not> gift_wrap_readable_by e session_pubkey then None
        else case authorize_event env ctx e of
               Deliver \<Rightarrow> Some e | DeliverAs out \<Rightarrow> Some out | Withhold \<Rightarrow> None) events)"

definition count_of :: "read_env \<Rightarrow> string option \<Rightarrow> nostr_event list \<Rightarrow> nat" where
  "count_of env session_pubkey events =
     (let ctx = resolve_viewer_context env session_pubkey in
      fold (\<lambda>e n.
        if \<not> gift_wrap_readable_by e session_pubkey then n
        else case authorize_event env ctx e of Deliver \<Rightarrow> n + 1 | DeliverAs out \<Rightarrow> n + 1 | Withhold \<Rightarrow> n)
        events 0)"

text \<open>What the live broadcast sends one session: its subscriptions are pairs of an id and filters.\<close>

definition needs_gate :: "nat \<Rightarrow> bool" where
  "needs_gate kind \<longleftrightarrow>
     kind = 40 \<or> kind = 42 \<or> is_projected_calendar_kind kind \<or> is_kanban_kind kind"

definition broadcast_to ::
  "read_env \<Rightarrow> nostr_event \<Rightarrow> string option \<Rightarrow> (string \<times> nostr_filter list) list \<Rightarrow> (string \<times> nostr_event) list"
where
  "broadcast_to env e authed_pubkey subs =
     (let matching = filter (\<lambda>s. event_matches_filters e (snd s)) subs in
      if is_protected_read_kind (ev_kind e) \<and>
         \<not> protected_read_permitted (ev_kind e) (ev_pubkey e) (p_recipients (ev_tags e))
             authed_pubkey (re_mode env)
      then []
      else if (case (if ev_kind e = 1059 then tag_value (ev_tags e) ''p'' else None) of
                 Some recipient \<Rightarrow> authed_pubkey \<noteq> Some recipient | None \<Rightarrow> False)
      then []
      else if needs_gate (ev_kind e) then
        (if matching = [] then []
         else case authorize_event env (resolve_viewer_context env authed_pubkey) e of
                Deliver \<Rightarrow> map (\<lambda>s. (fst s, e)) matching
              | DeliverAs out \<Rightarrow> map (\<lambda>s. (fst s, out)) matching
              | Withhold \<Rightarrow> [])
      else map (\<lambda>s. (fst s, e)) matching)"

section \<open>The three read paths agree\<close>

lemma resolve_viewer_session [simp]: "vc_session_pubkey (resolve_viewer_context env s) = s"
  by (simp add: resolve_viewer_context_def Let_def split: prod.split)

definition sent_as :: "read_env \<Rightarrow> string option \<Rightarrow> nostr_event \<Rightarrow> nostr_event option" where
  "sent_as env session_pubkey e =
     (if \<not> gift_wrap_readable_by e session_pubkey then None
      else case authorize_event env (resolve_viewer_context env session_pubkey) e of
             Deliver \<Rightarrow> Some e | DeliverAs out \<Rightarrow> Some out | Withhold \<Rightarrow> None)"

lemma req_sends_eq: "req_sends env s events = List.map_filter (sent_as env s) events"
  unfolding req_sends_def Let_def sent_as_def [abs_def] ..

lemma req_sends_Nil [simp]: "req_sends env s [] = []"
  by (simp add: req_sends_eq List.map_filter_def)

lemma req_sends_Cons:
  "req_sends env s (e # es) =
     (case sent_as env s e of None \<Rightarrow> req_sends env s es | Some out \<Rightarrow> out # req_sends env s es)"
  by (simp add: req_sends_eq List.map_filter_def split: option.split)

lemma set_req_sends: "set (req_sends env s events) = {out. \<exists>e \<in> set events. sent_as env s e = Some out}"
  by (induction events) (auto simp: req_sends_Cons split: option.split)

lemma count_step:
  "(if \<not> gift_wrap_readable_by e s then n
    else case authorize_event env (resolve_viewer_context env s) e of
           Deliver \<Rightarrow> n + 1 | DeliverAs out \<Rightarrow> n + 1 | Withhold \<Rightarrow> n) =
   (case sent_as env s e of None \<Rightarrow> n | Some out \<Rightarrow> n + (1 :: nat))"
  by (simp add: sent_as_def split: read_decision.split)

text \<open>COUNT is no oracle beyond REQ: for every viewer and every list of stored events it counts
  exactly the events a REQ would send that viewer.\<close>

theorem count_is_what_req_sends:
  "count_of env session_pubkey events = length (req_sends env session_pubkey events)"
proof -
  have "fold (\<lambda>e n. case sent_as env session_pubkey e of None \<Rightarrow> n | Some out \<Rightarrow> n + 1) events n =
      n + length (req_sends env session_pubkey events)" for n :: nat
    by (induction events arbitrary: n) (simp_all add: req_sends_Cons split: option.split)
  then show ?thesis
    unfolding count_of_def Let_def count_step by simp
qed

lemma not_protected_permitted:
  "\<not> is_protected_read_kind k \<Longrightarrow> protected_read_permitted k a rs s m"
  by (simp add: protected_read_permitted_def)

text \<open>A kind the live path sends ungated is delivered as it is by the read gate, kind 41 apart.\<close>

lemma ungated_delivered:
  assumes "\<not> needs_gate (ev_kind e)" "ev_kind e \<noteq> 41"
  shows "authorize_event env ctx e =
    (if protected_read_permitted (ev_kind e) (ev_pubkey e) (p_recipients (ev_tags e))
          (vc_session_pubkey ctx) (re_mode env) then Deliver else Withhold)"
  using assms by (simp add: authorize_event_def needs_gate_def zone_channel_id_def)

lemma broadcast_nonwrap:
  assumes "ev_kind e \<noteq> 41" "ev_kind e \<noteq> 1059"
  shows "broadcast_to env e s subs =
    (case sent_as env s e of
       None \<Rightarrow> []
     | Some out \<Rightarrow> map (\<lambda>p. (fst p, out)) (filter (\<lambda>p. event_matches_filters e (snd p)) subs))"
proof (cases "needs_gate (ev_kind e)")
  case True
  then have "\<not> is_protected_read_kind (ev_kind e)"
    by (auto simp: needs_gate_def is_protected_read_kind_def PROTECTED_READ_KINDS_def
        is_projected_calendar_kind_def is_kanban_kind_def)
  with True assms show ?thesis
    by (simp add: broadcast_to_def sent_as_def gift_wrap_readable_by_def GIFT_WRAP_KIND_def Let_def
        split: read_decision.split)
next
  case False
  with assms show ?thesis
    by (simp add: broadcast_to_def sent_as_def gift_wrap_readable_by_def GIFT_WRAP_KIND_def Let_def
        ungated_delivered) (use not_protected_permitted in blast)
qed

lemma broadcast_wrap:
  assumes "ev_kind e = 1059" "gift_wrap_recipient e = Some r"
    and "(sub, out) \<in> set (broadcast_to env e s subs)"
  shows "out = e \<and> s = Some r"
proof -
  have "tag_value (ev_tags e) ''p'' = Some r"
    using assms(1,2) by (simp add: gift_wrap_recipient_def GIFT_WRAP_KIND_def split: option.splits if_splits)
  moreover have "\<not> needs_gate 1059"
    by (simp add: needs_gate_def is_projected_calendar_kind_def is_kanban_kind_def)
  ultimately show ?thesis
    using assms(1,3) by (auto simp: broadcast_to_def Let_def split: if_splits)
qed

lemma wrap_recipient_party:
  assumes "gift_wrap_recipient e = Some r"
  shows "r \<in> set (p_recipients (ev_tags e))"
proof -
  have "tag_value (ev_tags e) ''p'' = Some r"
    using assms by (simp add: gift_wrap_recipient_def split: option.splits if_splits)
  then show ?thesis
    unfolding p_recipients_def by (force dest: tag_value_Some_mem)
qed

lemma sent_wrap:
  assumes "ev_kind e = 1059" "gift_wrap_recipient e = Some r"
  shows "sent_as env (Some r) e = Some e"
proof -
  have k: "\<not> needs_gate (ev_kind e)" "ev_kind e \<noteq> 41"
    using assms(1) by (simp_all add: needs_gate_def is_projected_calendar_kind_def is_kanban_kind_def)
  have "protected_read_permitted (ev_kind e) (ev_pubkey e) (p_recipients (ev_tags e)) (Some r) (re_mode env)"
    using wrap_recipient_party [OF assms(2)]
    by (auto simp: protected_read_permitted_def assms(1) is_correspondence_kind_def list_ex_iff)
  then show ?thesis
    using assms unfolding sent_as_def ungated_delivered [OF k]
    by (simp add: gift_wrap_readable_by_def GIFT_WRAP_KIND_def)
qed

text \<open>C15. The live push and the stored read show a viewer the same thing: for every kind except
  channel metadata (41) and gift wraps, each subscription that matches a published event
  receives exactly what a REQ would send that viewer of it (the event, its redacted form, or
  nothing), and a gift wrap with a recipient is pushed to a viewer only when a REQ would send
  it.\<close>

theorem live_push_is_req:
  assumes "ev_kind e \<noteq> 41" "ev_kind e = 1059 \<Longrightarrow> gift_wrap_recipient e \<noteq> None"
  shows "snd ` set (broadcast_to env e s subs) \<subseteq> set (req_sends env s [e]) \<and>
    (ev_kind e \<noteq> 1059 \<longrightarrow> list_ex (\<lambda>p. event_matches_filters e (snd p)) subs \<longrightarrow>
      snd ` set (broadcast_to env e s subs) = set (req_sends env s [e]))"
proof (cases "ev_kind e = 1059")
  case True
  then obtain r where r: "gift_wrap_recipient e = Some r" using assms(2) by blast
  have "out \<in> set (req_sends env s [e])" if "(sub, out) \<in> set (broadcast_to env e s subs)" for sub out
    using broadcast_wrap [OF True r that] sent_wrap [OF True r, of env] by (simp add: req_sends_Cons)
  then show ?thesis using True by force
next
  case False
  show ?thesis
    unfolding broadcast_nonwrap [OF assms(1) False]
    by (cases "sent_as env s e") (auto simp: req_sends_Cons list_ex_iff image_image)
qed

text \<open>C16. Correspondence (kinds 4, 13, 14 and 1059) reaches its parties only, on every path and in
  both authentication modes: whatever event of such a kind a REQ or the live push sends, the
  session is authenticated, as the event's author or as one of its \<open>p\<close>-tagged recipients;
  being an administrator does not help.\<close>

theorem correspondence_parties_only:
  assumes "is_correspondence_kind (ev_kind e)"
    and "e \<in> set (req_sends env s [e]) \<or> (sub, e) \<in> set (broadcast_to env e s subs)"
  shows "\<exists>viewer. s = Some viewer \<and>
    (eq_ignore_ascii_case viewer (ev_pubkey e) \<or>
     (\<exists>r \<in> set (p_recipients (ev_tags e)). eq_ignore_ascii_case r viewer))"
proof -
  have prot: "is_protected_read_kind (ev_kind e)"
    using assms(1) by (auto simp: is_correspondence_kind_def is_protected_read_kind_def PROTECTED_READ_KINDS_def)
  have "protected_read_permitted (ev_kind e) (ev_pubkey e) (p_recipients (ev_tags e)) s (re_mode env)"
    using assms(2)
  proof
    assume "e \<in> set (req_sends env s [e])"
    then have "sent_as env s e = Some e" by (simp add: set_req_sends)
    then show ?thesis
      by (auto simp: sent_as_def authorize_event_def split: if_splits)
  next
    assume "(sub, e) \<in> set (broadcast_to env e s subs)"
    then show ?thesis using prot by (auto simp: broadcast_to_def Let_def split: if_splits)
  qed
  then show ?thesis
    using assms(1) prot
    by (auto simp: protected_read_permitted_def list_ex_iff split: option.splits)
qed

definition open_zones :: zone_config where
  "open_zones = \<lparr>zc_zones = [\<lparr>zo_id = ''family'', zo_required_cohorts = [''family''],
     zo_write_cohorts = None, zo_visibility = Hidden, zo_encrypted = True\<rparr>],
     zc_encryption_enabled = True\<rparr>"

definition sample_env :: read_env where
  "sample_env = \<lparr>re_zones = open_zones, re_mode = Nip42, re_devices_enabled = False,
     re_owner = (\<lambda>k. NoRow), re_admin = (\<lambda>k. False), re_cohorts = (\<lambda>k. NoRow),
     re_channel_zone = (\<lambda>c. if c = ''room'' then Row ''family'' else NoRow),
     re_event_tags = (\<lambda>i. NoRow)\<rparr>"

definition any_filter :: nostr_filter where
  "any_filter = \<lparr>nf_ids = None, nf_authors = None, nf_kinds = None, nf_since = None,
     nf_until = None, nf_limit = None, nf_search = None, nf_extra = []\<rparr>"

lemma any_filter_matches [simp]: "event_matches_filters e [any_filter]"
  by (simp add: event_matches_filters_def filter_matches_def any_filter_def opt_all_def search_term_def)

definition sample_dm :: nostr_event where
  "sample_dm = \<lparr>ev_id = ''d1'', ev_pubkey = ''alice'', ev_created_at = 7, ev_kind = 4,
     ev_tags = [[''p'', ''bob'']], ev_content = ''?'', ev_sig = ''s''\<rparr>"

lemma sample_dm_sent: "sent_as sample_env (Some ''bob'') sample_dm = Some sample_dm"
  by (simp add: sent_as_def sample_dm_def gift_wrap_readable_by_def GIFT_WRAP_KIND_def authorize_event_def
      protected_read_permitted_def is_protected_read_kind_def PROTECTED_READ_KINDS_def
      is_correspondence_kind_def p_recipients_def is_projected_calendar_kind_def is_kanban_kind_def
      zone_channel_id_def)

theorem live_push_is_req_witness:
  "snd ` set (broadcast_to sample_env sample_dm (Some ''bob'') [(''sub'', [any_filter])])
     = set (req_sends sample_env (Some ''bob'') [sample_dm]) \<and>
   req_sends sample_env (Some ''bob'') [sample_dm] = [sample_dm]"
  using live_push_is_req [of sample_dm sample_env "Some ''bob''" "[(''sub'', [any_filter])]"]
  by (simp add: req_sends_Cons sample_dm_sent) (simp add: sample_dm_def)

theorem correspondence_parties_only_witness:
  "\<exists>viewer. Some ''bob'' = Some viewer \<and>
    (eq_ignore_ascii_case viewer (ev_pubkey sample_dm) \<or>
     (\<exists>r \<in> set (p_recipients (ev_tags sample_dm)). eq_ignore_ascii_case r viewer))"
  by (rule correspondence_parties_only [of sample_dm sample_env])
    (simp_all add: req_sends_Cons sample_dm_sent, simp add: sample_dm_def is_correspondence_kind_def)

section \<open>Channels\<close>

definition member_of_zone :: "read_env \<Rightarrow> viewer_context \<Rightarrow> string \<Rightarrow> bool" where
  "member_of_zone env ctx zone \<longleftrightarrow> vc_is_admin ctx \<or> zone_read_permitted (re_zones env) zone ctx"

text \<open>Channel kinds are neither protected, nor calendar, nor kanban kinds.\<close>

lemma authorize_channel:
  assumes "ev_kind e = 40 \<or> ev_kind e = 41 \<or> ev_kind e = 42"
  shows "authorize_event env ctx e =
    (case Option.bind (zone_channel_id e) (get_channel_zone env) of
       None \<Rightarrow> Deliver
     | Some zone \<Rightarrow>
         if member_of_zone env ctx zone \<or>
            (ev_kind e \<noteq> 42 \<and> defs_visible_to_nonmember (re_zones env) zone)
         then Deliver else Withhold)"
proof -
  have k: "\<not> is_protected_read_kind (ev_kind e)" "\<not> is_projected_calendar_kind (ev_kind e)"
    "\<not> is_kanban_kind (ev_kind e)"
    using assms by (elim disjE; simp add: is_protected_read_kind_def PROTECTED_READ_KINDS_def
        is_projected_calendar_kind_def is_kanban_kind_def)+
  have d: "ev_kind e \<noteq> 42 \<longleftrightarrow> ev_kind e = 40 \<or> ev_kind e = 41"
    using assms by linarith
  show ?thesis
  proof (cases "Option.bind (zone_channel_id e) (get_channel_zone env)")
    case None
    then show ?thesis
      by (cases "zone_channel_id e") (simp_all add: authorize_event_def k not_protected_permitted)
  next
    case (Some zone)
    then obtain c where c: "zone_channel_id e = Some c" "get_channel_zone env c = Some zone"
      by (cases "zone_channel_id e") simp_all
    show ?thesis
      unfolding Some by (simp add: authorize_event_def k c not_protected_permitted member_of_zone_def d)
  qed
qed

text \<open>C17. Who is sent a channel message or definition, exactly: everyone, when the channel has no
  zone; also everyone, when the lookup of its zone fails, so that a database fault opens every
  zone-private channel to every reader while it lasts; otherwise the zone's members and
  administrators, and, for definitions and metadata only, everyone unless the zone is hidden.\<close>

theorem channel_read_iff:
  "(ev_kind e = 40 \<or> ev_kind e = 41 \<or> ev_kind e = 42) \<and> authorize_event env ctx e = Deliver \<longleftrightarrow>
   (ev_kind e = 40 \<or> ev_kind e = 41 \<or> ev_kind e = 42) \<and>
   (zone_channel_id e = None \<or>
    (\<exists>c. zone_channel_id e = Some c \<and>
       (re_channel_zone env c = NoRow \<or> re_channel_zone env c = Unreachable \<or>
        (\<exists>zone. re_channel_zone env c = Row zone \<and>
           (member_of_zone env ctx zone \<or>
            (ev_kind e \<in> {40, 41} \<and> defs_visible_to_nonmember (re_zones env) zone))))))"
proof (cases "ev_kind e = 40 \<or> ev_kind e = 41 \<or> ev_kind e = 42")
  case True
  show ?thesis
  proof (cases "zone_channel_id e")
    case None
    then show ?thesis by (simp add: authorize_channel [OF True])
  next
    case (Some c)
    then show ?thesis
      using True unfolding authorize_channel [OF True]
      by (cases "re_channel_zone env c") (auto simp: get_channel_zone_def)
  qed
qed simp

lemma broadcast_41:
  assumes "ev_kind e = 41"
  shows "broadcast_to env e s subs = map (\<lambda>p. (fst p, e)) (filter (\<lambda>p. event_matches_filters e (snd p)) subs)"
proof -
  have "\<not> needs_gate (ev_kind e)" "\<not> is_protected_read_kind (ev_kind e)" "ev_kind e \<noteq> 1059"
    unfolding assms by (simp_all add: needs_gate_def is_protected_read_kind_def PROTECTED_READ_KINDS_def
        is_projected_calendar_kind_def is_kanban_kind_def)
  then show ?thesis by (simp add: broadcast_to_def)
qed

text \<open>The live push is wider than the stored read on channel metadata: an update (kind 41) of a
  channel in a hidden zone is pushed to every matching subscription, whoever holds it, while a
  REQ withholds it from everyone outside the zone.\<close>

theorem hidden_metadata_is_pushed:
  assumes "ev_kind e = 41" "zone_channel_id e = Some c" "re_channel_zone env c = Row zone"
    and "\<not> defs_visible_to_nonmember (re_zones env) zone"
    and "\<not> member_of_zone env (resolve_viewer_context env s) zone"
  shows "req_sends env s [e] = [] \<and>
    map snd (broadcast_to env e s subs) =
      map (\<lambda>p. e) (filter (\<lambda>p. event_matches_filters e (snd p)) subs)"
proof -
  have "authorize_event env (resolve_viewer_context env s) e = Withhold"
    using assms by (subst authorize_channel) (simp_all add: get_channel_zone_def)
  then have "req_sends env s [e] = []"
    by (simp add: req_sends_Cons sent_as_def)
  then show ?thesis
    using broadcast_41 [OF assms(1)] by (simp add: o_def)
qed

definition sample_metadata :: nostr_event where
  "sample_metadata = \<lparr>ev_id = ''m1'', ev_pubkey = ''alice'', ev_created_at = 7, ev_kind = 41,
     ev_tags = [[''e'', ''room'']], ev_content = ''{name}'', ev_sig = ''s''\<rparr>"

theorem hidden_metadata_is_pushed_witness:
  "req_sends sample_env None [sample_metadata] = [] \<and>
   map snd (broadcast_to sample_env sample_metadata None [(''sub'', [any_filter])]) = [sample_metadata]"
  using hidden_metadata_is_pushed [of sample_metadata "''room''" sample_env "''family''" None
      "[(''sub'', [any_filter])]"]
  by (simp add: sample_metadata_def zone_channel_id_def channel_tag_def get_at_def sample_env_def
      defs_visible_to_nonmember_def zone_get_def open_zones_def member_of_zone_def
      resolve_viewer_context_def zone_read_permitted_def is_public_read_def cohorts_can_read_def)

section \<open>What a redacted calendar event reveals\<close>

lemma find_tag_value: "tag_value tags n = map_option (\<lambda>t. t ! 1) (List.find (\<lambda>t. 2 \<le> length t \<and> t ! 0 = n) tags)"
  by (simp add: tag_value_def)










end
