(* ===== verification/Trust.thy ===== *)
theory Trust
  imports Access "HOL-Library.Log_Nat"
begin

text \<open>
  Trust levels (\<open>nostr-bbs-relay-worker/src/trust.rs\<close>): what a member's activity earns, the
  promotion check on the request path and the demotion policy of the scheduled sweep. Thresholds
  and counters are 32-bit integers read from the database (\<^typ>\<open>int\<close>). The hysteresis band is
  compared in \<open>f64\<close>, whose multiplication and division round to 53 significant bits
  (\<open>f64_round\<close>).
\<close>

section \<open>Levels\<close>

datatype trust_level = Newcomer | Member | Regular_TL | Trusted

fun trust_rank :: "trust_level \<Rightarrow> nat" where
  "trust_rank Newcomer = 0"
| "trust_rank Member = 1"
| "trust_rank Regular_TL = 2"
| "trust_rank Trusted = 3"

lemma trust_rank_inject: "trust_rank a = trust_rank b \<longleftrightarrow> a = b"
  by (cases a; cases b) simp_all

instantiation trust_level :: linorder
begin

definition less_eq_trust_level :: "trust_level \<Rightarrow> trust_level \<Rightarrow> bool" where
  "less_eq_trust_level a b \<longleftrightarrow> trust_rank a \<le> trust_rank b"

definition less_trust_level :: "trust_level \<Rightarrow> trust_level \<Rightarrow> bool" where
  "less_trust_level a b \<longleftrightarrow> trust_rank a < trust_rank b"

instance
  by standard (auto simp: less_eq_trust_level_def less_trust_level_def trust_rank_inject)

end

lemmas trust_order = less_eq_trust_level_def less_trust_level_def

definition trust_from_i32 :: "int \<Rightarrow> trust_level" where
  "trust_from_i32 v =
     (if v = 0 then Newcomer else if v = 1 then Member else if v = 2 then Regular_TL
      else if v = 3 then Trusted else if v < 0 then Newcomer else Trusted)"

definition trust_as_i32 :: "trust_level \<Rightarrow> int" where
  "trust_as_i32 l = int (trust_rank l)"

lemma trust_from_as [simp]: "trust_from_i32 (trust_as_i32 l) = l"
  by (cases l) (simp_all add: trust_from_i32_def trust_as_i32_def)

section \<open>Thresholds and rows\<close>

record thresholds =
  tl1_days_active :: int
  tl1_posts_read :: int
  tl1_posts_created :: int
  tl2_days_active :: int
  tl2_posts_read :: int
  tl2_posts_created :: int
  demotion_hysteresis_pct :: int
  inactivity_demotion_secs :: int

definition default_thresholds :: thresholds where
  "default_thresholds = \<lparr>tl1_days_active = 3, tl1_posts_read = 10, tl1_posts_created = 1,
     tl2_days_active = 14, tl2_posts_read = 50, tl2_posts_created = 10,
     demotion_hysteresis_pct = 90, inactivity_demotion_secs = 6 * 30 * 24 * 60 * 60\<rparr>"

definition parse_i32 :: "string \<Rightarrow> int option" where
  "parse_i32 s = Option.bind (parse_i64 s)
     (\<lambda>v. if - 2147483648 \<le> v \<and> v \<le> 2147483647 then Some v else None)"

text \<open>\<open>TrustThresholds::load\<close>: the \<open>settings\<close> table, where a missing, unreadable or malformed value
  keeps the default.\<close>

definition load_thresholds :: "(string \<Rightarrow> string d1_reply) \<Rightarrow> thresholds" where
  "load_thresholds settings =
     (let rd = (\<lambda>key old. case settings key of
            Row v \<Rightarrow> (case parse_i32 v of Some n \<Rightarrow> n | None \<Rightarrow> old) | _ \<Rightarrow> old);
          d = default_thresholds
      in \<lparr>tl1_days_active = rd ''tl1_days_active'' (tl1_days_active d),
          tl1_posts_read = rd ''tl1_posts_read'' (tl1_posts_read d),
          tl1_posts_created = rd ''tl1_posts_created'' (tl1_posts_created d),
          tl2_days_active = rd ''tl2_days_active'' (tl2_days_active d),
          tl2_posts_read = rd ''tl2_posts_read'' (tl2_posts_read d),
          tl2_posts_created = rd ''tl2_posts_created'' (tl2_posts_created d),
          demotion_hysteresis_pct = rd ''demotion_hysteresis'' (demotion_hysteresis_pct d),
          inactivity_demotion_secs = inactivity_demotion_secs d\<rparr>)"

record whitelist_row =
  wl_pubkey :: string
  wl_trust_level :: int
  wl_days_active :: int
  wl_posts_read :: int
  wl_posts_created :: int
  wl_mod_actions :: int
  wl_last_active_at :: "nat option"
  wl_trust_updated_at :: "nat option"
  wl_is_admin :: "int option"

definition compute_trust_level :: "int \<Rightarrow> int \<Rightarrow> int \<Rightarrow> int \<Rightarrow> thresholds \<Rightarrow> trust_level" where
  "compute_trust_level days_active posts_read posts_created mod_actions th =
     (if days_active \<ge> tl2_days_active th \<and> posts_read \<ge> tl2_posts_read th \<and>
         posts_created \<ge> tl2_posts_created th \<and> mod_actions = 0
      then Regular_TL
      else if days_active \<ge> tl1_days_active th \<and> posts_read \<ge> tl1_posts_read th \<and>
         posts_created \<ge> tl1_posts_created th
      then Member else Newcomer)"

definition earned :: "whitelist_row \<Rightarrow> thresholds \<Rightarrow> trust_level" where
  "earned r th = compute_trust_level (wl_days_active r) (wl_posts_read r) (wl_posts_created r)
     (wl_mod_actions r) th"

section \<open>Promotion\<close>

record whitelist_db =
  wd_rows :: "whitelist_row list"
  wd_log :: "(string \<times> trust_level \<times> trust_level) list"

text \<open>
  \<open>check_promotion\<close>: \<open>n\<close> is what the network does to the read, the update and the log entry; a lost
  update is not noticed.
\<close>

definition set_level :: "string \<Rightarrow> trust_level \<Rightarrow> nat \<Rightarrow> whitelist_row list \<Rightarrow> whitelist_row list" where
  "set_level pk l now =
     map (\<lambda>r. if wl_pubkey r = pk
              then r\<lparr>wl_trust_level := trust_as_i32 l, wl_trust_updated_at := Some now\<rparr> else r)"

definition check_promotion ::
  "net \<times> net \<times> net \<Rightarrow> thresholds \<Rightarrow> nat \<Rightarrow> string \<Rightarrow> whitelist_db \<Rightarrow> whitelist_db \<times> trust_level option"
where
  "check_promotion n th now pk db =
     (if fst n \<noteq> Delivered then (db, None)
      else case List.find (\<lambda>r. wl_pubkey r = pk) (wd_rows db) of
        None \<Rightarrow> (db, None)
      | Some r \<Rightarrow>
          (let current = trust_from_i32 (wl_trust_level r); computed = earned r th in
           if current = Trusted then (db, Some Trusted)
           else if computed > current then
             (db\<lparr>wd_rows := (if fst (snd n) = RequestLost then wd_rows db
                             else set_level pk computed now (wd_rows db)),
                 wd_log := (if snd (snd n) = RequestLost then wd_log db
                            else wd_log db @ [(pk, current, computed)])\<rparr>, Some computed)
           else (db, Some current)))"

section \<open>Activity counters\<close>

text \<open>Best effort: a lost update is dropped in silence. \<open>n\<close> is what the network does to the update.\<close>

definition update_member ::
  "net \<Rightarrow> string \<Rightarrow> (whitelist_row \<Rightarrow> whitelist_row) \<Rightarrow> whitelist_db \<Rightarrow> whitelist_db"
where
  "update_member n pk f db =
     (if n = RequestLost then db
      else db\<lparr>wd_rows := map (\<lambda>r. if wl_pubkey r = pk then f r else r) (wd_rows db)\<rparr>)"

definition increment_posts_created :: "net \<Rightarrow> string \<Rightarrow> whitelist_db \<Rightarrow> whitelist_db" where
  "increment_posts_created n pk = update_member n pk (\<lambda>r. r\<lparr>wl_posts_created := wl_posts_created r + 1\<rparr>)"

definition increment_posts_read_by :: "net \<Rightarrow> string \<Rightarrow> int \<Rightarrow> whitelist_db \<Rightarrow> whitelist_db" where
  "increment_posts_read_by n pk k db =
     (if k \<le> 0 then db
      else update_member n pk (\<lambda>r. r\<lparr>wl_posts_read := wl_posts_read r + k\<rparr>) db)"

text \<open>
  \<open>update_last_active\<close>: a read decides whether this is a new day, then one update. A failed read
  counts as a first activity, so it adds a day.
\<close>

definition update_last_active :: "net \<times> net \<Rightarrow> nat \<Rightarrow> string \<Rightarrow> whitelist_db \<Rightarrow> whitelist_db" where
  "update_last_active n now pk db =
     (let last = (if fst n \<noteq> Delivered then None
                  else Option.bind (List.find (\<lambda>r. wl_pubkey r = pk) (wd_rows db)) wl_last_active_at)
      in if (case last of Some t \<Rightarrow> now div 86400 > t div 86400 | None \<Rightarrow> True)
         then update_member (snd n) pk
           (\<lambda>r. r\<lparr>wl_last_active_at := Some now, wl_days_active := wl_days_active r + 1\<rparr>) db
         else update_member (snd n) pk (\<lambda>r. r\<lparr>wl_last_active_at := Some now\<rparr>) db)"

section \<open>Demotion\<close>

text \<open>The nearest number with 53 significant bits, ties to even (no overflow or subnormals).\<close>

definition ulp_exponent :: "rat \<Rightarrow> int" where
  "ulp_exponent x =
     (case quotient_of \<bar>x\<bar> of (n, d) \<Rightarrow>
        (let e = bitlen n - bitlen d in
         if n * 2 ^ nat (- e) < d * 2 ^ nat e then e - 53 else e - 52))"

definition pow2 :: "int \<Rightarrow> rat" where
  "pow2 e = (if e \<ge> 0 then 2 ^ nat e else 1 / 2 ^ nat (- e))"

definition round_half_even :: "rat \<Rightarrow> int" where
  "round_half_even x =
     (let q = \<lfloor>x\<rfloor>; r = x - of_int q in
      if r < 1 / 2 \<or> (r = 1 / 2 \<and> even q) then q else q + 1)"

definition f64_round :: "rat \<Rightarrow> rat" where
  "f64_round x = (if x = 0 then 0
     else let u = pow2 (ulp_exponent x) in of_int (round_half_even (x / u)) * u)"

text \<open>\<open>(x as f64) < (t as f64) * hysteresis\<close>, the hysteresis being \<open>pct as f64 / 100.0\<close>.\<close>

definition below_band :: "int \<Rightarrow> int \<Rightarrow> int \<Rightarrow> bool" where
  "below_band pct x t \<longleftrightarrow> of_int x < f64_round (of_int t * f64_round (of_int pct / 100))"

definition sat_sub_i64 :: "int \<Rightarrow> int \<Rightarrow> int" where
  "sat_sub_i64 a b = max (- 9223372036854775808) (min 9223372036854775807 (a - b))"

text \<open>\<open>last_active_at.unwrap_or(0.0) as i64\<close>\<close>

definition last_active_i64 :: "whitelist_row \<Rightarrow> int" where
  "last_active_i64 r = (case wl_last_active_at r of Some t \<Rightarrow> min (int t) 9223372036854775807 | None \<Rightarrow> 0)"

datatype hold_reason = AdminGrantedLevel | ExemptAdminRow | AtFloor | WithinActivityWindow
  | ClearsHysteresis

datatype demotion_decision = Hold hold_reason | Demote trust_level trust_level

definition decide_demotion :: "whitelist_row \<Rightarrow> thresholds \<Rightarrow> int \<Rightarrow> demotion_decision" where
  "decide_demotion row th now =
     (let current = trust_from_i32 (wl_trust_level row);
          pct = demotion_hysteresis_pct th;
          last_active = last_active_i64 row in
      if current = Trusted then Hold AdminGrantedLevel
      else if current = Newcomer then Hold AtFloor
      else if (case wl_is_admin row of Some a \<Rightarrow> a | None \<Rightarrow> 0) = 1 then Hold ExemptAdminRow
      else if sat_sub_i64 now last_active < inactivity_demotion_secs th then Hold WithinActivityWindow
      else if current = Regular_TL then
        (if below_band pct (wl_days_active row) (tl2_days_active th)
            \<or> below_band pct (wl_posts_read row) (tl2_posts_read th)
            \<or> below_band pct (wl_posts_created row) (tl2_posts_created th)
            \<or> wl_mod_actions row > 0
         then Demote current (if earned row th \<ge> Member then Member else Newcomer)
         else Hold ClearsHysteresis)
      else
        (if below_band pct (wl_days_active row) (tl1_days_active th)
            \<or> below_band pct (wl_posts_read row) (tl1_posts_read th)
            \<or> below_band pct (wl_posts_created row) (tl1_posts_created th)
         then Demote current Newcomer
         else Hold ClearsHysteresis))"

section \<open>Rounding below an integer\<close>

lemma round_half_even_le: "x \<le> of_int T \<Longrightarrow> round_half_even x \<le> T"
proof (cases "\<lfloor>x\<rfloor> = T")
  case True
  assume "x \<le> of_int T"
  with True have "x = of_int T" by (metis floor_correct order_antisym)
  then show ?thesis by (simp add: round_half_even_def)
next
  case False
  assume "x \<le> of_int T"
  then have "\<lfloor>x\<rfloor> \<le> T" by (metis floor_mono floor_of_int)
  with False show ?thesis by (simp add: round_half_even_def Let_def)
qed

lemma round_half_even_nonneg: "0 \<le> x \<Longrightarrow> 0 \<le> round_half_even x"
  by (simp add: round_half_even_def Let_def)

lemma pow2_pos: "0 < pow2 e"
  by (simp add: pow2_def)

lemma f64_round_nonneg: "0 \<le> y \<Longrightarrow> 0 \<le> f64_round y"
  by (simp add: f64_round_def Let_def round_half_even_nonneg pow2_pos less_imp_le)

lemma ulp_exponent_small:
  assumes "0 < y" "y < 2 ^ 52"
  shows "ulp_exponent y \<le> 0"
proof -
  obtain n d where q: "quotient_of y = (n, d)" by (cases "quotient_of y")
  have d: "0 < d" using q quotient_of_denom_pos by blast
  have y: "y = of_int n / of_int d" using q quotient_of_div by blast
  have n: "0 < n" using assms(1) y d by (simp add: zero_less_divide_iff)
  have less: "n < d * 2 ^ 52"
  proof -
    have "of_int n < (of_int d * 2 ^ 52 :: rat)"
      using assms(2) d unfolding y by (simp add: divide_less_eq mult.commute)
    then have "(of_int n :: rat) < of_int (d * 2 ^ 52)" by simp
    then show ?thesis by (simp only: of_int_less_iff)
  qed
  let ?e = "bitlen n - bitlen d"
  have "\<not> 53 < ?e"
  proof
    assume big: "53 < ?e"
    have bn: "2 ^ nat (bitlen n - 1) \<le> n" and bd: "d < 2 ^ nat (bitlen d)"
      using bitlen_bounds n d by auto
    have pos: "0 \<le> bitlen d" by (rule bitlen_nonneg)
    have "d * 2 ^ 52 < 2 ^ nat (bitlen d) * 2 ^ 52" using bd by simp
    also have "\<dots> = 2 ^ (nat (bitlen d) + 52)" by (simp add: power_add)
    also have "\<dots> \<le> (2 :: int) ^ nat (bitlen n - 1)"
      by (rule power_increasing) (use big pos in linarith, simp)
    also have "\<dots> \<le> n" by (rule bn)
    finally show False using less by simp
  qed
  moreover have "n * 2 ^ nat (- ?e) < d * 2 ^ nat ?e" if "?e = 53"
  proof -
    have "d * 2 ^ 52 < d * 2 ^ 53" using d by simp
    with less that show ?thesis by simp
  qed
  ultimately have e: "?e \<le> 52 \<or> (?e = 53 \<and> n * 2 ^ nat (- ?e) < d * 2 ^ nat ?e)" by linarith
  have "ulp_exponent y = (if n * 2 ^ nat (- ?e) < d * 2 ^ nat ?e then ?e - 53 else ?e - 52)"
    using assms(1) by (simp add: ulp_exponent_def q Let_def)
  with e show ?thesis by (auto split: if_splits)
qed

lemma f64_round_le_int:
  assumes "0 \<le> y" "y \<le> of_int t" "t < 2 ^ 52"
  shows "f64_round y \<le> of_int t"
proof (cases "y = 0")
  case True
  with assms show ?thesis by (simp add: f64_round_def)
next
  case False
  have "y < 2 ^ 52"
  proof -
    have "of_int t < (of_int (2 ^ 52) :: rat)" using assms(3) by (simp only: of_int_less_iff)
    with assms(2) show ?thesis by simp
  qed
  with False assms(1) have k: "ulp_exponent y \<le> 0" using ulp_exponent_small by simp
  define m where "m = nat (- ulp_exponent y)"
  have u: "pow2 (ulp_exponent y) = 1 / 2 ^ m"
    using k by (cases "ulp_exponent y = 0") (simp_all add: pow2_def m_def)
  have "y / pow2 (ulp_exponent y) \<le> of_int (t * 2 ^ m)"
    unfolding u using assms(2) by (simp add: mult_right_mono)
  then have "round_half_even (y / pow2 (ulp_exponent y)) \<le> t * 2 ^ m"
    by (rule round_half_even_le)
  then have "(of_int (round_half_even (y / pow2 (ulp_exponent y))) :: rat) \<le> of_int (t * 2 ^ m)"
    by (simp only: of_int_le_iff)
  then show ?thesis
    using False by (simp add: f64_round_def Let_def u divide_le_eq)
qed

lemma below_band_less:
  assumes "0 \<le> pct" "pct \<le> 100" "0 \<le> t" "t < 2 ^ 52" "below_band pct x t"
  shows "x < t"
proof -
  let ?h = "f64_round (of_int pct / 100)"
  have "0 \<le> ?h" using assms(1) by (simp add: f64_round_nonneg)
  moreover have "?h \<le> of_int 1"
    by (rule f64_round_le_int) (use assms(1,2) in simp_all)
  ultimately have "0 \<le> of_int t * ?h" "of_int t * ?h \<le> of_int t"
    using assms(3) by (simp_all add: mult_left_le)
  then have "f64_round (of_int t * ?h) \<le> of_int t"
    using f64_round_le_int assms(4) by blast
  then have "(of_int x :: rat) < of_int t"
    using assms(5) unfolding below_band_def by linarith
  then show ?thesis by simp
qed

section \<open>Demotions are not undone by the promotion check\<close>

text \<open>Thresholds an operator may set: a band of at most the whole threshold, the levels in order.\<close>

definition sane_thresholds :: "thresholds \<Rightarrow> bool" where
  "sane_thresholds th \<longleftrightarrow>
     0 \<le> demotion_hysteresis_pct th \<and> demotion_hysteresis_pct th \<le> 100 \<and>
     0 \<le> tl1_days_active th \<and> tl1_days_active th \<le> tl2_days_active th \<and> tl2_days_active th < 2 ^ 31 \<and>
     0 \<le> tl1_posts_read th \<and> tl1_posts_read th \<le> tl2_posts_read th \<and> tl2_posts_read th < 2 ^ 31 \<and>
     0 \<le> tl1_posts_created th \<and> tl1_posts_created th \<le> tl2_posts_created th \<and> tl2_posts_created th < 2 ^ 31 \<and>
     0 \<le> inactivity_demotion_secs th"

lemma below_band_sane:
  assumes "sane_thresholds th" "below_band (demotion_hysteresis_pct th) x t"
    and "t \<in> {tl1_days_active th, tl2_days_active th, tl1_posts_read th, tl2_posts_read th,
              tl1_posts_created th, tl2_posts_created th}"
  shows "x < t"
  by (rule below_band_less [OF _ _ _ _ assms(2)]) (use assms(1,3) in \<open>auto simp: sane_thresholds_def\<close>)

lemma demoted_level:
  assumes "decide_demotion row th now = Demote from to"
  shows "from = trust_from_i32 (wl_trust_level row)" "from = Regular_TL \<or> from = Member" "to < from"
proof -
  show "from = trust_from_i32 (wl_trust_level row)"
    using assms by (auto simp: decide_demotion_def Let_def split: if_splits)
  show "from = Regular_TL \<or> from = Member"
    using assms by (cases "trust_from_i32 (wl_trust_level row)")
      (auto simp: decide_demotion_def Let_def split: if_splits)
  show "to < from"
    using assms by (cases "trust_from_i32 (wl_trust_level row)")
      (auto simp: decide_demotion_def Let_def trust_order split: if_splits)
qed

text \<open>C21. A demotion lowers the level by at least one and is stable: with an operator's thresholds in
  order and a band of at most 100 percent, the activity that justified the demotion does not
  earn more than the level demoted to, so the promotion check on the member's next request
  leaves it there (the \<open>f64\<close> rounding of the band included). Administrators and
  administratively granted levels are never demoted.\<close>

theorem demotion_is_stable:
  assumes "sane_thresholds th" "decide_demotion row th now = Demote from to"
  shows "to < from \<and> earned row th \<le> to \<and> from \<noteq> Trusted \<and> wl_is_admin row \<noteq> Some 1 \<and>
    last_active_i64 row + inactivity_demotion_secs th \<le> now"
proof -
  note lv = demoted_level [OF assms(2)]
  have idle: "inactivity_demotion_secs th \<le> sat_sub_i64 now (last_active_i64 row)" "wl_is_admin row \<noteq> Some 1"
    using assms(2) by (auto simp: decide_demotion_def Let_def split: if_splits option.splits)
  have "last_active_i64 row + inactivity_demotion_secs th \<le> now"
    using idle(1) assms(1) by (auto simp: sat_sub_i64_def sane_thresholds_def max_def min_def split: if_splits)
  note idle = this idle(2)
  have "earned row th \<le> to"
    using lv(2)
  proof
    assume f: "from = Regular_TL"
    then have to: "to = (if earned row th \<ge> Member then Member else Newcomer)"
      and broke: "below_band (demotion_hysteresis_pct th) (wl_days_active row) (tl2_days_active th)
            \<or> below_band (demotion_hysteresis_pct th) (wl_posts_read row) (tl2_posts_read th)
            \<or> below_band (demotion_hysteresis_pct th) (wl_posts_created row) (tl2_posts_created th)
            \<or> wl_mod_actions row > 0"
      using assms(2) lv(1) by (auto simp: decide_demotion_def Let_def split: if_splits)
    have "wl_days_active row < tl2_days_active th \<or> wl_posts_read row < tl2_posts_read th
        \<or> wl_posts_created row < tl2_posts_created th \<or> wl_mod_actions row > 0"
      using broke below_band_sane [OF assms(1)] by blast
    then have "earned row th \<noteq> Regular_TL"
      by (auto simp: earned_def compute_trust_level_def)
    then show ?thesis
      unfolding to by (cases "earned row th")
        (auto simp: trust_order earned_def compute_trust_level_def split: if_splits)
  next
    assume f: "from = Member"
    then have to: "to = Newcomer"
      and broke: "below_band (demotion_hysteresis_pct th) (wl_days_active row) (tl1_days_active th)
            \<or> below_band (demotion_hysteresis_pct th) (wl_posts_read row) (tl1_posts_read th)
            \<or> below_band (demotion_hysteresis_pct th) (wl_posts_created row) (tl1_posts_created th)"
      using assms(2) lv(1) by (auto simp: decide_demotion_def Let_def split: if_splits)
    have "wl_days_active row < tl1_days_active th \<or> wl_posts_read row < tl1_posts_read th
        \<or> wl_posts_created row < tl1_posts_created th"
      using broke below_band_sane [OF assms(1)] by blast
    then show ?thesis
      using assms(1) unfolding to
      by (auto simp: earned_def compute_trust_level_def sane_thresholds_def)
  qed
  with lv idle show ?thesis by auto
qed

definition idle_member :: whitelist_row where
  "idle_member = \<lparr>wl_pubkey = ''m'', wl_trust_level = 2, wl_days_active = 20, wl_posts_read = 60,
     wl_posts_created = 12, wl_mod_actions = 1, wl_last_active_at = Some 1000,
     wl_trust_updated_at = None, wl_is_admin = None\<rparr>"

theorem demotion_is_stable_witness:
  "decide_demotion idle_member default_thresholds 20000000 = Demote Regular_TL Member \<and>
   earned idle_member default_thresholds \<le> Member"
proof -
  have d: "decide_demotion idle_member default_thresholds 20000000 = Demote Regular_TL Member"
    by (simp add: decide_demotion_def idle_member_def default_thresholds_def trust_from_i32_def
        earned_def compute_trust_level_def sat_sub_i64_def last_active_i64_def)
  have "sane_thresholds default_thresholds"
    by (simp add: sane_thresholds_def default_thresholds_def)
  from demotion_is_stable [OF this d] d show ?thesis by blast
qed

end
