(* ===== verification/Sweep.thy ===== *)
theory Sweep
  imports Trust Machine "HOL-Library.Char_ord" "HOL-Library.List_Lexorder" "HOL-Library.Product_Lexorder"
begin

text \<open>
  The scheduled demotion sweep (\<open>nostr-bbs-relay-worker/src/trust_sweep.rs\<close>): an engine that pages
  through idle members by a cursor over (last activity, key), decides each row and commits one
  transition with its audit entry, over the storage interface of the trait \<open>DemotionStore\<close>; and the
  D1 store behind it. Keys compare as bytes, as SQLite's text order does.

  The D1 store carries a script: before each of its calls other writers may change the whitelist
  in any way, and the call itself may be lost on either leg.
\<close>

section \<open>Cursor and outcomes\<close>

type_synonym sweep_cursor = "nat \<times> string"

definition sweep_key :: "whitelist_row \<Rightarrow> sweep_cursor" where
  "sweep_key r = (case wl_last_active_at r of Some t \<Rightarrow> t | None \<Rightarrow> 0, wl_pubkey r)"

datatype failure_stage = PageFailed | CommitFailed

record sweep_result =
  sr_scanned :: nat
  sr_demoted :: nat
  sr_held :: nat
  sr_failed :: nat
  sr_truncated :: bool
  sr_aborted :: bool
  sr_failures :: "(string option \<times> failure_stage) list"
  sr_resume_cursor :: "sweep_cursor option"

definition empty_result :: sweep_result where
  "empty_result = \<lparr>sr_scanned = 0, sr_demoted = 0, sr_held = 0, sr_failed = 0, sr_truncated = False,
     sr_aborted = False, sr_failures = [], sr_resume_cursor = None\<rparr>"

definition is_balanced :: "sweep_result \<Rightarrow> bool" where
  "is_balanced r \<longleftrightarrow> sr_scanned r = sr_demoted r + sr_held r + sr_failed r"

definition MAX_SAMPLED_FAILURES :: nat where "MAX_SAMPLED_FAILURES = 32"

definition record_failure :: "string option \<Rightarrow> failure_stage \<Rightarrow> sweep_result \<Rightarrow> sweep_result" where
  "record_failure pk stage r =
     (if length (sr_failures r) < MAX_SAMPLED_FAILURES
      then r\<lparr>sr_failures := sr_failures r @ [(pk, stage)]\<rparr> else r)"

section \<open>The engine\<close>

text \<open>The trait \<open>DemotionStore\<close>: a page may fail, a commit answers whether it was confirmed.\<close>

record 's demotion_store =
  ds_page :: "int \<Rightarrow> sweep_cursor option \<Rightarrow> nat \<Rightarrow> 's \<Rightarrow> 's \<times> whitelist_row list option"
  ds_commit :: "string \<Rightarrow> trust_level \<Rightarrow> trust_level \<Rightarrow> int \<Rightarrow> whitelist_row \<Rightarrow> 's \<Rightarrow> 's \<times> bool"

definition sweep_row ::
  "'s demotion_store \<Rightarrow> thresholds \<Rightarrow> int \<Rightarrow> whitelist_row \<Rightarrow> sweep_result \<Rightarrow> 's \<Rightarrow> sweep_result \<times> 's"
where
  "sweep_row store th now row res s =
     (let res = res\<lparr>sr_resume_cursor := Some (sweep_key row), sr_scanned := sr_scanned res + 1\<rparr> in
      case decide_demotion row th now of
        Hold _ \<Rightarrow> (res\<lparr>sr_held := sr_held res + 1\<rparr>, s)
      | Demote from to \<Rightarrow>
          (case ds_commit store (wl_pubkey row) from to now row s of
             (s, True) \<Rightarrow> (res\<lparr>sr_demoted := sr_demoted res + 1\<rparr>, s)
           | (s, False) \<Rightarrow>
               (record_failure (Some (wl_pubkey row)) CommitFailed
                  (res\<lparr>sr_failed := sr_failed res + 1\<rparr>), s)))"

text \<open>One page, row by row; the first component says whether the row ceiling ended the sweep.\<close>

fun sweep_rows ::
  "'s demotion_store \<Rightarrow> thresholds \<Rightarrow> int \<Rightarrow> nat \<Rightarrow> whitelist_row list \<Rightarrow> sweep_cursor option \<Rightarrow>
   sweep_result \<Rightarrow> 's \<Rightarrow> bool \<times> sweep_cursor option \<times> sweep_result \<times> 's"
where
  "sweep_rows store th now max_rows [] cursor res s = (False, cursor, res, s)"
| "sweep_rows store th now max_rows (row # rows) cursor res s =
     (case sweep_row store th now row res s of
        (res', s') \<Rightarrow>
          if sr_scanned res' \<ge> max_rows
          then (True, Some (sweep_key row), res'\<lparr>sr_truncated := True\<rparr>, s')
          else sweep_rows store th now max_rows rows (Some (sweep_key row)) res' s')"

definition sweep_cutoff :: "thresholds \<Rightarrow> int \<Rightarrow> int" where
  "sweep_cutoff th now = sat_sub_i64 now (inactivity_demotion_secs th)"

lemma sweep_row_scanned: "sr_scanned (fst (sweep_row store th now row res s)) = sr_scanned res + 1"
  by (simp add: sweep_row_def Let_def record_failure_def split: demotion_decision.split prod.split bool.split)

lemma sweep_rows_scanned:
  "sweep_rows store th now m rows c res s = (False, c', res', s') \<Longrightarrow>
   sr_scanned res' = sr_scanned res + length rows \<and> (rows \<noteq> [] \<longrightarrow> sr_scanned res' < m)"
proof (induction rows arbitrary: c res s)
  case Nil
  then show ?case by simp
next
  case (Cons row rows)
  obtain r1 s1 where r1: "sweep_row store th now row res s = (r1, s1)" by force
  have n: "sr_scanned r1 = sr_scanned res + 1"
    using sweep_row_scanned [of store th now row res s] by (simp add: r1)
  from Cons.prems have lt: "sr_scanned r1 < m"
    and rest: "sweep_rows store th now m rows (Some (sweep_key row)) r1 s1 = (False, c', res', s')"
    by (auto simp: r1 not_le split: if_splits)
  from Cons.IH [OF rest] n lt show ?case by (cases rows) auto
qed

text \<open>
  The loop ends for every store: each turn that goes on has consumed rows, and the row ceiling
  bounds how many.
\<close>

function sweep_loop ::
  "'s demotion_store \<Rightarrow> thresholds \<Rightarrow> int \<Rightarrow> nat \<Rightarrow> nat \<Rightarrow> sweep_cursor option \<Rightarrow>
   sweep_result \<Rightarrow> 's \<Rightarrow> sweep_result \<times> 's"
where
  "sweep_loop store th now batch max_rows cursor res s =
     (case ds_page store (sweep_cutoff th now) cursor batch s of
        (s', None) \<Rightarrow> (record_failure None PageFailed (res\<lparr>sr_aborted := True\<rparr>), s')
      | (s', Some page) \<Rightarrow>
          if page = [] then (res, s')
          else case sweep_rows store th now max_rows page cursor res s' of
            (True, c, r, s'') \<Rightarrow> (r, s'')
          | (False, c, r, s'') \<Rightarrow>
              if length page < batch then (r, s'')
              else sweep_loop store th now batch max_rows c r s'')"
  by pat_completeness auto

termination
  by (relation "measure (\<lambda>(store, th, now, batch, m, c, res, s). m - sr_scanned res)")
    (auto dest!: sym [THEN sweep_rows_scanned] intro!: diff_less_mono2)

declare sweep_loop.simps [simp del]

definition run_demotion_sweep_from ::
  "'s demotion_store \<Rightarrow> thresholds \<Rightarrow> int \<Rightarrow> nat \<Rightarrow> nat \<Rightarrow> sweep_cursor option \<Rightarrow> 's \<Rightarrow> sweep_result \<times> 's"
where
  "run_demotion_sweep_from store th now batch max_rows after s =
     sweep_loop store th now (max batch 1) max_rows after empty_result s"

section \<open>The D1 store\<close>

record sweep_db =
  sd_rows :: "whitelist_row list"
  sd_log :: "(string \<times> trust_level \<times> trust_level \<times> int) list"
  sd_script :: "((whitelist_row list \<Rightarrow> whitelist_row list) \<times> net) list"

definition sweep_call :: "sweep_db \<Rightarrow> net \<times> sweep_db" where
  "sweep_call db =
     (case sd_script db of
        [] \<Rightarrow> (Delivered, db)
      | (w, n) # rest \<Rightarrow> (n, db\<lparr>sd_rows := w (sd_rows db), sd_script := rest\<rparr>))"

definition coalesce_admin :: "whitelist_row \<Rightarrow> int" where
  "coalesce_admin r = (case wl_is_admin r of Some a \<Rightarrow> a | None \<Rightarrow> 0)"

text \<open>\<open>CANDIDATE_PREDICATE\<close>\<close>

definition candidate :: "int \<Rightarrow> whitelist_row \<Rightarrow> bool" where
  "candidate cutoff r \<longleftrightarrow>
     wl_trust_level r \<ge> trust_as_i32 Member \<and> wl_trust_level r \<le> trust_as_i32 Regular_TL \<and>
     int (fst (sweep_key r)) \<le> cutoff \<and> coalesce_admin r = 0"

definition after_cursor :: "sweep_cursor option \<Rightarrow> whitelist_row \<Rightarrow> bool" where
  "after_cursor after r = (case after of None \<Rightarrow> True | Some c \<Rightarrow> c < sweep_key r)"

definition page_of :: "int \<Rightarrow> sweep_cursor option \<Rightarrow> nat \<Rightarrow> whitelist_row list \<Rightarrow> whitelist_row list" where
  "page_of cutoff after limit rows =
     take limit (sort_key sweep_key (filter (\<lambda>r. candidate cutoff r \<and> after_cursor after r) rows))"

definition candidate_page ::
  "int \<Rightarrow> sweep_cursor option \<Rightarrow> nat \<Rightarrow> sweep_db \<Rightarrow> sweep_db \<times> whitelist_row list option"
where
  "candidate_page cutoff after limit db =
     (case sweep_call db of
        (n, db') \<Rightarrow> (db', if n = Delivered then Some (page_of cutoff after limit (sd_rows db')) else None))"

text \<open>\<open>DEMOTION_UPDATE_SQL\<close> and its conditional audit entry, in one batch.\<close>

definition demotion_hits :: "string \<Rightarrow> trust_level \<Rightarrow> whitelist_row \<Rightarrow> whitelist_row \<Rightarrow> bool" where
  "demotion_hits pk from observed r \<longleftrightarrow>
     wl_pubkey r = pk \<and> wl_trust_level r = trust_as_i32 from \<and>
     wl_is_admin r = wl_is_admin observed \<and> coalesce_admin r \<noteq> 1 \<and>
     wl_last_active_at r = wl_last_active_at observed \<and>
     wl_trust_updated_at r = wl_trust_updated_at observed \<and>
     wl_days_active r = wl_days_active observed \<and> wl_posts_read r = wl_posts_read observed \<and>
     wl_posts_created r = wl_posts_created observed \<and> wl_mod_actions r = wl_mod_actions observed"

definition demoted_row :: "trust_level \<Rightarrow> int \<Rightarrow> whitelist_row \<Rightarrow> whitelist_row" where
  "demoted_row to now r = r\<lparr>wl_trust_level := trust_as_i32 to, wl_trust_updated_at := Some (nat now)\<rparr>"

definition commit_demotion ::
  "string \<Rightarrow> trust_level \<Rightarrow> trust_level \<Rightarrow> int \<Rightarrow> whitelist_row \<Rightarrow> sweep_db \<Rightarrow> sweep_db \<times> bool"
where
  "commit_demotion pk from to now observed db =
     (case sweep_call db of
        (n, db') \<Rightarrow>
          if n = RequestLost then (db', False)
          else
            (let changes = count_rows (demotion_hits pk from observed) (sd_rows db') in
             (db'\<lparr>sd_rows := update_rows (demotion_hits pk from observed) (demoted_row to now) (sd_rows db'),
                  sd_log := (if changes = 1 then sd_log db' @ [(pk, from, to, now)] else sd_log db')\<rparr>,
              n = Delivered \<and> changes = 1)))"

definition d1_demotion_store :: "sweep_db demotion_store" where
  "d1_demotion_store = \<lparr>ds_page = candidate_page, ds_commit = commit_demotion\<rparr>"

definition DEMOTION_BATCH_SIZE :: nat where "DEMOTION_BATCH_SIZE = 200"
definition DEMOTION_MAX_ROWS :: nat where "DEMOTION_MAX_ROWS = 50000"

text \<open>
  \<open>sweep_inactive_demotions\<close>, the scheduled entry: it resumes from the stored cursor, and stores
  the new one or clears it; the cursor table is the first component of the state. \<open>n\<close> is what the
  network does to the table's creation, to its read and to its write; any of them ends the entry
  with an error, the last one after the sweep has run.
\<close>

definition sweep_inactive_demotions ::
  "net \<times> net \<times> net \<Rightarrow> thresholds \<Rightarrow> int \<Rightarrow> sweep_cursor option \<times> sweep_db \<Rightarrow>
   sweep_result option \<times> sweep_cursor option \<times> sweep_db"
where
  "sweep_inactive_demotions n th now st =
     (if fst n \<noteq> Delivered \<or> fst (snd n) \<noteq> Delivered then (None, st)
      else case run_demotion_sweep_from d1_demotion_store th now DEMOTION_BATCH_SIZE DEMOTION_MAX_ROWS
             (fst st) (snd st) of
        (r, db) \<Rightarrow>
          (if (sr_truncated r \<or> sr_aborted r) \<and> sr_resume_cursor r = None then (Some r, fst st, db)
           else
             (if snd (snd n) = Delivered then Some r else None,
              if snd (snd n) = RequestLost then fst st
              else if sr_truncated r \<or> sr_aborted r then sr_resume_cursor r else None, db)))"

section \<open>Every scanned row is accounted for\<close>

lemma sweep_row_account:
  "is_balanced res \<Longrightarrow> length (sr_failures res) \<le> MAX_SAMPLED_FAILURES \<Longrightarrow>
   is_balanced (fst (sweep_row store th now row res s)) \<and>
   length (sr_failures (fst (sweep_row store th now row res s))) \<le> MAX_SAMPLED_FAILURES"
  by (auto simp: sweep_row_def Let_def is_balanced_def record_failure_def
      split: demotion_decision.split prod.split bool.split)

lemma sweep_rows_account:
  "is_balanced res \<Longrightarrow> length (sr_failures res) \<le> MAX_SAMPLED_FAILURES \<Longrightarrow>
   sweep_rows store th now m rows c res s = (stop, c', res', s') \<Longrightarrow>
   is_balanced res' \<and> length (sr_failures res') \<le> MAX_SAMPLED_FAILURES \<and>
   (stop \<longrightarrow> sr_scanned res' = max m (sr_scanned res + 1)) \<and> (stop \<longleftrightarrow> stop \<and> rows \<noteq> [])"
proof (induction rows arbitrary: c res s)
  case (Cons row rows)
  obtain r1 s1 where r1: "sweep_row store th now row res s = (r1, s1)" by force
  have a: "is_balanced r1" "length (sr_failures r1) \<le> MAX_SAMPLED_FAILURES"
    using sweep_row_account [OF Cons.prems(1,2), of store th now row s] by (simp_all add: r1)
  have n: "sr_scanned r1 = sr_scanned res + 1"
    using sweep_row_scanned [of store th now row res s] by (simp add: r1)
  show ?case
  proof (cases "m \<le> sr_scanned r1")
    case True
    with Cons.prems(3) a n show ?thesis by (auto simp: r1 is_balanced_def)
  next
    case False
    with Cons.prems(3) have "sweep_rows store th now m rows (Some (sweep_key row)) r1 s1 = (stop, c', res', s')"
      by (simp add: r1)
    from Cons.IH [OF a this] n False show ?thesis by auto
  qed
qed auto


lemma sweep_row_truncated: "sr_truncated (fst (sweep_row store th now row res s)) = sr_truncated res"
  by (simp add: sweep_row_def Let_def record_failure_def split: demotion_decision.split prod.split bool.split)

lemma sweep_rows_truncated:
  "sweep_rows store th now m rows c res s = (stop, c', r, s') \<Longrightarrow> \<not> sr_truncated res \<Longrightarrow>
   sr_truncated r = stop"
proof (induction rows arbitrary: c res s)
  case (Cons row rows)
  obtain r1 s1 where r1: "sweep_row store th now row res s = (r1, s1)" by force
  with Cons sweep_row_truncated [of store th now row res s] show ?case
    by (auto simp: r1 split: if_splits)
qed auto

lemma sweep_loop_account:
  "is_balanced res \<Longrightarrow> length (sr_failures res) \<le> MAX_SAMPLED_FAILURES \<Longrightarrow> \<not> sr_truncated res \<Longrightarrow>
   sr_scanned res = 0 \<or> sr_scanned res < m \<Longrightarrow>
   sweep_loop store th now batch m c res s = (r, s') \<Longrightarrow>
   is_balanced r \<and> length (sr_failures r) \<le> MAX_SAMPLED_FAILURES \<and>
   (if sr_truncated r then sr_scanned r = max m 1 else sr_scanned r = 0 \<or> sr_scanned r < m)"
proof (induction store th now batch m c res s rule: sweep_loop.induct)
  case (1 store th now batch m c res s)
  obtain s1 p where pg: "ds_page store (sweep_cutoff th now) c batch s = (s1, p)" by force
  show ?case
  proof (cases p)
    case None
    then have "r = record_failure None PageFailed (res\<lparr>sr_aborted := True\<rparr>)"
      using "1.prems"(5) by (subst (asm) sweep_loop.simps) (simp add: pg)
    then show ?thesis
      using "1.prems"(1-4) by (auto simp: record_failure_def is_balanced_def)
  next
    case (Some page)
    show ?thesis
    proof (cases "page = []")
      case True
      then have "r = res"
        using "1.prems"(5) Some by (subst (asm) sweep_loop.simps) (simp add: pg)
      then show ?thesis using "1.prems"(1-4) by auto
    next
      case False
      obtain stop c1 r1 s2 where rows: "sweep_rows store th now m page c res s1 = (stop, c1, r1, s2)"
        by (metis prod_cases4)
      note acc = sweep_rows_account [OF "1.prems"(1,2) rows]
      have trunc: "sr_truncated r1 = stop" by (rule sweep_rows_truncated [OF rows "1.prems"(3)])
      have result: "(if stop \<or> length page < batch then (r1, s2)
          else sweep_loop store th now batch m c1 r1 s2) = (r, s')"
        using "1.prems"(5) Some False
        by (subst (asm) sweep_loop.simps) (simp add: pg rows split: bool.splits if_splits)
      show ?thesis
      proof (cases stop)
        case True
        with result acc trunc "1.prems"(4) show ?thesis by (auto simp: max_def)
      next
        case no_stop: False
        then have lt: "sr_scanned r1 < m"
          using sweep_rows_scanned [of store th now m page c res s1 c1 r1 s2] rows False by simp
        show ?thesis
        proof (cases "length page < batch")
          case True
          with result acc trunc no_stop lt show ?thesis by auto
        next
          case more: False
          show ?thesis
            by (rule "1.IH" [OF pg [symmetric] Some False rows [symmetric] _ refl refl more])
              (use no_stop more acc trunc lt result in simp_all)
        qed
      qed
    qed
  qed
qed

text \<open>C20. The sweep returns for every store, however its calls answer, and its report is
  auditable: every scanned row is counted under exactly one outcome, no more rows are read than
  the ceiling allows (one more where the ceiling is zero), the failures kept are bounded, and the
  report says truncated exactly when the ceiling was reached.\<close>

theorem sweep_accounts:
  "\<exists>r s'. run_demotion_sweep_from store th now batch m after s = (r, s') \<and>
     sr_scanned r = sr_demoted r + sr_held r + sr_failed r \<and> sr_scanned r \<le> max m 1 \<and>
     length (sr_failures r) \<le> 32 \<and> (sr_truncated r = (sr_scanned r = max m 1))"
proof -
  obtain r s' where run: "run_demotion_sweep_from store th now batch m after s = (r, s')" by force
  have "is_balanced r \<and> length (sr_failures r) \<le> MAX_SAMPLED_FAILURES \<and>
     (if sr_truncated r then sr_scanned r = max m 1 else sr_scanned r = 0 \<or> sr_scanned r < m)"
    by (rule sweep_loop_account [OF _ _ _ _ run [unfolded run_demotion_sweep_from_def]])
      (simp_all add: empty_result_def is_balanced_def)
  then show ?thesis
    using run by (auto simp: is_balanced_def MAX_SAMPLED_FAILURES_def split: if_splits)
qed

section \<open>What an undisturbed sweep leaves behind\<close>

text \<open>The row the policy wants.\<close>

definition settled :: "thresholds \<Rightarrow> int \<Rightarrow> whitelist_row \<Rightarrow> whitelist_row" where
  "settled th now r = (case decide_demotion r th now of Hold _ \<Rightarrow> r | Demote from to \<Rightarrow> demoted_row to now r)"

text \<open>The table when the sweep has consumed the candidates up to a key.\<close>

definition settled_upto :: "thresholds \<Rightarrow> int \<Rightarrow> whitelist_row set \<Rightarrow> whitelist_row \<Rightarrow> whitelist_row" where
  "settled_upto th now done r = (if r \<in> done then settled th now r else r)"

lemma settled_key [simp]: "sweep_key (settled th now r) = sweep_key r" "wl_pubkey (settled th now r) = wl_pubkey r"
  by (simp_all add: settled_def demoted_row_def sweep_key_def split: demotion_decision.split)

lemma settled_upto_key [simp]:
  "sweep_key (settled_upto th now D r) = sweep_key r" "wl_pubkey (settled_upto th now D r) = wl_pubkey r"
  by (simp_all add: settled_upto_def)

lemma update_one_row:
  assumes "distinct (map wl_pubkey rows)" "x \<in> set rows" "x \<notin> D" "demotion_hits pk from obs x"
    "pk = wl_pubkey x"
  shows "update_rows (demotion_hits pk from obs) f (map (settled_upto th now D) rows) =
      map (\<lambda>r. if r = x then f x else settled_upto th now D r) rows"
    and "count_rows (demotion_hits pk from obs) (map (settled_upto th now D) rows) = 1"
proof -
  have hit: "demotion_hits pk from obs (settled_upto th now D r) \<longleftrightarrow> r = x" if "r \<in> set rows" for r
  proof
    assume "demotion_hits pk from obs (settled_upto th now D r)"
    then have "wl_pubkey r = wl_pubkey x" using assms(5) by (simp add: demotion_hits_def)
    with assms(1,2) that show "r = x" by (auto simp: distinct_map inj_on_def)
  qed (use assms(3,4) in \<open>simp add: settled_upto_def\<close>)
  show "update_rows (demotion_hits pk from obs) f (map (settled_upto th now D) rows) =
      map (\<lambda>r. if r = x then f x else settled_upto th now D r) rows"
    using hit assms(3) by (auto simp: update_rows_def settled_upto_def)
  have "count_rows (demotion_hits pk from obs) (map (settled_upto th now D) rows) =
      length (filter (\<lambda>r. r = x) rows)"
    using hit by (simp add: count_rows_def filter_map o_def cong: filter_cong)
  also have "\<dots> = 1"
    using assms(1,2) by (simp add: distinct_map distinct_length_filter Collect_conv_if)
  finally show "count_rows (demotion_hits pk from obs) (map (settled_upto th now D) rows) = 1" .
qed

lemma settled_insert:
  assumes "x \<notin> D"
  shows "map (\<lambda>r. if r = x then settled th now x else settled_upto th now D r) rows =
    map (settled_upto th now (insert x D)) rows"
  using assms by (auto simp: settled_upto_def)

definition undisturbed :: "thresholds \<Rightarrow> int \<Rightarrow> whitelist_row list \<Rightarrow> whitelist_row set \<Rightarrow> sweep_db \<Rightarrow> bool" where
  "undisturbed th now rows D db \<longleftrightarrow> sd_script db = [] \<and> sd_rows db = map (settled_upto th now D) rows"

definition clean :: "sweep_result \<Rightarrow> bool" where
  "clean r \<longleftrightarrow> sr_failed r = 0 \<and> \<not> sr_aborted r \<and> \<not> sr_truncated r"

lemma sweep_row_d1:
  assumes "distinct (map wl_pubkey rows)" "undisturbed th now rows D db" "x \<in> set rows" "x \<notin> D"
    "candidate cf x" "clean res"
  shows "\<exists>r db'. sweep_row d1_demotion_store th now x res db = (r, db') \<and>
    undisturbed th now rows (insert x D) db' \<and> clean r"
proof (cases "decide_demotion x th now")
  case (Hold h)
  then have "settled th now x = x" by (simp add: settled_def)
  then have "map (settled_upto th now (insert x D)) rows = map (settled_upto th now D) rows"
    using assms(4) by (auto simp: settled_upto_def)
  with assms(2,6) Hold show ?thesis
    by (simp add: sweep_row_def undisturbed_def clean_def)
next
  case (Demote l0 l1)
  have lvl: "wl_trust_level x = 1 \<or> wl_trust_level x = 2"
    using assms(5) by (auto simp: candidate_def trust_as_i32_def)
  have hit: "demotion_hits (wl_pubkey x) l0 x x"
    using demoted_level(1) [OF Demote] lvl assms(5)
    by (auto simp: demotion_hits_def candidate_def trust_from_i32_def trust_as_i32_def)
  have fin: "demoted_row l1 now x = settled th now x" using Demote by (simp add: settled_def)
  have "sd_rows db = map (settled_upto th now D) rows" "sd_script db = []"
    using assms(2) by (simp_all add: undisturbed_def)
  moreover have "commit_demotion (wl_pubkey x) l0 l1 now x db =
      (db\<lparr>sd_rows := map (settled_upto th now (insert x D)) rows,
          sd_log := sd_log db @ [(wl_pubkey x, l0, l1, now)]\<rparr>, True)"
    using calculation update_one_row(1) [OF assms(1,3,4) hit refl, where f = "demoted_row l1 now" and th = th and now = now,
        unfolded fin settled_insert [OF assms(4)]]
      update_one_row(2) [OF assms(1,3,4) hit refl, of th now]
    by (simp add: commit_demotion_def sweep_call_def)
  ultimately show ?thesis
    using assms(6) Demote by (simp add: sweep_row_def d1_demotion_store_def undisturbed_def clean_def)
qed

lemma sweep_rows_d1:
  assumes "distinct (map wl_pubkey rows)"
  shows "undisturbed th now rows D db \<Longrightarrow> set xs \<subseteq> set rows \<Longrightarrow> set xs \<inter> D = {} \<Longrightarrow> distinct xs \<Longrightarrow>
    \<forall>x \<in> set xs. candidate cf x \<Longrightarrow> clean res \<Longrightarrow> sr_scanned res + length xs < m \<Longrightarrow>
    \<exists>r db'. sweep_rows d1_demotion_store th now m xs c res db =
        (False, if xs = [] then c else Some (sweep_key (last xs)), r, db') \<and>
      undisturbed th now rows (D \<union> set xs) db' \<and> clean r \<and> sr_scanned r = sr_scanned res + length xs"
proof (induction xs arbitrary: D db c res)
  case (Cons x xs)
  have x: "x \<in> set rows" "x \<notin> D" "candidate cf x" "x \<notin> set xs"
    and xs: "set xs \<subseteq> set rows" "set xs \<inter> insert x D = {}" "distinct xs" "\<forall>y \<in> set xs. candidate cf y"
    using Cons.prems(2-5) by simp_all
  obtain r1 db1 where 1: "sweep_row d1_demotion_store th now x res db = (r1, db1)"
    "undisturbed th now rows (insert x D) db1" "clean r1"
    using sweep_row_d1 [OF assms Cons.prems(1) x(1-3) Cons.prems(6)] by blast
  have n: "sr_scanned r1 = sr_scanned res + 1"
    using sweep_row_scanned [of d1_demotion_store th now x res db] by (simp add: 1)
  then have lt: "sr_scanned r1 + length xs < m" "\<not> m \<le> sr_scanned r1"
    using Cons.prems(7) by simp_all
  obtain r2 db2 where 2: "sweep_rows d1_demotion_store th now m xs (Some (sweep_key x)) r1 db1 =
        (False, if xs = [] then Some (sweep_key x) else Some (sweep_key (last xs)), r2, db2)"
    "undisturbed th now rows (insert x D \<union> set xs) db2" "clean r2" "sr_scanned r2 = sr_scanned r1 + length xs"
    using Cons.IH [OF 1(2) xs 1(3) lt(1)] by blast
  have "D \<union> set (x # xs) = insert x D \<union> set xs" by simp
  then show ?case
    using 2 n lt(2) by (simp add: 1(1))
qed simp

text \<open>The candidates not yet consumed, in page order.\<close>

definition pending :: "int \<Rightarrow> sweep_cursor option \<Rightarrow> whitelist_row list \<Rightarrow> whitelist_row list" where
  "pending cf c rows = sort_key sweep_key (filter (\<lambda>r. candidate cf r \<and> after_cursor c r) rows)"

definition consumed :: "int \<Rightarrow> sweep_cursor option \<Rightarrow> whitelist_row list \<Rightarrow> whitelist_row set" where
  "consumed cf c rows = {r \<in> set rows. candidate cf r \<and> \<not> after_cursor c r}"

lemma page_of_settled:
  "page_of cf c n (map (settled_upto th now (consumed cf c rows)) rows) = take n (pending cf c rows)"
proof -
  let ?D = "consumed cf c rows"
  have "filter (\<lambda>r. candidate cf r \<and> after_cursor c r) (map (settled_upto th now ?D) rows) =
      filter (\<lambda>r. candidate cf r \<and> after_cursor c r) rows"
    if "set rows \<subseteq> R" "?D = consumed cf c R'" "R \<subseteq> set R'" for rows R R' and th now
    using that
  proof (induction rows)
    case (Cons r rows)
    have "r \<in> consumed cf c R' \<Longrightarrow> \<not> after_cursor c (settled th now r)"
      by (cases c) (simp_all add: consumed_def after_cursor_def)
    moreover have "r \<in> consumed cf c R' \<Longrightarrow> \<not> after_cursor c r"
      by (simp add: consumed_def)
    ultimately show ?case
      using Cons by (auto simp: settled_upto_def)
  qed simp
  from this [of rows "set rows" rows] show ?thesis by (simp add: page_of_def pending_def)
qed

lemma pending_strict:
  assumes "distinct (map wl_pubkey rows)"
  shows "sorted_wrt (\<lambda>a b. sweep_key a < sweep_key b) (pending cf c rows)"
proof -
  let ?xs = "pending cf c rows"
  have "inj_on wl_pubkey (set rows)" using assms by (simp add: distinct_map)
  then have "inj_on sweep_key (set ?xs)"
    by (auto simp: pending_def inj_on_def sweep_key_def)
  then have "distinct (map sweep_key ?xs)"
    using assms by (simp add: pending_def distinct_map distinct_filter)
  moreover have "sorted (map sweep_key ?xs)" by (simp add: pending_def)
  ultimately have "sorted_wrt (<) (map sweep_key ?xs)" by (simp add: strict_sorted_iff)
  then show ?thesis by (simp add: sorted_wrt_map)
qed

lemma filter_after_take:
  "sorted_wrt (\<lambda>a b. f a < (f b :: 'k :: linorder)) xs \<Longrightarrow> take n xs \<noteq> [] \<Longrightarrow>
   filter (\<lambda>r. f (last (take n xs)) < f r) xs = drop n xs"
proof -
  assume s: "sorted_wrt (\<lambda>a b. f a < f b) xs" and ne: "take n xs \<noteq> []"
  define ys where "ys = take n xs"
  define zs where "zs = drop n xs"
  have xs: "xs = ys @ zs" by (simp add: ys_def zs_def)
  have ys: "ys = butlast ys @ [last ys]" using ne by (simp add: ys_def)
  have s2: "sorted_wrt (\<lambda>a b. f a < f b) (butlast ys @ last ys # zs)"
    using s unfolding xs by (subst (asm) ys) simp
  have "filter (\<lambda>r. f (last ys) < f r) (butlast ys) = []"
    using s2 by (fastforce simp: sorted_wrt_append filter_empty_conv dest: less_asym)
  moreover have "filter (\<lambda>r. f (last ys) < f r) zs = zs"
    using s2 by (simp add: sorted_wrt_append)
  ultimately have "filter (\<lambda>r. f (last ys) < f r) ((butlast ys @ [last ys]) @ zs) = zs"
    by simp
  then have "filter (\<lambda>r. f (last ys) < f r) xs = zs"
    unfolding ys [symmetric] xs [symmetric] .
  then show ?thesis by (simp add: ys_def zs_def)
qed

lemma pending_next:
  assumes "distinct (map wl_pubkey rows)" "take n (pending cf c rows) \<noteq> []"
  shows "pending cf (Some (sweep_key (last (take n (pending cf c rows))))) rows = drop n (pending cf c rows)"
    and "consumed cf (Some (sweep_key (last (take n (pending cf c rows))))) rows =
      consumed cf c rows \<union> set (take n (pending cf c rows))"
proof -
  let ?k = "sweep_key (last (take n (pending cf c rows)))"
  have "last (take n (pending cf c rows)) \<in> set (pending cf c rows)"
    by (rule in_set_takeD) (use assms(2) in \<open>rule last_in_set\<close>)
  then have after: "after_cursor (Some ?k) r \<Longrightarrow> after_cursor c r" for r
    by (cases c) (auto simp: pending_def after_cursor_def)
  have eq: "pending cf (Some k) rows = filter (\<lambda>r. k < sweep_key r) (pending cf c rows)"
    if "\<And>r. k < sweep_key r \<Longrightarrow> after_cursor c r" for k
    unfolding pending_def filter_sort filter_filter
    by (intro arg_cong [where f = "sort_key sweep_key"] filter_cong)
      (use that in \<open>auto simp: after_cursor_def [of "Some k"]\<close>)
  have "\<And>r. ?k < sweep_key r \<Longrightarrow> after_cursor c r"
    using after by (simp add: after_cursor_def [of "Some _"])
  from eq [OF this] filter_after_take [OF pending_strict [OF assms(1)] assms(2)]
  show drop: "pending cf (Some ?k) rows = drop n (pending cf c rows)" by simp
  have mem: "r \<in> set (pending cf c' rows) \<longleftrightarrow> r \<in> set rows \<and> candidate cf r \<and> after_cursor c' r" for c' r
    by (auto simp: pending_def)
  have split: "set (pending cf c rows) = set (take n (pending cf c rows)) \<union> set (drop n (pending cf c rows))"
    by (metis append_take_drop_id set_append)
  have "distinct (pending cf c rows)"
    using assms(1) by (simp add: pending_def distinct_map distinct_filter)
  then have "set (take n (pending cf c rows)) \<inter> set (drop n (pending cf c rows)) = {}"
    by (rule set_take_disj_set_drop_if_distinct) simp
  with split mem [of _ c] mem [of _ "Some ?k"] after
  show "consumed cf (Some ?k) rows = consumed cf c rows \<union> set (take n (pending cf c rows))"
    unfolding drop consumed_def by blast
qed

lemma sweep_loop_d1:
  assumes "distinct (map wl_pubkey rows)" "0 < batch"
  shows "undisturbed th now rows (consumed (sweep_cutoff th now) c rows) db \<Longrightarrow> clean res \<Longrightarrow>
    sr_scanned res + length (pending (sweep_cutoff th now) c rows) < m \<Longrightarrow>
    \<exists>r db' c'. sweep_loop d1_demotion_store th now batch m c res db = (r, db') \<and> clean r \<and>
      sr_scanned r = sr_scanned res + length (pending (sweep_cutoff th now) c rows) \<and>
      undisturbed th now rows (consumed (sweep_cutoff th now) c' rows) db' \<and>
      pending (sweep_cutoff th now) c' rows = []"
proof (induction "length (pending (sweep_cutoff th now) c rows)" arbitrary: c db res rule: less_induct)
  case less
  let ?cf = "sweep_cutoff th now"
  let ?p = "pending ?cf c rows"
  let ?page = "take batch ?p"
  have db: "sd_script db = []" "sd_rows db = map (settled_upto th now (consumed ?cf c rows)) rows"
    using less.prems(1) by (simp_all add: undisturbed_def)
  have page: "ds_page d1_demotion_store ?cf c batch db = (db, Some ?page)"
    using db by (simp add: d1_demotion_store_def candidate_page_def sweep_call_def page_of_settled)
  show ?case
  proof (cases "?page = []")
    case True
    then have "?p = []" using assms(2) by simp
    moreover have "sweep_loop d1_demotion_store th now batch m c res db = (res, db)"
      by (subst sweep_loop.simps) (simp add: page True)
    ultimately show ?thesis using less.prems by auto
  next
    case False
    let ?c = "Some (sweep_key (last ?page))"
    have in_p: "x \<in> set ?page \<Longrightarrow> x \<in> set rows \<and> candidate ?cf x \<and> after_cursor c x" for x
      by (auto simp: pending_def dest: in_set_takeD)
    have "distinct ?p" using assms(1) by (simp add: pending_def distinct_map distinct_filter)
    then have dist: "distinct ?page" by simp
    have sub: "set ?page \<subseteq> set rows" "set ?page \<inter> consumed ?cf c rows = {}" "\<forall>x \<in> set ?page. candidate ?cf x"
      using in_p by (auto simp: consumed_def)
    have lt: "sr_scanned res + length ?page < m" using less.prems(3) by simp
    obtain r1 db1 where rows: "sweep_rows d1_demotion_store th now m ?page c res db =
        (False, if ?page = [] then c else ?c, r1, db1)"
      "undisturbed th now rows (consumed ?cf c rows \<union> set ?page) db1" "clean r1"
      "sr_scanned r1 = sr_scanned res + length ?page"
      using sweep_rows_d1 [OF assms(1) less.prems(1) sub(1,2) dist sub(3) less.prems(2) lt] by blast
    note next_p = pending_next [OF assms(1) False]
    have next_db: "undisturbed th now rows (consumed ?cf ?c rows) db1"
      using rows(2) by (simp add: next_p)
    have step: "sweep_loop d1_demotion_store th now batch m c res db =
        (if length ?page < batch then (r1, db1) else sweep_loop d1_demotion_store th now batch m ?c r1 db1)"
      using False by (subst sweep_loop.simps) (simp add: page rows(1))
    show ?thesis
    proof (cases "length ?page < batch")
      case True
      then have all: "length ?p < batch" by simp
      then have "pending ?cf ?c rows = []" using next_p(1) by simp
      moreover have "length ?page = length ?p" using all by simp
      ultimately show ?thesis using step True rows(3,4) next_db by auto
    next
      case more: False
      have len: "length (pending ?cf ?c rows) + length ?page = length ?p" by (simp add: next_p)
      with False have shorter: "length (pending ?cf ?c rows) < length ?p"
        by (metis add.commute less_add_same_cancel2 length_greater_0_conv)
      have "sr_scanned r1 + length (pending ?cf ?c rows) < m" using rows(4) len less.prems(3) by simp
      from less.hyps [OF shorter next_db rows(3) this]
      obtain r2 db2 c2 where "sweep_loop d1_demotion_store th now batch m ?c r1 db1 = (r2, db2)" "clean r2"
        "sr_scanned r2 = sr_scanned r1 + length (pending ?cf ?c rows)"
        "undisturbed th now rows (consumed ?cf c2 rows) db2" "pending ?cf c2 rows = []"
        by blast
      then show ?thesis using step more rows(4) len by auto
    qed
  qed
qed

text \<open>A row due for demotion is among the candidates: the page query's cheap filter loses nobody.\<close>

lemma due_is_candidate:
  assumes "decide_demotion x th now = Demote l0 l1" "wl_is_admin x \<in> {None, Some 0, Some 1}"
    "0 \<le> inactivity_demotion_secs th" "\<bar>now\<bar> < 2 ^ 62"
  shows "candidate (sweep_cutoff th now) x"
proof -
  note lv = demoted_level [OF assms(1)]
  have level: "wl_trust_level x = 1 \<or> wl_trust_level x = 2"
    using lv(1,2) by (auto simp: trust_from_i32_def split: if_splits)
  have idle: "inactivity_demotion_secs th \<le> sat_sub_i64 now (last_active_i64 x)" "wl_is_admin x \<noteq> Some 1"
    using assms(1) by (auto simp: decide_demotion_def Let_def split: if_splits option.splits)
  have last: "0 \<le> last_active_i64 x"
    by (simp add: last_active_i64_def split: option.split)
  have "inactivity_demotion_secs th + last_active_i64 x \<le> now"
    using idle(1) assms(3) by (auto simp: sat_sub_i64_def max_def min_def split: if_splits)
  moreover from this have "last_active_i64 x < 2 ^ 62" using assms(3,4) by linarith
  then have "last_active_i64 x = int (fst (sweep_key x))"
    by (auto simp: last_active_i64_def sweep_key_def min_def split: option.splits if_splits)
  ultimately have "int (fst (sweep_key x)) \<le> sweep_cutoff th now"
    using assms(3,4) last by (auto simp: sweep_cutoff_def sat_sub_i64_def max_def min_def)
  with level idle(2) assms(2) show ?thesis
    by (auto simp: candidate_def coalesce_admin_def trust_as_i32_def)
qed

lemma not_candidate_settled:
  assumes "\<not> candidate (sweep_cutoff th now) x" "wl_is_admin x \<in> {None, Some 0, Some 1}"
    "0 \<le> inactivity_demotion_secs th" "\<bar>now\<bar> < 2 ^ 62"
  shows "settled th now x = x"
  using due_is_candidate [OF _ assms(2-4)] assms(1)
  by (auto simp: settled_def split: demotion_decision.split)

text \<open>C19. A sweep that nothing disturbs (no lost call, no concurrent writer, fewer candidates than
  the ceiling) demotes every member the policy says is due and touches nobody else, whatever
  the page size: paging over the very column the sweep rewrites neither skips a row nor visits
  one twice. It reports no failure, is neither truncated nor aborted, and clears the cursor.\<close>

theorem sweep_demotes_all_due:
  assumes "sd_script db = []" "distinct (map wl_pubkey (sd_rows db))"
    and "length (filter (candidate (sweep_cutoff th now)) (sd_rows db)) < m"
    and "\<forall>x \<in> set (sd_rows db). wl_is_admin x \<in> {None, Some 0, Some 1}"
    and "0 \<le> inactivity_demotion_secs th" "\<bar>now\<bar> < 2 ^ 62"
  shows "\<exists>r db'. run_demotion_sweep_from d1_demotion_store th now batch m None db = (r, db') \<and>
    sd_rows db' = map (settled th now) (sd_rows db) \<and>
    sr_failed r = 0 \<and> \<not> sr_truncated r \<and> \<not> sr_aborted r \<and>
    sr_scanned r = length (filter (candidate (sweep_cutoff th now)) (sd_rows db))"
proof -
  let ?cf = "sweep_cutoff th now" and ?rows = "sd_rows db"
  have start: "consumed ?cf None ?rows = {}" by (simp add: consumed_def after_cursor_def)
  have p: "length (pending ?cf None ?rows) = length (filter (candidate ?cf) ?rows)"
    by (simp add: pending_def after_cursor_def)
  have "undisturbed th now ?rows (consumed ?cf None ?rows) db"
    using assms(1) by (simp add: undisturbed_def start settled_upto_def [abs_def])
  moreover have max_1: "0 < max batch 1" by simp
  moreover have "clean empty_result" by (simp add: clean_def empty_result_def)
  moreover have "sr_scanned empty_result + length (pending ?cf None ?rows) < m"
    using assms(3) by (simp add: p empty_result_def)
  ultimately obtain r db' c' where run: "sweep_loop d1_demotion_store th now (max batch 1) m None empty_result db = (r, db')"
    "clean r" "sr_scanned r = sr_scanned empty_result + length (pending ?cf None ?rows)"
    "undisturbed th now ?rows (consumed ?cf c' ?rows) db'" "pending ?cf c' ?rows = []"
    using sweep_loop_d1 [OF assms(2) max_1] by blast
  have "settled_upto th now (consumed ?cf c' ?rows) x = settled th now x" if x: "x \<in> set ?rows" for x
  proof (cases "candidate ?cf x")
    case True
    have "\<not> after_cursor c' x"
      using run(5) x True by (auto simp: pending_def filter_empty_conv dest: arg_cong [where f = set])
    with x True show ?thesis by (simp add: settled_upto_def consumed_def)
  next
    case False
    then show ?thesis
      using not_candidate_settled [OF False _ assms(5,6)] assms(4) x by (auto simp: settled_upto_def)
  qed
  then have "sd_rows db' = map (settled th now) ?rows"
    using run(4) by (simp add: undisturbed_def)
  with run p show ?thesis
    by (auto simp: run_demotion_sweep_from_def clean_def empty_result_def)
qed

definition idle_db :: sweep_db where
  "idle_db = \<lparr>sd_rows = [idle_member, idle_member\<lparr>wl_pubkey := ''n'', wl_is_admin := Some 1\<rparr>],
     sd_log = [], sd_script = []\<rparr>"

theorem sweep_demotes_all_due_witness:
  "\<exists>r db'. run_demotion_sweep_from d1_demotion_store default_thresholds 20000000 1 10 None idle_db = (r, db') \<and>
     sd_rows db' = map (settled default_thresholds 20000000) (sd_rows idle_db) \<and> sr_failed r = 0"
proof -
  have "length (filter (candidate (sweep_cutoff default_thresholds 20000000)) (sd_rows idle_db)) < 10"
    by (rule le_less_trans [OF length_filter_le]) (simp add: idle_db_def)
  then show ?thesis
    using sweep_demotes_all_due [of idle_db default_thresholds 20000000 10 1]
    by (auto simp: idle_db_def idle_member_def default_thresholds_def)
qed

end
