(* ===== verification/Ledger.thy ===== *)
theory Ledger
  imports Trust Machine
begin

text \<open>
  The sats ledger (\<open>nostr-bbs-pod-worker/src/pay_ledger.rs\<close>): its tables, its SQL statements over
  them and the seven transactions the routes submit, each one D1 batch (all statements or none).
  Theory Pay_Routes holds the routes that submit them.

  Amounts are bound through \<open>sats\<close>, which clamps at the largest 64-bit integer. Balances are
  \<^typ>\<open>int\<close>: SQLite integers, whose 64-bit range 21 million bitcoins do not reach.
\<close>

section \<open>Tables\<close>

record account =
  ac_did :: string
  ac_balance :: int
  ac_updated_at :: int

record legacy_deposit =
  ld_txid :: string
  ld_vout :: nat

datatype job_status = JHeld | JRunning | JSettled | JFailed

record job =
  jb_id :: string
  jb_requester :: string
  jb_agent :: string
  jb_endpoint :: string
  jb_params :: "string option"
  jb_status :: job_status
  jb_estimated :: nat
  jb_held :: nat
  jb_actual :: "nat option"
  jb_created_at :: int
  jb_started_at :: "int option"
  jb_completed_at :: "int option"
  jb_error :: "string option"
  jb_expires_at :: "string option"
  jb_release_ref :: "string option"

record outpoint =
  op_chain :: string
  op_txid :: string
  op_vout :: nat

datatype credit_kind = DepositCredit outpoint | ReleaseCredit

record credit =
  cr_ref :: string
  cr_did :: string
  cr_amount :: nat
  cr_kind :: credit_kind
  cr_request_id :: "string option"
  cr_applied :: bool
  cr_created_at :: int

record ledger =
  lg_accounts :: "account list"
  lg_legacy :: "legacy_deposit list"
  lg_jobs :: "job list"
  lg_credits :: "credit list"

definition sats :: "nat \<Rightarrow> nat" where
  "sats v = min v 9223372036854775807"

definition replay_key :: "outpoint \<Rightarrow> string" where
  "replay_key o' = ''txo:'' @ op_chain o' @ '':'' @ op_txid o' @ '':'' @ dec_str (op_vout o')"

definition release_ref :: "string \<Rightarrow> string" where
  "release_ref jid = ''job:'' @ jid @ '':release''"

section \<open>Statements\<close>

text \<open>
  A statement answers the number of rows it changed, or violates a constraint (\<^const>\<open>None\<close>).
\<close>

type_synonym lstmt = "ledger \<Rightarrow> (nat \<times> ledger) option"

definition balance_of :: "string \<Rightarrow> ledger \<Rightarrow> int option" where
  "balance_of did l = map_option ac_balance (List.find (\<lambda>a. ac_did a = did) (lg_accounts l))"

text \<open>\<open>UPDATE webledger_accounts SET balance_sats = balance_sats - cost WHERE did = did AND balance_sats >= cost\<close>\<close>

definition debit_rows :: "bool \<Rightarrow> string \<Rightarrow> nat \<Rightarrow> int \<Rightarrow> lstmt" where
  "debit_rows guard did cost now l =
     (let p = (\<lambda>a. ac_did a = did \<and> ac_balance a \<ge> int cost \<and> guard);
          f = (\<lambda>a. a\<lparr>ac_balance := ac_balance a - int cost, ac_updated_at := now\<rparr>)
      in Some (count_rows p (lg_accounts l), l\<lparr>lg_accounts := update_rows p f (lg_accounts l)\<rparr>))"

definition SQL_DEBIT :: "string \<Rightarrow> nat \<Rightarrow> int \<Rightarrow> lstmt" where
  "SQL_DEBIT did cost now = debit_rows True did cost now"

text \<open>\<open>INSERT OR IGNORE INTO pay_credits\<close>, one row of the selection after another.\<close>

definition insert_or_ignore :: "credit \<Rightarrow> nat \<times> credit list \<Rightarrow> nat \<times> credit list" where
  "insert_or_ignore c st =
     (case st of (n, cs) \<Rightarrow> if cr_ref c \<in> cr_ref ` set cs then (n, cs) else (n + 1, cs @ [c]))"

definition insert_credits :: "credit list \<Rightarrow> lstmt" where
  "insert_credits new l =
     (case fold insert_or_ignore new (0, lg_credits l) of (n, cs) \<Rightarrow> Some (n, l\<lparr>lg_credits := cs\<rparr>))"

definition legacy_holds :: "outpoint \<Rightarrow> ledger \<Rightarrow> bool" where
  "legacy_holds o' l \<longleftrightarrow> (\<exists>d \<in> set (lg_legacy l). ascii_lower (ld_txid d) = op_txid o' \<and> ld_vout d = op_vout o')"

definition SQL_JOURNAL_DEPOSIT :: "string \<Rightarrow> outpoint \<Rightarrow> nat \<Rightarrow> string option \<Rightarrow> int \<Rightarrow> lstmt" where
  "SQL_JOURNAL_DEPOSIT did o' amount rid now l =
     insert_credits
       (if legacy_holds o' l then []
        else [\<lparr>cr_ref = replay_key o', cr_did = did, cr_amount = amount, cr_kind = DepositCredit o',
               cr_request_id = rid, cr_applied = False, cr_created_at = now\<rparr>]) l"

definition job_refund :: "job \<Rightarrow> nat" where
  "job_refund j = jb_held j - (case jb_actual j of Some a \<Rightarrow> a | None \<Rightarrow> 0)"

definition SQL_JOURNAL_RELEASE :: "string \<Rightarrow> string \<Rightarrow> string \<Rightarrow> int \<Rightarrow> lstmt" where
  "SQL_JOURNAL_RELEASE jid ref rid now l =
     insert_credits
       (map (\<lambda>j. \<lparr>cr_ref = ref, cr_did = jb_requester j, cr_amount = job_refund j, cr_kind = ReleaseCredit,
                  cr_request_id = Some rid, cr_applied = False, cr_created_at = now\<rparr>)
          (filter (\<lambda>j. jb_id j = jid \<and> jb_release_ref j = Some ref \<and> job_refund j > 0) (lg_jobs l))) l"

text \<open>\<open>INSERT INTO webledger_accounts ... ON CONFLICT(did) DO UPDATE\<close>\<close>

definition credit_account :: "int \<Rightarrow> credit \<Rightarrow> account list \<Rightarrow> account list" where
  "credit_account now c as =
     (if cr_did c \<in> ac_did ` set as
      then update_rows (\<lambda>a. ac_did a = cr_did c)
             (\<lambda>a. a\<lparr>ac_balance := ac_balance a + int (cr_amount c), ac_updated_at := now\<rparr>) as
      else as @ [\<lparr>ac_did = cr_did c, ac_balance = int (cr_amount c), ac_updated_at = now\<rparr>])"

definition unapplied :: "string \<Rightarrow> credit \<Rightarrow> bool" where
  "unapplied ref c \<longleftrightarrow> cr_ref c = ref \<and> \<not> cr_applied c"

definition SQL_APPLY_CREDIT :: "string \<Rightarrow> int \<Rightarrow> lstmt" where
  "SQL_APPLY_CREDIT ref now l =
     (let cs = filter (unapplied ref) (lg_credits l)
      in Some (length cs, l\<lparr>lg_accounts := fold (credit_account now) cs (lg_accounts l)\<rparr>))"

definition SQL_MARK_APPLIED :: "string \<Rightarrow> lstmt" where
  "SQL_MARK_APPLIED ref l =
     Some (count_rows (unapplied ref) (lg_credits l),
           l\<lparr>lg_credits := update_rows (unapplied ref) (\<lambda>c. c\<lparr>cr_applied := True\<rparr>) (lg_credits l)\<rparr>)"

text \<open>The scalar subquery is \<open>NULL\<close> for an unknown account, which no comparison accepts.\<close>

definition SQL_JOB_INSERT_IF_FUNDED :: "job \<Rightarrow> lstmt" where
  "SQL_JOB_INSERT_IF_FUNDED j l =
     (case balance_of (jb_requester j) l of
        None \<Rightarrow> Some (0, l)
      | Some b \<Rightarrow>
          if b \<ge> int (jb_held j)
          then if jb_id j \<in> jb_id ` set (lg_jobs l) then None
               else Some (1, l\<lparr>lg_jobs := lg_jobs l @ [j]\<rparr>)
          else Some (0, l))"

definition SQL_JOB_DEBIT_HOLD :: "nat \<Rightarrow> int \<Rightarrow> string \<Rightarrow> string \<Rightarrow> lstmt" where
  "SQL_JOB_DEBIT_HOLD held now did jid l =
     debit_rows (\<exists>j \<in> set (lg_jobs l). jb_id j = jid \<and> jb_requester j = did) did held now l"

definition update_jobs :: "(job \<Rightarrow> bool) \<Rightarrow> (job \<Rightarrow> job) \<Rightarrow> lstmt" where
  "update_jobs p f l =
     Some (count_rows p (lg_jobs l), l\<lparr>lg_jobs := update_rows p f (lg_jobs l)\<rparr>)"

definition live :: "job \<Rightarrow> bool" where
  "live j \<longleftrightarrow> jb_status j = JHeld \<or> jb_status j = JRunning"

definition SQL_JOB_START :: "int \<Rightarrow> string \<Rightarrow> string \<Rightarrow> lstmt" where
  "SQL_JOB_START now jid agent =
     update_jobs (\<lambda>j. jb_id j = jid \<and> jb_status j = JHeld \<and> jb_agent j = agent)
       (\<lambda>j. j\<lparr>jb_status := JRunning, jb_started_at := Some now\<rparr>)"

definition SQL_JOB_SETTLE :: "nat \<Rightarrow> int \<Rightarrow> string \<Rightarrow> string \<Rightarrow> string \<Rightarrow> lstmt" where
  "SQL_JOB_SETTLE actual now jid agent ref =
     update_jobs (\<lambda>j. jb_id j = jid \<and> jb_status j = JRunning \<and> jb_agent j = agent \<and> jb_held j \<ge> actual)
       (\<lambda>j. j\<lparr>jb_status := JSettled, jb_actual := Some actual, jb_completed_at := Some now,
              jb_release_ref := Some ref\<rparr>)"

definition SQL_JOB_CANCEL :: "int \<Rightarrow> string \<Rightarrow> string \<Rightarrow> string \<Rightarrow> lstmt" where
  "SQL_JOB_CANCEL now jid caller ref =
     update_jobs (\<lambda>j. jb_id j = jid \<and> live j \<and> (jb_requester j = caller \<or> jb_agent j = caller))
       (\<lambda>j. j\<lparr>jb_status := JFailed, jb_error := Some ''cancelled'', jb_completed_at := Some now,
              jb_release_ref := Some ref\<rparr>)"

definition SQL_JOB_EXPIRE :: "int \<Rightarrow> string \<Rightarrow> string \<Rightarrow> lstmt" where
  "SQL_JOB_EXPIRE now jid ref =
     update_jobs (\<lambda>j. jb_id j = jid \<and> live j)
       (\<lambda>j. j\<lparr>jb_status := JFailed, jb_error := Some ''expired'', jb_completed_at := Some now,
              jb_release_ref := Some ref\<rparr>)"

section \<open>Transactions\<close>

text \<open>A batch is one transaction: the changes of every statement, or nothing.\<close>

fun transact :: "lstmt list \<Rightarrow> ledger \<Rightarrow> (nat list \<times> ledger) option" where
  "transact [] l = Some ([], l)"
| "transact (s # ss) l =
     (case s l of
        None \<Rightarrow> None
      | Some (n, l1) \<Rightarrow> (case transact ss l1 of None \<Rightarrow> None | Some (ns, l2) \<Rightarrow> Some (n # ns, l2)))"

text \<open>\<open>apply_stmts\<close> and \<open>transition_and_release\<close>\<close>

definition apply_stmts :: "string \<Rightarrow> int \<Rightarrow> lstmt list" where
  "apply_stmts ref now = [SQL_APPLY_CREDIT ref now, SQL_MARK_APPLIED ref]"

definition release_batch :: "lstmt \<Rightarrow> string \<Rightarrow> string \<Rightarrow> int \<Rightarrow> lstmt list" where
  "release_batch transition jid rid now =
     transition # SQL_JOURNAL_RELEASE jid (release_ref jid) rid now # apply_stmts (release_ref jid) now"

text \<open>The columns \<open>SQL_JOB_INSERT_IF_FUNDED\<close> writes; the others keep their defaults.\<close>

definition new_job ::
  "string \<Rightarrow> string \<Rightarrow> string \<Rightarrow> string \<Rightarrow> string option \<Rightarrow> nat \<Rightarrow> nat \<Rightarrow> int \<Rightarrow> string \<Rightarrow> job"
where
  "new_job jid requester agent endpoint params estimated held now expires =
     \<lparr>jb_id = jid, jb_requester = requester, jb_agent = agent, jb_endpoint = endpoint, jb_params = params,
      jb_status = JHeld, jb_estimated = estimated, jb_held = held, jb_actual = None, jb_created_at = now,
      jb_started_at = None, jb_completed_at = None, jb_error = None, jb_expires_at = Some expires,
      jb_release_ref = None\<rparr>"

text \<open>The transactions, with their parameters as the routes bind them.\<close>

datatype ledger_op =
    Op_Debit string nat int
  | Op_Deposit string outpoint nat "string option" int
  | Op_Create string string string string "string option" nat nat int string
  | Op_Start string string int
  | Op_Settle string string nat string int
  | Op_Cancel string string string int
  | Op_Expire string string int

fun op_stmts :: "ledger_op \<Rightarrow> lstmt list" where
  "op_stmts (Op_Debit did cost now) = [SQL_DEBIT did (sats cost) now]"
| "op_stmts (Op_Deposit did o' v rid now) =
     SQL_JOURNAL_DEPOSIT did o' (sats v) rid now # apply_stmts (replay_key o') now"
| "op_stmts (Op_Create jid requester agent endpoint params estimated held now expires) =
     [SQL_JOB_INSERT_IF_FUNDED (new_job jid requester agent endpoint params (sats estimated) (sats held) now expires),
      SQL_JOB_DEBIT_HOLD (sats held) now requester jid]"
| "op_stmts (Op_Start jid agent now) = [SQL_JOB_START now jid agent]"
| "op_stmts (Op_Settle jid agent actual rid now) =
     release_batch (SQL_JOB_SETTLE (sats actual) now jid agent (release_ref jid)) jid rid now"
| "op_stmts (Op_Cancel jid caller rid now) =
     release_batch (SQL_JOB_CANCEL now jid caller (release_ref jid)) jid rid now"
| "op_stmts (Op_Expire jid rid now) =
     release_batch (SQL_JOB_EXPIRE now jid (release_ref jid)) jid rid now"

definition apply_op :: "ledger_op \<Rightarrow> ledger \<Rightarrow> ledger" where
  "apply_op x l = (case transact (op_stmts x) l of None \<Rightarrow> l | Some (_, l') \<Rightarrow> l')"

section \<open>The ledger's invariant\<close>

definition credit_ok :: "ledger \<Rightarrow> credit \<Rightarrow> bool" where
  "credit_ok l c \<longleftrightarrow> cr_applied c \<and>
     (case cr_kind c of
        DepositCredit o' \<Rightarrow> cr_ref c = replay_key o'
      | ReleaseCredit \<Rightarrow> (\<exists>j \<in> set (lg_jobs l). cr_ref c = release_ref (jb_id j) \<and> \<not> live j))"

definition job_ok :: "ledger \<Rightarrow> job \<Rightarrow> bool" where
  "job_ok l j \<longleftrightarrow>
     (if live j then jb_release_ref j = None \<and> jb_actual j = None
      else jb_release_ref j \<noteq> None \<longrightarrow>
        jb_release_ref j = Some (release_ref (jb_id j)) \<and>
        (job_refund j > 0 \<longrightarrow> release_ref (jb_id j) \<in> cr_ref ` set (lg_credits l)))"

definition books_ok :: "ledger \<Rightarrow> bool" where
  "books_ok l \<longleftrightarrow>
     distinct (map ac_did (lg_accounts l)) \<and> distinct (map jb_id (lg_jobs l)) \<and>
     distinct (map cr_ref (lg_credits l)) \<and>
     (\<forall>a \<in> set (lg_accounts l). 0 \<le> ac_balance a) \<and>
     (\<forall>c \<in> set (lg_credits l). credit_ok l c)"

definition ledger_ok :: "ledger \<Rightarrow> bool" where
  "ledger_ok l \<longleftrightarrow> books_ok l \<and> (\<forall>j \<in> set (lg_jobs l). job_ok l j)"

lemma ledger_okD:
  assumes "ledger_ok l"
  shows "books_ok l" "distinct (map jb_id (lg_jobs l))" "c \<in> set (lg_credits l) \<Longrightarrow> credit_ok l c"
    "j \<in> set (lg_jobs l) \<Longrightarrow> job_ok l j"
  using assms by (simp_all add: ledger_ok_def books_ok_def)

lemma books_ok_applied: "books_ok l \<Longrightarrow> \<forall>c \<in> set (lg_credits l). cr_applied c"
  by (simp add: books_ok_def credit_ok_def)

lemma release_ref_inject [simp]: "release_ref a = release_ref b \<longleftrightarrow> a = b"
  by (simp add: release_ref_def)

lemma replay_key_not_release [simp]: "replay_key o' \<noteq> release_ref jid" "release_ref jid \<noteq> replay_key o'"
  by (simp_all add: replay_key_def release_ref_def)

section \<open>Sums over the tables\<close>

definition balances :: "string \<Rightarrow> ledger \<Rightarrow> int" where
  "balances d l = sum_list (map (\<lambda>a. if ac_did a = d then ac_balance a else 0) (lg_accounts l))"

text \<open>What a job has taken out of its requester's account: its hold while it lives, its cost once
  settled.\<close>

definition job_weight :: "job \<Rightarrow> int" where
  "job_weight j = (if live j then int (jb_held j)
     else if jb_status j = JSettled then int (case jb_actual j of Some a \<Rightarrow> a | None \<Rightarrow> 0) else 0)"

definition job_weights :: "string \<Rightarrow> ledger \<Rightarrow> int" where
  "job_weights d l = sum_list (map (\<lambda>j. if jb_requester j = d then job_weight j else 0) (lg_jobs l))"

definition deposit_credits :: "ledger \<Rightarrow> credit list" where
  "deposit_credits l = filter (\<lambda>c. cr_kind c \<noteq> ReleaseCredit) (lg_credits l)"

definition deposited :: "string \<Rightarrow> ledger \<Rightarrow> int" where
  "deposited d l = sum_list (map (\<lambda>c. if cr_did c = d then int (cr_amount c) else 0) (deposit_credits l))"

text \<open>What an account's owner put in and has not spent: balance, holds and settled costs, less
  deposits.\<close>

definition worth :: "string \<Rightarrow> ledger \<Rightarrow> int" where
  "worth d l = balances d l + job_weights d l - deposited d l"

lemma sum_update_rows:
  "sum_list (map f (update_rows p g xs)) =
     sum_list (map f xs) + sum_list (map (\<lambda>x. f (g x) - f x) (filter p xs))" for f :: "'a \<Rightarrow> int"
  by (induction xs) (simp_all add: update_rows_def)

lemma filter_key_unique:
  assumes "distinct (map f xs)" "x \<in> set xs" "P x" "\<And>y. y \<in> set xs \<Longrightarrow> P y \<Longrightarrow> f y = f x"
  shows "filter P xs = [x]"
  using assms
proof (induction xs)
  case (Cons y ys)
  show ?case
  proof (cases "x = y")
    case True
    have "\<not> P z" if "z \<in> set ys" for z
    proof
      assume "P z"
      with Cons.prems(4) [of z] that have "f z = f y" by (simp add: True)
      with Cons.prems(1) that show False by (simp add: rev_image_eqI)
    qed
    then show ?thesis using Cons.prems(3) by (simp add: True filter_empty_conv)
  next
    case False
    then have x: "x \<in> set ys" using Cons.prems(2) by simp
    have "\<not> P y"
    proof
      assume "P y"
      with Cons.prems(4) [of y] have "f y = f x" by simp
      with Cons.prems(1) x show False by (simp add: rev_image_eqI)
    qed
    moreover have "filter P ys = [x]"
    proof (rule Cons.IH)
      show "distinct (map f ys)" using Cons.prems(1) by simp
      show "f z = f x" if "z \<in> set ys" "P z" for z
        by (rule Cons.prems(4)) (use that in simp_all)
    qed (fact x Cons.prems(3))+
    ultimately show ?thesis by simp
  qed
qed simp

lemma update_rows_no_hit: "(\<And>x. x \<in> set xs \<Longrightarrow> \<not> p x) \<Longrightarrow> update_rows p g xs = xs"
  by (induction xs) (simp_all add: update_rows_def)

lemma map_update_rows: "(\<And>x. k (g x) = k x) \<Longrightarrow> map k (update_rows p g xs) = map k xs"
  by (simp add: update_rows_def)

lemma set_update_rows: "set (update_rows p g xs) = (\<lambda>x. if p x then g x else x) ` set xs"
  by (simp add: update_rows_def)

lemma ball_update_rows:
  "(\<forall>x \<in> set (update_rows p g xs). Q x) \<longleftrightarrow> (\<forall>x \<in> set xs. Q (if p x then g x else x))"
  by (auto simp: update_rows_def)

section \<open>Crediting\<close>

lemma credit_account_sum:
  assumes "distinct (map ac_did as)"
  shows "sum_list (map (\<lambda>a. if ac_did a = d then ac_balance a else 0) (credit_account now c as)) =
      sum_list (map (\<lambda>a. if ac_did a = d then ac_balance a else 0) as)
        + (if cr_did c = d then int (cr_amount c) else 0)"
    and "distinct (map ac_did (credit_account now c as))"
    and "(\<forall>a \<in> set as. 0 \<le> ac_balance a) \<Longrightarrow> \<forall>a \<in> set (credit_account now c as). 0 \<le> ac_balance a"
proof -
  let ?b = "\<lambda>a. if ac_did a = d then ac_balance a else 0"
  show "sum_list (map ?b (credit_account now c as)) =
      sum_list (map ?b as) + (if cr_did c = d then int (cr_amount c) else 0)"
  proof (cases "cr_did c \<in> ac_did ` set as")
    case True
    then obtain a where a: "a \<in> set as" "ac_did a = cr_did c" by force
    have "filter (\<lambda>a. ac_did a = cr_did c) as = [a]"
      by (rule filter_key_unique [where f = ac_did]) (use assms a in simp_all)
    with True a show ?thesis by (simp add: credit_account_def sum_update_rows)
  qed (simp add: credit_account_def)
  show "distinct (map ac_did (credit_account now c as))"
    using assms by (auto simp: credit_account_def map_update_rows)
  show "(\<forall>a \<in> set as. 0 \<le> ac_balance a) \<Longrightarrow> \<forall>a \<in> set (credit_account now c as). 0 \<le> ac_balance a"
    by (auto simp: credit_account_def set_update_rows)
qed

text \<open>The three statements that journal a credit, apply it and mark it, on a settled journal.\<close>

definition post_credit :: "int \<Rightarrow> credit list \<Rightarrow> ledger \<Rightarrow> ledger" where
  "post_credit now new l =
     (case new of
        [c] \<Rightarrow> if cr_ref c \<in> cr_ref ` set (lg_credits l) then l
               else l\<lparr>lg_accounts := credit_account now c (lg_accounts l),
                      lg_credits := lg_credits l @ [c\<lparr>cr_applied := True\<rparr>]\<rparr>
      | _ \<Rightarrow> l)"

lemma credit_batch:
  assumes "\<forall>c \<in> set (lg_credits l). cr_applied c"
    and "new = [] \<or> (\<exists>c. new = [c] \<and> cr_ref c = ref \<and> \<not> cr_applied c)"
  shows "\<exists>ns. transact (insert_credits new # apply_stmts ref now) l = Some (ns, post_credit now new l)"
proof -
  have old: "filter (unapplied ref) (lg_credits l) = []"
    "update_rows (unapplied ref) f (lg_credits l) = lg_credits l" for f
    using assms(1) by (auto simp: unapplied_def filter_empty_conv intro: update_rows_no_hit)
  consider "new = []" | c where "new = [c]" "cr_ref c = ref" "cr_ref c \<in> cr_ref ` set (lg_credits l)"
    | c where "new = [c]" "cr_ref c = ref" "\<not> cr_applied c" "cr_ref c \<notin> cr_ref ` set (lg_credits l)"
    using assms(2) by blast
  then show ?thesis
  proof cases
    case 1
    then show ?thesis
      by (simp add: apply_stmts_def insert_credits_def SQL_APPLY_CREDIT_def SQL_MARK_APPLIED_def old post_credit_def)
  next
    case 2
    then show ?thesis
      by (simp add: apply_stmts_def insert_credits_def insert_or_ignore_def SQL_APPLY_CREDIT_def
          SQL_MARK_APPLIED_def old post_credit_def)
  next
    case 3
    then have "unapplied ref c" by (simp add: unapplied_def)
    moreover have "update_rows (unapplied ref) f [c] = [f c]" for f :: "credit \<Rightarrow> credit"
      using calculation by (simp add: update_rows_def)
    moreover have "update_rows (unapplied ref) f (lg_credits l @ [c]) = lg_credits l @ [f c]" for f
      using old(2) [of f] calculation by (simp add: update_rows_def)
    ultimately show ?thesis
      using 3 by (simp add: apply_stmts_def insert_credits_def insert_or_ignore_def SQL_APPLY_CREDIT_def
          SQL_MARK_APPLIED_def old post_credit_def)
  qed
qed

text \<open>A credit may be journalled on these books.\<close>

definition postable :: "ledger \<Rightarrow> credit \<Rightarrow> bool" where
  "postable l c \<longleftrightarrow>
     (case cr_kind c of
        DepositCredit o' \<Rightarrow> cr_ref c = replay_key o'
      | ReleaseCredit \<Rightarrow> (\<exists>j \<in> set (lg_jobs l). cr_ref c = release_ref (jb_id j) \<and> \<not> live j))"

lemma post_credit_books:
  assumes "books_ok l" "new = [] \<or> (\<exists>c. new = [c] \<and> postable l c)"
  shows "books_ok (post_credit now new l)"
proof (cases new)
  case (Cons c cs)
  with assms(2) have c: "new = [c]" "postable l c" by auto
  show ?thesis
    using assms(1) credit_account_sum(2,3) [of "lg_accounts l" now c] c
    by (auto simp: post_credit_def books_ok_def credit_ok_def postable_def split: credit_kind.splits)
qed (use assms in \<open>simp add: post_credit_def\<close>)

lemma post_credit_frame:
  "lg_jobs (post_credit now new l) = lg_jobs l" "lg_legacy (post_credit now new l) = lg_legacy l"
  "set (lg_credits l) \<subseteq> set (lg_credits (post_credit now new l))"
  by (auto simp: post_credit_def split: list.split)

lemma post_credit_Nil [simp]: "post_credit now [] l = l"
  by (simp add: post_credit_def)

lemma post_credit_sums:
  assumes "books_ok l"
  shows "balances d (post_credit now [c] l) = balances d l +
      (if cr_ref c \<in> cr_ref ` set (lg_credits l) then 0 else if cr_did c = d then int (cr_amount c) else 0)"
    and "deposit_credits (post_credit now [c] l) = deposit_credits l @
      (if cr_ref c \<in> cr_ref ` set (lg_credits l) \<or> cr_kind c = ReleaseCredit then [] else [c\<lparr>cr_applied := True\<rparr>])"
  using assms credit_account_sum(1) [of "lg_accounts l" d now c]
  by (auto simp: post_credit_def balances_def deposit_credits_def books_ok_def)

section \<open>Returning a hold\<close>

text \<open>
  The contract of the three transitions that end a job (settle, cancel, expire): they hit only
  the live job of that id, stamp the release reference, and leave the job a weight of its hold
  less the refund.
\<close>

locale hold_release =
  fixes p :: "job \<Rightarrow> bool" and g :: "job \<Rightarrow> job" and jid :: string
  assumes hit: "p j \<Longrightarrow> jb_id j = jid \<and> live j"
    and keeps: "jb_id (g j) = jb_id j" "jb_requester (g j) = jb_requester j"
    and ends: "\<not> live (g j)" "jb_release_ref (g j) = Some (release_ref jid)"
    and weighs: "p j \<Longrightarrow> jb_actual j = None \<Longrightarrow>
      job_weight (g j) = int (jb_held j) - int (job_refund (g j))"
begin

definition moved :: "ledger \<Rightarrow> ledger" where
  "moved l = l\<lparr>lg_jobs := update_rows p g (lg_jobs l)\<rparr>"

lemma moved_books:
  assumes "ledger_ok l"
  shows "books_ok (moved l)"
proof -
  have c: "credit_ok (moved l) c" if "c \<in> set (lg_credits l)" for c
  proof -
    have "credit_ok l c" using ledger_okD(3) [OF assms that] .
    then show ?thesis
      using hit keeps(1) by (fastforce simp: credit_ok_def moved_def set_update_rows split: credit_kind.splits)
  qed
  show ?thesis
    using ledger_okD(1) [OF assms] c keeps(1)
    by (simp add: books_ok_def moved_def map_update_rows)
qed

text \<open>The credit the journal statement selects.\<close>

definition released :: "string \<Rightarrow> int \<Rightarrow> ledger \<Rightarrow> credit list" where
  "released rid now l =
     map (\<lambda>j. \<lparr>cr_ref = release_ref jid, cr_did = jb_requester j, cr_amount = job_refund j,
               cr_kind = ReleaseCredit, cr_request_id = Some rid, cr_applied = False, cr_created_at = now\<rparr>)
       (filter (\<lambda>j. jb_id j = jid \<and> jb_release_ref j = Some (release_ref jid) \<and> job_refund j > 0)
          (lg_jobs (moved l)))"

lemma release_batch_posts:
  assumes "ledger_ok l"
  shows "\<exists>ns. transact (release_batch (update_jobs p g) jid rid now) l =
    Some (count_rows p (lg_jobs l) # ns, post_credit now (released rid now l) (moved l))"
    and "released rid now l = [] \<or> (\<exists>c. released rid now l = [c] \<and> postable (moved l) c \<and>
      cr_ref c = release_ref jid \<and> \<not> cr_applied c)"
proof -
  let ?q = "\<lambda>j. jb_id j = jid \<and> jb_release_ref j = Some (release_ref jid) \<and> job_refund j > 0"
  have dist: "distinct (map jb_id (lg_jobs (moved l)))"
    using moved_books [OF assms] by (simp add: books_ok_def)
  show one: "released rid now l = [] \<or> (\<exists>c. released rid now l = [c] \<and> postable (moved l) c \<and>
      cr_ref c = release_ref jid \<and> \<not> cr_applied c)"
  proof (cases "filter ?q (lg_jobs (moved l)) = []")
    case False
    then obtain j where j: "j \<in> set (lg_jobs (moved l))" "?q j"
      by (metis (mono_tags, lifting) filter_False)
    have "filter ?q (lg_jobs (moved l)) = [j]"
      by (rule filter_key_unique [where f = jb_id]) (use dist j in simp_all)
    moreover have "\<not> live j"
    proof
      assume "live j"
      with j(1) ends(1) have "j \<in> set (lg_jobs l)"
        by (auto simp: moved_def set_update_rows split: if_splits)
      from ledger_okD(4) [OF assms this] \<open>live j\<close> j(2) show False by (simp add: job_ok_def)
    qed
    ultimately show ?thesis using j by (auto simp: released_def postable_def)
  qed (simp add: released_def)
  have app: "\<forall>c \<in> set (lg_credits (moved l)). cr_applied c"
    by (rule books_ok_applied [OF moved_books [OF assms]])
  have "released rid now l = [] \<or> (\<exists>c. released rid now l = [c] \<and> cr_ref c = release_ref jid \<and> \<not> cr_applied c)"
    using one by blast
  from credit_batch [OF app this, of now] obtain ns where
    "transact (insert_credits (released rid now l) # apply_stmts (release_ref jid) now) (moved l) =
      Some (ns, post_credit now (released rid now l) (moved l))" by blast
  moreover have "SQL_JOURNAL_RELEASE jid (release_ref jid) rid now (moved l) =
      insert_credits (released rid now l) (moved l)"
    by (simp add: SQL_JOURNAL_RELEASE_def released_def)
  ultimately show "\<exists>ns. transact (release_batch (update_jobs p g) jid rid now) l =
    Some (count_rows p (lg_jobs l) # ns, post_credit now (released rid now l) (moved l))"
    by (simp add: release_batch_def update_jobs_def moved_def [symmetric])
qed

lemma moved_same:
  assumes "\<And>j. j \<in> set (lg_jobs l) \<Longrightarrow> \<not> p j"
  shows "moved l = l"
  using update_rows_no_hit [of "lg_jobs l" p g] assms by (simp add: moved_def)

text \<open>No live job of that id: the batch changes nothing, a hold already returned included.\<close>

lemma miss:
  assumes "ledger_ok l" "\<And>j. j \<in> set (lg_jobs l) \<Longrightarrow> \<not> p j"
  shows "post_credit now (released rid now l) (moved l) = l"
proof -
  from release_batch_posts(2) [OF assms(1), of rid now] consider "released rid now l = []"
    | c where "released rid now l = [c]" "postable (moved l) c" "cr_ref c = release_ref jid" by blast
  then show ?thesis
  proof cases
    case 2
    have "c \<in> set (released rid now l)" by (simp add: 2)
    then obtain j where j: "j \<in> set (lg_jobs l)" "jb_id j = jid" "jb_release_ref j = Some (release_ref jid)"
      "job_refund j > 0"
      by (auto simp: released_def moved_same [OF assms(2)])
    with ledger_okD(4) [OF assms(1) j(1)] have "release_ref jid \<in> cr_ref ` set (lg_credits l)"
      by (auto simp: job_ok_def split: if_splits)
    with 2 show ?thesis by (simp add: post_credit_def moved_same [OF assms(2)])
  qed (simp add: post_credit_def moved_same [OF assms(2)])
qed

text \<open>The live job of that id, found.\<close>

lemma found:
  assumes "ledger_ok l" "j \<in> set (lg_jobs l)" "p j"
  shows "filter p (lg_jobs l) = [j]"
    and "release_ref jid \<notin> cr_ref ` set (lg_credits l)"
    and "released rid now l = (if job_refund (g j) > 0 then
      [\<lparr>cr_ref = release_ref jid, cr_did = jb_requester j, cr_amount = job_refund (g j),
        cr_kind = ReleaseCredit, cr_request_id = Some rid, cr_applied = False, cr_created_at = now\<rparr>] else [])"
proof -
  note dist = ledger_okD(2) [OF assms(1)]
  have same: "i = j" if "i \<in> set (lg_jobs l)" "jb_id i = jid" for i
    using dist assms(2,3) that hit by (auto simp: distinct_map inj_on_def)
  show "filter p (lg_jobs l) = [j]"
    by (rule filter_key_unique [where f = jb_id]) (use dist assms(2,3) hit in auto)
  show "release_ref jid \<notin> cr_ref ` set (lg_credits l)"
  proof
    assume "release_ref jid \<in> cr_ref ` set (lg_credits l)"
    then obtain c where c: "c \<in> set (lg_credits l)" "cr_ref c = release_ref jid" by force
    from ledger_okD(3) [OF assms(1) c(1)] c(2) obtain i where
      "i \<in> set (lg_jobs l)" "jb_id i = jid" "\<not> live i"
      by (auto simp: credit_ok_def split: credit_kind.splits)
    with same [of i] hit assms(3) show False by blast
  qed
  let ?q = "\<lambda>j. jb_id j = jid \<and> jb_release_ref j = Some (release_ref jid) \<and> job_refund j > 0"
  have id: "jb_id j = jid" using hit assms(3) by simp
  have mine: "filter (\<lambda>i. jb_id i = jid) (lg_jobs (moved l)) = [g j]"
    by (rule filter_key_unique [where f = jb_id])
      (use dist assms(2,3) keeps(1) id in \<open>auto simp: moved_def map_update_rows set_update_rows image_iff\<close>)
  have eq: "filter ?q xs = filter (\<lambda>j. jb_release_ref j = Some (release_ref jid) \<and> job_refund j > 0)
      (filter (\<lambda>i. jb_id i = jid) xs)" for xs
    by simp
  have "filter ?q (lg_jobs (moved l)) = (if job_refund (g j) > 0 then [g j] else [])"
    unfolding eq mine using ends(2) by simp
  then show "released rid now l = (if job_refund (g j) > 0 then
      [\<lparr>cr_ref = release_ref jid, cr_did = jb_requester j, cr_amount = job_refund (g j),
        cr_kind = ReleaseCredit, cr_request_id = Some rid, cr_applied = False, cr_created_at = now\<rparr>] else [])"
    using keeps(2) by (simp add: released_def)
qed

lemma release_batch_keeps:
  assumes "ledger_ok l" and l'_def: "l' = post_credit now (released rid now l) (moved l)"
  shows "ledger_ok l'" "balances d l' + job_weights d l' = balances d l + job_weights d l"
    "deposit_credits l' = deposit_credits l" "lg_legacy l' = lg_legacy l"
proof -
  show "lg_legacy l' = lg_legacy l" by (simp add: l'_def post_credit_frame moved_def)
  have all: "ledger_ok l' \<and> balances d l' + job_weights d l' = balances d l + job_weights d l \<and>
    deposit_credits l' = deposit_credits l"
  proof (cases "\<exists>j \<in> set (lg_jobs l). p j")
    case False
    then have "l' = l" using miss [OF assms(1)] by (auto simp: l'_def)
    then show ?thesis using assms(1) by simp
  next
    case True
    then obtain j where j: "j \<in> set (lg_jobs l)" "p j" by blast
    note f = found [OF assms(1) j]
    have "set (filter p (lg_jobs l)) = {j}" by (simp only: f(1)) simp
    then have uniq: "x \<in> set (lg_jobs l) \<Longrightarrow> p x \<Longrightarrow> x = j" for x by auto
    have books: "books_ok l'"
      unfolding l'_def
      by (rule post_credit_books [OF moved_books [OF assms(1)]])
        (use release_batch_posts(2) [OF assms(1), of rid now] in blast)
    have jobs: "lg_jobs l' = update_rows p g (lg_jobs l)"
      by (simp add: l'_def post_credit_frame moved_def)
    have posted: "job_refund (g j) > 0 \<Longrightarrow> release_ref jid \<in> cr_ref ` set (lg_credits l')"
      using f(2,3) by (simp add: l'_def post_credit_def moved_def)
    have refs: "cr_ref ` set (lg_credits l) \<subseteq> cr_ref ` set (lg_credits l')"
      using post_credit_frame(3) [of "moved l" now "released rid now l"]
      by (auto simp: l'_def moved_def)
    have "job_ok l' i" if "i \<in> set (lg_jobs l')" for i
    proof -
      from that consider "i = g j" | "i \<in> set (lg_jobs l)" "\<not> p i"
        using uniq by (auto simp: jobs set_update_rows split: if_splits)
      then show ?thesis
      proof cases
        case 1
        then show ?thesis using ends keeps(1) posted hit j(2) by (simp add: job_ok_def)
      next
        case 2
        from ledger_okD(4) [OF assms(1) 2(1)] refs show ?thesis
          by (auto simp: job_ok_def split: if_splits)
      qed
    qed
    then have ok: "ledger_ok l'" using books by (simp add: ledger_ok_def)
    have "live j" "jb_actual j = None"
      using hit j ledger_okD(4) [OF assms(1) j(1)] by (auto simp: job_ok_def)
    then have w: "job_weight j = int (jb_held j)" "job_weight (g j) = int (jb_held j) - int (job_refund (g j))"
      using weighs j(2) by (simp_all add: job_weight_def)
    have "job_weights d l' = job_weights d l + (if jb_requester j = d then - int (job_refund (g j)) else 0)"
      using w keeps(2) by (simp add: job_weights_def jobs sum_update_rows f(1))
    moreover have "balances d l' = balances d l + (if jb_requester j = d then int (job_refund (g j)) else 0)"
      using f(2) post_credit_sums(1) [OF moved_books [OF assms(1)], of d now]
      by (auto simp: l'_def f(3) moved_def balances_def)
    moreover have "deposit_credits l' = deposit_credits l"
      using post_credit_sums(2) [OF moved_books [OF assms(1)], of now]
      by (auto simp: l'_def f(3) moved_def deposit_credits_def)
    ultimately show ?thesis using ok by simp
  qed
  then show "ledger_ok l'" "balances d l' + job_weights d l' = balances d l + job_weights d l"
    "deposit_credits l' = deposit_credits l" by simp_all
qed

lemma release_op:
  assumes "ledger_ok l" "op_stmts x = release_batch (update_jobs p g) jid rid now"
  shows "ledger_ok (apply_op x l) \<and> worth d (apply_op x l) = worth d l \<and>
    deposit_credits (apply_op x l) = deposit_credits l \<and> lg_legacy (apply_op x l) = lg_legacy l"
proof -
  from release_batch_posts(1) [OF assms(1), of rid now]
  have eq: "apply_op x l = post_credit now (released rid now l) (moved l)"
    by (auto simp: apply_op_def assms(2))
  from release_batch_keeps [OF assms(1) eq] show ?thesis
    by (simp add: worth_def deposited_def)
qed

end

lemmas release_defs = live_def job_weight_def job_refund_def

interpretation settle: hold_release
  "\<lambda>j. jb_id j = jid \<and> jb_status j = JRunning \<and> jb_agent j = agent \<and> jb_held j \<ge> actual"
  "\<lambda>j. j\<lparr>jb_status := JSettled, jb_actual := Some actual, jb_completed_at := Some now,
          jb_release_ref := Some (release_ref jid)\<rparr>" jid
  for jid agent actual now
  by unfold_locales (auto simp: release_defs)

interpretation cancel: hold_release
  "\<lambda>j. jb_id j = jid \<and> live j \<and> (jb_requester j = caller \<or> jb_agent j = caller)"
  "\<lambda>j. j\<lparr>jb_status := JFailed, jb_error := Some ''cancelled'', jb_completed_at := Some now,
          jb_release_ref := Some (release_ref jid)\<rparr>" jid
  for jid caller now
  by unfold_locales (auto simp: release_defs)

interpretation expire: hold_release
  "\<lambda>j. jb_id j = jid \<and> live j"
  "\<lambda>j. j\<lparr>jb_status := JFailed, jb_error := Some ''expired'', jb_completed_at := Some now,
          jb_release_ref := Some (release_ref jid)\<rparr>" jid
  for jid now
  by unfold_locales (auto simp: release_defs)

section \<open>Debits\<close>

definition covers :: "string \<Rightarrow> nat \<Rightarrow> ledger \<Rightarrow> bool" where
  "covers did cost l \<longleftrightarrow> (\<exists>b. balance_of did l = Some b \<and> int cost \<le> b)"

lemma balance_of_eq:
  assumes "distinct (map ac_did (lg_accounts l))" "a \<in> set (lg_accounts l)"
  shows "balance_of (ac_did a) l = Some (ac_balance a)"
proof -
  obtain b where b: "List.find (\<lambda>x. ac_did x = ac_did a) (lg_accounts l) = Some b"
    using assms(2) by (cases "List.find (\<lambda>x. ac_did x = ac_did a) (lg_accounts l)")
      (auto simp: find_None_iff_ball)
  with assms have "b = a" by (auto simp: distinct_map inj_on_def dest!: find_Some_mem)
  with b show ?thesis by (simp add: balance_of_def)
qed

lemma covers_iff:
  assumes "distinct (map ac_did (lg_accounts l))"
  shows "covers did cost l \<longleftrightarrow> (\<exists>a \<in> set (lg_accounts l). ac_did a = did \<and> int cost \<le> ac_balance a)"
proof
  assume "covers did cost l"
  then show "\<exists>a \<in> set (lg_accounts l). ac_did a = did \<and> int cost \<le> ac_balance a"
    by (auto simp: covers_def balance_of_def dest!: find_Some_mem)
next
  assume "\<exists>a \<in> set (lg_accounts l). ac_did a = did \<and> int cost \<le> ac_balance a"
  then show "covers did cost l"
    using balance_of_eq [OF assms] by (auto simp: covers_def)
qed

definition debited :: "string \<Rightarrow> nat \<Rightarrow> int \<Rightarrow> ledger \<Rightarrow> ledger" where
  "debited did cost now l =
     l\<lparr>lg_accounts := update_rows (\<lambda>a. ac_did a = did \<and> ac_balance a \<ge> int cost)
        (\<lambda>a. a\<lparr>ac_balance := ac_balance a - int cost, ac_updated_at := now\<rparr>) (lg_accounts l)\<rparr>"

lemma debit_rows_eq:
  assumes "books_ok l"
  shows "debit_rows guard did cost now l =
    Some (if guard \<and> covers did cost l then (1, debited did cost now l) else (0, l))"
proof -
  have dist: "distinct (map ac_did (lg_accounts l))" using assms by (simp add: books_ok_def)
  let ?p = "\<lambda>a. ac_did a = did \<and> ac_balance a \<ge> int cost \<and> guard"
  show ?thesis
  proof (cases "guard \<and> covers did cost l")
    case True
    then obtain a where a: "a \<in> set (lg_accounts l)" "ac_did a = did" "int cost \<le> ac_balance a"
      using covers_iff [OF dist] by blast
    have "filter ?p (lg_accounts l) = [a]"
      by (rule filter_key_unique [where f = ac_did]) (use dist a True in auto)
    then have "count_rows ?p (lg_accounts l) = 1" by (simp add: count_rows_def)
    with True show ?thesis by (simp add: debit_rows_def debited_def)
  next
    case False
    then have none: "\<not> ?p a" if "a \<in> set (lg_accounts l)" for a
      using covers_iff [OF dist] that by blast
    then have "count_rows ?p (lg_accounts l) = 0" "update_rows ?p f (lg_accounts l) = lg_accounts l" for f
      by (simp_all add: count_rows_def filter_empty_conv update_rows_no_hit)
    with False show ?thesis by (auto simp: debit_rows_def)
  qed
qed

lemma debited_keeps:
  assumes "books_ok l" "covers did cost l"
  shows "books_ok (debited did cost now l)"
    "balances d (debited did cost now l) = balances d l - (if d = did then int cost else 0)"
proof -
  have dist: "distinct (map ac_did (lg_accounts l))" using assms(1) by (simp add: books_ok_def)
  show "books_ok (debited did cost now l)"
    using assms(1) by (auto simp: books_ok_def debited_def map_update_rows set_update_rows credit_ok_def
        split: credit_kind.splits)
  obtain a where a: "a \<in> set (lg_accounts l)" "ac_did a = did" "int cost \<le> ac_balance a"
    using assms(2) covers_iff [OF dist] by blast
  have "filter (\<lambda>a. ac_did a = did \<and> ac_balance a \<ge> int cost) (lg_accounts l) = [a]"
    by (rule filter_key_unique [where f = ac_did]) (use dist a in auto)
  then show "balances d (debited did cost now l) = balances d l - (if d = did then int cost else 0)"
    using a(2) by (auto simp: balances_def debited_def sum_update_rows)
qed

lemma debited_frame [simp]:
  "lg_jobs (debited did cost now l) = lg_jobs l" "lg_credits (debited did cost now l) = lg_credits l"
  "lg_legacy (debited did cost now l) = lg_legacy l" "job_ok (debited did cost now l) = job_ok l"
  "deposit_credits (debited did cost now l) = deposit_credits l"
  "job_weights d (debited did cost now l) = job_weights d l"
  by (simp_all add: debited_def job_ok_def deposit_credits_def job_weights_def fun_eq_iff)

section \<open>Every transaction keeps the ledger\<close>

definition charge :: "string \<Rightarrow> ledger_op \<Rightarrow> ledger \<Rightarrow> int" where
  "charge d x l =
     (case x of Op_Debit did cost now \<Rightarrow> if did = d \<and> covers did (sats cost) l then int (sats cost) else 0
      | _ \<Rightarrow> 0)"

lemma release_ops_keep:
  assumes "ledger_ok l" "x = Op_Settle jid agent actual rid now \<or> x = Op_Cancel jid caller rid now \<or>
    x = Op_Expire jid rid now"
  shows "ledger_ok (apply_op x l) \<and> worth d (apply_op x l) = worth d l \<and>
    deposit_credits (apply_op x l) = deposit_credits l \<and> lg_legacy (apply_op x l) = lg_legacy l"
  using assms(2)
proof (elim disjE)
  assume "x = Op_Settle jid agent actual rid now"
  then show ?thesis
    by (intro settle.release_op [OF assms(1)]) (simp add: SQL_JOB_SETTLE_def)
next
  assume "x = Op_Cancel jid caller rid now"
  then show ?thesis
    by (intro cancel.release_op [OF assms(1)]) (simp add: SQL_JOB_CANCEL_def)
next
  assume "x = Op_Expire jid rid now"
  then show ?thesis
    by (intro expire.release_op [OF assms(1)]) (simp add: SQL_JOB_EXPIRE_def)
qed

lemma start_keeps:
  assumes "ledger_ok l"
  shows "ledger_ok (apply_op (Op_Start jid agent now) l) \<and>
    worth d (apply_op (Op_Start jid agent now) l) = worth d l \<and>
    deposit_credits (apply_op (Op_Start jid agent now) l) = deposit_credits l \<and>
    lg_legacy (apply_op (Op_Start jid agent now) l) = lg_legacy l"
proof -
  let ?g = "\<lambda>j. j\<lparr>jb_status := JRunning, jb_started_at := Some now\<rparr>"
  let ?p = "\<lambda>j. jb_id j = jid \<and> jb_status j = JHeld \<and> jb_agent j = agent"
  let ?l = "l\<lparr>lg_jobs := update_rows ?p ?g (lg_jobs l)\<rparr>"
  have eq: "apply_op (Op_Start jid agent now) l = ?l"
    by (simp add: apply_op_def SQL_JOB_START_def update_jobs_def)
  have w: "job_weight (if ?p j then ?g j else j) = job_weight j"
    "live (if ?p j then ?g j else j) = live j" for j
    by (simp_all add: release_defs)
  have "job_weights d ?l = job_weights d l"
    by (auto simp: job_weights_def update_rows_def o_def w intro!: arg_cong [where f = sum_list])
  moreover have "credit_ok ?l c \<longleftrightarrow> credit_ok l c" for c
    using w(2) by (auto simp: credit_ok_def update_rows_def live_def split: credit_kind.splits) 
  moreover have "job_ok ?l (if ?p j then ?g j else j)" if "job_ok l j" for j
    using that by (auto simp: job_ok_def release_defs split: if_splits)
  ultimately show ?thesis
    using assms unfolding eq
    by (simp add: ledger_ok_def books_ok_def map_update_rows ball_update_rows worth_def balances_def
        deposited_def deposit_credits_def)
qed

lemma debit_keeps:
  assumes "ledger_ok l"
  shows "ledger_ok (apply_op (Op_Debit did cost now) l) \<and>
    worth d (apply_op (Op_Debit did cost now) l) + charge d (Op_Debit did cost now) l = worth d l \<and>
    deposit_credits (apply_op (Op_Debit did cost now) l) = deposit_credits l \<and>
    lg_legacy (apply_op (Op_Debit did cost now) l) = lg_legacy l"
proof -
  have eq: "apply_op (Op_Debit did cost now) l =
      (if covers did (sats cost) l then debited did (sats cost) now l else l)"
    by (simp add: apply_op_def SQL_DEBIT_def debit_rows_eq [OF ledger_okD(1) [OF assms]])
  show ?thesis
    using assms debited_keeps [OF ledger_okD(1) [OF assms], of did "sats cost"]
    by (auto simp: eq ledger_ok_def charge_def worth_def deposited_def)
qed

lemma deposit_posts:
  assumes "ledger_ok l" and c_def: "c = \<lparr>cr_ref = replay_key o', cr_did = did, cr_amount = sats v, cr_kind = DepositCredit o',
      cr_request_id = rid, cr_applied = False, cr_created_at = now\<rparr>"
  shows "apply_op (Op_Deposit did o' v rid now) l = post_credit now (if legacy_holds o' l then [] else [c]) l"
proof -
  let ?new = "if legacy_holds o' l then [] else [c]"
  have "?new = [] \<or> (\<exists>c. ?new = [c] \<and> cr_ref c = replay_key o' \<and> \<not> cr_applied c)"
    by (simp add: c_def)
  from credit_batch [OF books_ok_applied [OF ledger_okD(1) [OF assms(1)]] this, of now]
  obtain ns where "transact (insert_credits ?new # apply_stmts (replay_key o') now) l =
      Some (ns, post_credit now ?new l)" by blast
  moreover have "SQL_JOURNAL_DEPOSIT did o' (sats v) rid now l = insert_credits ?new l"
    by (simp add: SQL_JOURNAL_DEPOSIT_def c_def)
  ultimately show ?thesis by (simp add: apply_op_def)
qed

lemma deposit_keeps:
  assumes "ledger_ok l" and l'_def: "l' = apply_op (Op_Deposit did o' v rid now) l"
  shows "ledger_ok l' \<and> worth d l' = worth d l \<and> lg_legacy l' = lg_legacy l \<and>
    (deposit_credits l' = deposit_credits l \<or>
     \<not> legacy_holds o' l \<and> replay_key o' \<notin> cr_ref ` set (lg_credits l) \<and>
     deposit_credits l' = deposit_credits l @
       [\<lparr>cr_ref = replay_key o', cr_did = did, cr_amount = sats v, cr_kind = DepositCredit o',
         cr_request_id = rid, cr_applied = True, cr_created_at = now\<rparr>])"
proof -
  define c where "c = \<lparr>cr_ref = replay_key o', cr_did = did, cr_amount = sats v, cr_kind = DepositCredit o',
      cr_request_id = rid, cr_applied = False, cr_created_at = now\<rparr>"
  let ?new = "if legacy_holds o' l then [] else [c]"
  have l': "l' = post_credit now ?new l"
    unfolding l'_def by (rule deposit_posts [OF assms(1) c_def])
  note b = ledger_okD(1) [OF assms(1)]
  have "books_ok l'"
    unfolding l' by (rule post_credit_books [OF b]) (simp add: postable_def c_def)
  moreover have "job_ok l' j" if "j \<in> set (lg_jobs l')" for j
  proof -
    have "job_ok l j" using ledger_okD(4) [OF assms(1)] that by (simp add: l' post_credit_frame)
    moreover have "cr_ref ` set (lg_credits l) \<subseteq> cr_ref ` set (lg_credits l')"
      unfolding l' using post_credit_frame(3) by blast
    ultimately show ?thesis by (auto simp: job_ok_def split: if_splits)
  qed
  moreover have "job_weights d l' = job_weights d l" by (simp add: job_weights_def l' post_credit_frame)
  moreover have "balances d l' - deposited d l' = balances d l - deposited d l"
    using post_credit_sums(1) [OF b, of d now c] post_credit_sums(2) [OF b, of now c]
    by (simp add: l' deposited_def c_def)
  ultimately show ?thesis
    using post_credit_sums(2) [OF b, of now c]
    by (auto simp: ledger_ok_def worth_def l' post_credit_frame c_def)
qed

lemma create_keeps:
  assumes "ledger_ok l" and x_def: "x = Op_Create jid requester agent endpoint params estimated held now expires"
  shows "ledger_ok (apply_op x l) \<and> worth d (apply_op x l) = worth d l \<and>
    deposit_credits (apply_op x l) = deposit_credits l \<and> lg_legacy (apply_op x l) = lg_legacy l"
proof -
  let ?j = "new_job jid requester agent endpoint params (sats estimated) (sats held) now expires"
  let ?l = "l\<lparr>lg_jobs := lg_jobs l @ [?j]\<rparr>"
  note b = ledger_okD(1) [OF assms(1)]
  show ?thesis
  proof (cases "covers requester (sats held) l")
    case False
    then have "SQL_JOB_INSERT_IF_FUNDED ?j l = Some (0, l)"
      by (auto simp: SQL_JOB_INSERT_IF_FUNDED_def covers_def new_job_def split: option.split)
    moreover have "SQL_JOB_DEBIT_HOLD (sats held) now requester jid l = Some (0, l)"
      using False by (simp add: SQL_JOB_DEBIT_HOLD_def debit_rows_eq [OF b])
    ultimately have "apply_op x l = l" by (simp add: apply_op_def x_def)
    with assms(1) show ?thesis by simp
  next
    case funded: True
    show ?thesis
    proof (cases "jid \<in> jb_id ` set (lg_jobs l)")
      case True
      then have "SQL_JOB_INSERT_IF_FUNDED ?j l = None"
        using funded by (auto simp: SQL_JOB_INSERT_IF_FUNDED_def covers_def new_job_def)
      then have "apply_op x l = l" by (simp add: apply_op_def x_def)
      with assms(1) show ?thesis by simp
    next
      case fresh: False
      have ins: "SQL_JOB_INSERT_IF_FUNDED ?j l = Some (1, ?l)"
        using funded fresh by (auto simp: SQL_JOB_INSERT_IF_FUNDED_def covers_def new_job_def)
      have live: "live ?j" "jb_release_ref ?j = None" "jb_actual ?j = None" "jb_id ?j = jid"
        "jb_requester ?j = requester" "jb_held ?j = sats held"
        by (simp_all add: live_def new_job_def)
      have bl: "books_ok ?l"
        using b fresh live(1,4) by (auto simp: books_ok_def credit_ok_def split: credit_kind.splits)
      have "covers requester (sats held) ?l" using funded by (simp add: covers_def balance_of_def)
      moreover have "\<exists>j \<in> set (lg_jobs ?l). jb_id j = jid \<and> jb_requester j = requester"
        using live(4,5) by auto
      ultimately have deb: "SQL_JOB_DEBIT_HOLD (sats held) now requester jid ?l =
          Some (1, debited requester (sats held) now ?l)"
        by (simp add: SQL_JOB_DEBIT_HOLD_def debit_rows_eq [OF bl])
      have eq: "apply_op x l = debited requester (sats held) now ?l"
        by (simp add: apply_op_def x_def ins deb)
      note dk = debited_keeps [OF bl \<open>covers requester (sats held) ?l\<close>, where now = now]
      have "job_ok ?l j" if "j \<in> set (lg_jobs ?l)" for j
        using that ledger_okD(4) [OF assms(1)] live(1-3) by (auto simp: job_ok_def)
      then have "ledger_ok (debited requester (sats held) now ?l)"
        using dk(1) by (simp add: ledger_ok_def)
      moreover have "job_weights d ?l = job_weights d l + (if requester = d then int (sats held) else 0)"
        by (simp add: job_weights_def job_weight_def new_job_def live_def)
      moreover have "balances d ?l = balances d l" by (simp add: balances_def)
      moreover have "deposit_credits ?l = deposit_credits l" by (simp add: deposit_credits_def)
      ultimately show ?thesis
        using dk(2) [of d] by (auto simp: eq worth_def deposited_def)
    qed
  qed
qed

text \<open>The four facts at once.\<close>

lemma op_keeps:
  assumes "ledger_ok l"
  shows "ledger_ok (apply_op x l)" "worth d (apply_op x l) + charge d x l = worth d l"
    "lg_legacy (apply_op x l) = lg_legacy l" "\<exists>cs. deposit_credits (apply_op x l) = deposit_credits l @ cs"
proof -
  have "ledger_ok (apply_op x l) \<and> worth d (apply_op x l) + charge d x l = worth d l \<and>
    lg_legacy (apply_op x l) = lg_legacy l \<and> (\<exists>cs. deposit_credits (apply_op x l) = deposit_credits l @ cs)"
  proof (cases x)
    case Op_Debit
    then show ?thesis using debit_keeps [OF assms] by auto
  next
    case (Op_Deposit did o' v rid now)
    from deposit_keeps [OF assms refl, where d = d and did = did and o' = o' and v = v and rid = rid and now = now] show ?thesis
      by (auto simp: Op_Deposit charge_def)
  next
    case Op_Create
    then show ?thesis using create_keeps [OF assms refl] by (simp add: charge_def)
  next
    case Op_Start
    then show ?thesis using start_keeps [OF assms] by (simp add: charge_def)
  qed (use release_ops_keep [OF assms] in \<open>auto simp: charge_def\<close>)
  then show "ledger_ok (apply_op x l)" "worth d (apply_op x l) + charge d x l = worth d l"
    "lg_legacy (apply_op x l) = lg_legacy l" "\<exists>cs. deposit_credits (apply_op x l) = deposit_credits l @ cs"
    by blast+
qed

interpretation ledger: invariant_machine apply_op ledger_ok
  by unfold_locales (rule op_keeps(1))

fun charges :: "string \<Rightarrow> ledger_op list \<Rightarrow> ledger \<Rightarrow> int" where
  "charges d [] l = 0"
| "charges d (x # xs) l = charge d x l + charges d xs (apply_op x l)"

lemma worth_run: "ledger_ok l \<Longrightarrow> worth d (run apply_op xs l) + charges d xs l = worth d l"
proof (induction xs arbitrary: l)
  case (Cons x xs)
  from Cons.IH [OF op_keeps(1) [OF Cons.prems, of x]] op_keeps(2) [OF Cons.prems, of d x] show ?case
    by simp
qed simp

lemma run_frame:
  "ledger_ok l \<Longrightarrow> lg_legacy (run apply_op xs l) = lg_legacy l \<and>
   (\<exists>cs. deposit_credits (run apply_op xs l) = deposit_credits l @ cs)"
proof (induction xs arbitrary: l)
  case (Cons x xs)
  from Cons.IH [OF op_keeps(1) [OF Cons.prems, of x]] op_keeps(3,4) [OF Cons.prems, of x] show ?case
    by auto
qed simp

text \<open>The deposits name distinct outpoints, and a new one names an outpoint the legacy table lacks.\<close>

lemma deposits_distinct:
  assumes "ledger_ok l"
  shows "distinct (map cr_kind (deposit_credits l))"
proof -
  have "distinct (map cr_ref (deposit_credits l))"
    using ledger_okD(1) [OF assms] by (simp add: books_ok_def deposit_credits_def distinct_map_filter)
  moreover have "cr_ref c = (case cr_kind c of DepositCredit o' \<Rightarrow> replay_key o' | ReleaseCredit \<Rightarrow> [])"
    if "c \<in> set (deposit_credits l)" for c
    using ledger_okD(3) [OF assms, of c] that
    by (auto simp: deposit_credits_def credit_ok_def split: credit_kind.splits)
  ultimately show ?thesis
    by (auto simp: distinct_map inj_on_def)
qed

lemma op_deposits:
  assumes "ledger_ok l"
  shows "\<exists>cs. deposit_credits (apply_op x l) = deposit_credits l @ cs \<and>
    list_all (\<lambda>c. \<exists>o'. cr_kind c = DepositCredit o' \<and> \<not> legacy_holds o' l) cs"
proof (cases x)
  case (Op_Deposit did o' v rid now)
  from deposit_keeps [OF assms refl, where d = did and did = did and o' = o' and v = v and rid = rid and now = now]
  show ?thesis by (auto simp: Op_Deposit)
qed (use debit_keeps [OF assms] create_keeps [OF assms refl] start_keeps [OF assms]
    release_ops_keep [OF assms] in \<open>auto intro!: exI [of _ "[]"]\<close>)

end
