(* ===== verification/Pay_Routes.thy ===== *)
theory Pay_Routes
  imports Ledger "HOL-Library.Char_ord" "HOL-Library.List_Lexorder"
begin

text \<open>
  The \<open>/pay/*\<close> routes (\<open>nostr-bbs-pod-worker/src/pay_ledger.rs\<close>) over the ledger: what a request
  may do to whose account, the evidence a deposit needs, and the agent jobs.

  A request runs against a world with a script: before each of its database calls other requests
  may commit any transactions of theory Ledger, and the call itself may be lost on either leg.
  Upstream code (\<open>solid_pod_rs\<close>), the key derivation, serde and the explorer are the record
  \<open>pay_host\<close>.
\<close>

section \<open>Calls\<close>

record pay_world =
  pw_db :: ledger
  pw_script :: "(ledger_op list \<times> net) list"

definition ledger_call :: "pay_world \<Rightarrow> net \<times> pay_world" where
  "ledger_call w =
     (case pw_script w of
        [] \<Rightarrow> (Delivered, w)
      | (xs, n) # rest \<Rightarrow> (n, w\<lparr>pw_db := run apply_op xs (pw_db w), pw_script := rest\<rparr>))"

text \<open>\<open>LedgerDb::batch\<close>: the changed-row counts, or nothing where the caller sees an error.\<close>

definition batch :: "ledger_op \<Rightarrow> pay_world \<Rightarrow> nat list option \<times> pay_world" where
  "batch x w =
     (case ledger_call w of
        (n, w) \<Rightarrow>
          if n = RequestLost then (None, w)
          else case transact (op_stmts x) (pw_db w) of
            None \<Rightarrow> (None, w)
          | Some (ns, l) \<Rightarrow> (if n = Delivered then Some ns else None, w\<lparr>pw_db := l\<rparr>))"

text \<open>\<open>LedgerDb::first\<close> and \<open>all\<close>\<close>

definition query :: "(ledger \<Rightarrow> 'a) \<Rightarrow> pay_world \<Rightarrow> 'a option \<times> pay_world" where
  "query f w = (case ledger_call w of (n, w) \<Rightarrow> (if n = Delivered then Some (f (pw_db w)) else None, w))"

section \<open>Configuration, callers and replies\<close>

record chain_config =
  cc_id :: string
  cc_unit :: string
  cc_explorer_api :: string

record pay_config =
  pc_cost_sats :: nat
  pc_chains :: "chain_config list"

record pay_host =
  ph_did :: "string \<Rightarrow> string"
  ph_parse_txo :: "string \<Rightarrow> (string option \<times> string \<times> nat) option"
  ph_parse_json :: "string \<Rightarrow> json option"
  ph_hex :: "string \<Rightarrow> string"
  ph_script :: "string \<Rightarrow> string \<Rightarrow> string option"
  ph_address :: "string \<Rightarrow> string \<Rightarrow> string option"
  ph_transaction :: "string \<Rightarrow> string \<Rightarrow> json option"
  ph_estimate_body :: "string \<Rightarrow> string option"
  ph_create_body :: "string \<Rightarrow> (string \<times> string \<times> json option) option"
  ph_action_body :: "string \<Rightarrow> string option"
  ph_settle_body :: "string \<Rightarrow> (string \<times> nat) option"
  ph_json_text :: "json \<Rightarrow> string option"
  ph_bitcoin_mainnet :: chain_config
  ph_pay_info :: "pay_config \<Rightarrow> json"
  ph_random :: "string option"
  ph_is_admin :: "string \<Rightarrow> int option d1_reply"

record pay_context =
  px_config :: pay_config
  px_now :: int
  px_master_secret :: "string option"
  px_job_expiry_secs :: int

record caller =
  ca_pubkey :: string
  ca_request_id :: string

datatype pay_method = GET | POST | Other_Method

text \<open>One constructor for each error the routes answer.\<close>

datatype pay_error =
    StoreFailed | BodyNotUtf8 | EmptyBody | BodyNotObject | AmountNotAccepted | NoTxoInBody
  | UnsupportedChain string | OtherTransaction | NoVoutArray | VoutOutOfRange | NoScript
  | NotYourAddress | NotConfirmed | NoOutputValue | InvalidTxo | WrongUnit | AlreadyCredited
  | TxoLookupFailed | AuthenticationRequired | NotConfigured | DerivationFailed | RouteGone
  | MethodNotAllowed | ParseFailed | AgentDidPrefix | AgentDidLength | ZeroEstimate | CsprngFailed
  | JobNotStartable | JobNotFound | OnlyAgentSettles | NotRunning job_status | ActualExceedsHold nat nat
  | OnlyPartiesCancel | CannotCancel job_status | OnlyPartiesView | AdminRequired
  | InsufficientForHold nat nat | PaymentRequired nat nat

fun error_status :: "pay_error \<Rightarrow> nat" where
  "error_status StoreFailed = 500"
| "error_status CsprngFailed = 500"
| "error_status OtherTransaction = 502"
| "error_status NoVoutArray = 502"
| "error_status NoScript = 502"
| "error_status NoOutputValue = 502"
| "error_status TxoLookupFailed = 502"
| "error_status NotConfigured = 503"
| "error_status NotYourAddress = 403"
| "error_status OnlyAgentSettles = 403"
| "error_status OnlyPartiesCancel = 403"
| "error_status OnlyPartiesView = 403"
| "error_status AdminRequired = 403"
| "error_status NotConfirmed = 409"
| "error_status AlreadyCredited = 409"
| "error_status (NotRunning s) = 409"
| "error_status (CannotCancel s) = 409"
| "error_status AuthenticationRequired = 401"
| "error_status RouteGone = 410"
| "error_status MethodNotAllowed = 405"
| "error_status JobNotStartable = 404"
| "error_status JobNotFound = 404"
| "error_status (InsufficientForHold b r) = 402"
| "error_status (PaymentRequired b c) = 402"
| "error_status e = 400"

datatype pay_body =
    InfoBody json
  | AddressBody string
  | BalanceBody string nat nat
  | DepositedBody string nat nat string
  | ResourceBody string nat nat
  | EstimateReply string string nat
  | JobsBody "job list"
  | JobCreatedBody string string string string nat nat int string
  | JobStartedBody string int
  | JobSettledBody string nat nat nat int
  | JobCancelledBody string nat int
  | JobBody job
  | CleanupBody nat

datatype pay_reply = PayOk pay_body | PayErr pay_error

definition reply_status :: "pay_reply \<Rightarrow> nat" where
  "reply_status r = (case r of PayOk _ \<Rightarrow> 200 | PayErr e \<Rightarrow> error_status e)"

section \<open>Outpoints and evidence\<close>

definition outpoint_new :: "string \<Rightarrow> string \<Rightarrow> nat \<Rightarrow> outpoint option" where
  "outpoint_new chain txid vout =
     (let chain = ascii_lower (trim chain) in
      if chain = [] \<or> \<not> list_all (\<lambda>c. is_ascii_alphanumeric c \<or> c = CHR ''-'' \<or> c = CHR ''_'') chain then None
      else if \<not> is_hex64 txid then None
      else Some \<lparr>op_chain = chain, op_txid = ascii_lower txid, op_vout = vout\<rparr>)"

definition DEFAULT_CHAIN :: string where "DEFAULT_CHAIN = ''btc''"
definition LEDGER_UNIT :: string where "LEDGER_UNIT = ''sat''"

definition from_txo_uri :: "pay_host \<Rightarrow> string \<Rightarrow> outpoint option" where
  "from_txo_uri h uri =
     (case ph_parse_txo h uri of
        None \<Rightarrow> None
      | Some (chain, txid, vout) \<Rightarrow>
          outpoint_new (case chain of Some c \<Rightarrow> c | None \<Rightarrow> DEFAULT_CHAIN) txid vout)"

definition deposit_txo_from_body :: "pay_host \<Rightarrow> string \<Rightarrow> pay_error + string" where
  "deposit_txo_from_body h body =
     (if \<not> utf8_valid body then Inl BodyNotUtf8
      else let text = trim body in
        if text = [] then Inl EmptyBody
        else if \<not> starts_with ''{'' text then Inr text
        else case ph_parse_json h text of
          Some (JObj ms) \<Rightarrow>
            if json_get ''amount_sats'' (JObj ms) \<noteq> None then Inl AmountNotAccepted
            else (case json_get ''txo'' (JObj ms) of
                Some (JStr t) \<Rightarrow> if trim t \<noteq> [] then Inr (trim t) else Inl NoTxoInBody
              | _ \<Rightarrow> Inl NoTxoInBody)
        | _ \<Rightarrow> Inl BodyNotObject)"

definition resolve_chain :: "pay_host \<Rightarrow> pay_config \<Rightarrow> string \<Rightarrow> pay_error + chain_config" where
  "resolve_chain h cfg i =
     (case List.find (\<lambda>c. cc_id c = i) (pc_chains cfg) of
        Some c \<Rightarrow> Inr c
      | None \<Rightarrow> if i = DEFAULT_CHAIN \<and> pc_chains cfg = [] then Inr (ph_bitcoin_mainnet h)
                else Inl (UnsupportedChain i))"

definition json_as_u64 :: "json \<Rightarrow> nat option" where
  "json_as_u64 v = (case v of JInt n \<Rightarrow> if 0 \<le> n \<and> n < 2 ^ 64 then Some (nat n) else None | _ \<Rightarrow> None)"

definition qualifying_output :: "pay_host \<Rightarrow> json \<Rightarrow> outpoint \<Rightarrow> string \<Rightarrow> pay_error + nat" where
  "qualifying_output h tx o' script =
     (if (case json_str_field ''txid'' tx of
            Some t \<Rightarrow> \<not> eq_ignore_ascii_case t (op_txid o') | None \<Rightarrow> False)
      then Inl OtherTransaction
      else case Option.bind (json_get ''vout'' tx) json_as_array of
        None \<Rightarrow> Inl NoVoutArray
      | Some outputs \<Rightarrow>
          (case get_at outputs (op_vout o') of
             None \<Rightarrow> Inl VoutOutOfRange
           | Some output \<Rightarrow>
               (case json_str_field ''scriptpubkey'' output of
                  None \<Rightarrow> Inl NoScript
                | Some s \<Rightarrow>
                    if \<not> eq_ignore_ascii_case s (ph_hex h script) then Inl NotYourAddress
                    else if Option.bind (json_get ''status'' tx) (json_get ''confirmed'') \<noteq> Some (JBool True)
                    then Inl NotConfirmed
                    else case Option.bind (json_get ''value'' output) json_as_u64 of
                      None \<Rightarrow> Inl NoOutputValue
                    | Some v \<Rightarrow> Inr v)))"

section \<open>Reading and debiting\<close>

text \<open>\<open>u64_field\<close> of a balance: negative numbers saturate to zero.\<close>

definition read_balance :: "string \<Rightarrow> pay_world \<Rightarrow> nat option \<times> pay_world" where
  "read_balance did = query (\<lambda>l. case balance_of did l of Some b \<Rightarrow> nat b | None \<Rightarrow> 0)"

datatype debit_outcome = Done nat | Insufficient nat nat

definition debit :: "string \<Rightarrow> nat \<Rightarrow> int \<Rightarrow> pay_world \<Rightarrow> debit_outcome option \<times> pay_world" where
  "debit did cost now w =
     (case batch (Op_Debit did cost now) w of
        (None, w) \<Rightarrow> (None, w)
      | (Some changed, w) \<Rightarrow>
          (case read_balance did w of
             (None, w) \<Rightarrow> (None, w)
           | (Some balance, w) \<Rightarrow>
               (Some (if get_at changed 0 = None \<or> get_at changed 0 = Some 0 then Insufficient balance cost
                      else Done balance), w)))"

definition outpoint_credited :: "outpoint \<Rightarrow> pay_world \<Rightarrow> bool option \<times> pay_world" where
  "outpoint_credited o' = query (\<lambda>l. replay_key o' \<in> cr_ref ` set (lg_credits l) \<or> legacy_holds o' l)"

definition credit_deposit ::
  "string \<Rightarrow> outpoint \<Rightarrow> nat \<Rightarrow> string option \<Rightarrow> int \<Rightarrow> pay_world \<Rightarrow> bool option \<times> pay_world"
where
  "credit_deposit did o' v rid now w =
     (case batch (Op_Deposit did o' v rid now) w of
        (r, w) \<Rightarrow> (map_option (\<lambda>changed. get_at changed 2 = Some 1) r, w))"

definition deposit ::
  "pay_host \<Rightarrow> pay_config \<Rightarrow> string \<Rightarrow> string \<Rightarrow> string option \<Rightarrow> string \<Rightarrow> int \<Rightarrow> pay_world \<Rightarrow>
   pay_reply \<times> pay_world"
where
  "deposit h cfg did script rid body now w =
     (case deposit_txo_from_body h body of
        Inl e \<Rightarrow> (PayErr e, w)
      | Inr uri \<Rightarrow>
     (case from_txo_uri h uri of
        None \<Rightarrow> (PayErr InvalidTxo, w)
      | Some o' \<Rightarrow>
     (case resolve_chain h cfg (op_chain o') of
        Inl e \<Rightarrow> (PayErr e, w)
      | Inr chain \<Rightarrow>
          if cc_unit chain \<noteq> LEDGER_UNIT then (PayErr WrongUnit, w)
          else
     (case outpoint_credited o' w of
        (None, w) \<Rightarrow> (PayErr StoreFailed, w)
      | (Some True, w) \<Rightarrow> (PayErr AlreadyCredited, w)
      | (Some False, w) \<Rightarrow>
     (case ph_transaction h (cc_explorer_api chain) (op_txid o') of
        None \<Rightarrow> (PayErr TxoLookupFailed, w)
      | Some tx \<Rightarrow>
     (case qualifying_output h tx o' script of
        Inl e \<Rightarrow> (PayErr e, w)
      | Inr v \<Rightarrow>
     (case credit_deposit did o' v rid now w of
        (None, w) \<Rightarrow> (PayErr StoreFailed, w)
      | (Some False, w) \<Rightarrow> (PayErr AlreadyCredited, w)
      | (Some True, w) \<Rightarrow>
     (case read_balance did w of
        (None, w) \<Rightarrow> (PayErr StoreFailed, w)
      | (Some b, w) \<Rightarrow> (PayOk (DepositedBody did v b (replay_key o')), w)))))))))"

definition paid_resource ::
  "pay_context \<Rightarrow> string \<Rightarrow> string \<Rightarrow> pay_world \<Rightarrow> pay_reply \<times> pay_world"
where
  "paid_resource ctx did resource w =
     (case debit did (pc_cost_sats (px_config ctx)) (px_now ctx) w of
        (Some (Done remaining), w) \<Rightarrow> (PayOk (ResourceBody resource (pc_cost_sats (px_config ctx)) remaining), w)
      | (Some (Insufficient b c), w) \<Rightarrow> (PayErr (PaymentRequired b c), w)
      | (None, w) \<Rightarrow> (PayErr StoreFailed, w))"

section \<open>Agent jobs\<close>

text \<open>The products wrap at 64 bits, as a release build computes them.\<close>

definition estimate_endpoint_cost :: "string \<Rightarrow> nat \<Rightarrow> nat" where
  "estimate_endpoint_cost e base =
     (if starts_with ''/api/inference/'' e then base * 10 mod 2 ^ 64
      else if starts_with ''/api/image-gen/'' e then base * 100 mod 2 ^ 64
      else if starts_with ''/api/analytics/'' e then base * 5 mod 2 ^ 64
      else base)"

text \<open>\<open>(estimated as f64 * 1.2).ceil() as u64\<close>\<close>

definition hold_for :: "nat \<Rightarrow> nat" where
  "hold_for n = min (2 ^ 64 - 1)
     (nat \<lceil>f64_round (of_nat (f64_of_u64 n) * f64_round (6 / 5))\<rceil>)"

definition valid_agent_did :: "string \<Rightarrow> pay_error option" where
  "valid_agent_did did =
     (case strip_prefix ''did:nostr:'' did of
        None \<Rightarrow> Some AgentDidPrefix
      | Some pk \<Rightarrow> if is_hex64 pk then None else Some AgentDidLength)"

text \<open>\<open>format!("{:04}-{:02}...")\<close>\<close>

definition pad_left :: "nat \<Rightarrow> string \<Rightarrow> string" where
  "pad_left n s = replicate (n - length s) CHR ''0'' @ s"

definition pad_int :: "nat \<Rightarrow> int \<Rightarrow> string" where
  "pad_int n i = (if i < 0 then ''-'' @ pad_left (n - 1) (dec_str (nat (- i))) else pad_left n (dec_str (nat i)))"

text \<open>\<open>div_euclid\<close> and \<open>rem_euclid\<close> by a positive constant are \<open>div\<close> and \<open>mod\<close>; the other divisions
  are of numbers that are not negative.\<close>

definition iso8601_from_epoch :: "int \<Rightarrow> string" where
  "iso8601_from_epoch t =
     (let days = t div 86400; sod = t mod 86400;
          z = days + 719468; era = z div 146097; doe = z - era * 146097;
          yoe = (doe - doe div 1460 + doe div 36524 - doe div 146096) div 365;
          doy = doe - (365 * yoe + yoe div 4 - yoe div 100);
          mp = (5 * doy + 2) div 153;
          d = doy - (153 * mp + 2) div 5 + 1;
          m = (if mp < 10 then mp + 3 else mp - 9);
          y = yoe + era * 400 + (if m \<le> 2 then 1 else 0)
      in pad_int 4 y @ ''-'' @ pad_int 2 m @ ''-'' @ pad_int 2 d @ ''T'' @ pad_int 2 (sod div 3600) @ '':''
         @ pad_int 2 (sod mod 3600 div 60) @ '':'' @ pad_int 2 (sod mod 60) @ ''.000Z'')"

definition generate_job_id :: "pay_host \<Rightarrow> int \<Rightarrow> string option" where
  "generate_job_id h now =
     (case ph_random h of
        None \<Rightarrow> None
      | Some buf \<Rightarrow> Some (''job_'' @ pad_int 0 now @ ''_'' @ ph_hex h buf))"

definition estimate :: "pay_host \<Rightarrow> pay_context \<Rightarrow> string \<Rightarrow> string \<Rightarrow> pay_reply" where
  "estimate h ctx did body =
     (case ph_estimate_body h body of
        None \<Rightarrow> PayErr ParseFailed
      | Some e \<Rightarrow> PayOk (EstimateReply did e (estimate_endpoint_cost e (pc_cost_sats (px_config ctx)))))"

text \<open>\<open>ORDER BY created_at DESC LIMIT 50\<close>, ties in row order.\<close>

definition jobs_list :: "string \<Rightarrow> pay_world \<Rightarrow> pay_reply \<times> pay_world" where
  "jobs_list did w =
     (case query (\<lambda>l. take 50 (sort_key (\<lambda>j. - jb_created_at j) (filter (\<lambda>j. jb_requester j = did) (lg_jobs l)))) w of
        (None, w) \<Rightarrow> (PayErr StoreFailed, w)
      | (Some js, w) \<Rightarrow> (PayOk (JobsBody js), w))"

definition job_create ::
  "pay_host \<Rightarrow> pay_context \<Rightarrow> string \<Rightarrow> string \<Rightarrow> pay_world \<Rightarrow> pay_reply \<times> pay_world"
where
  "job_create h ctx did body w =
     (case ph_create_body h body of
        None \<Rightarrow> (PayErr ParseFailed, w)
      | Some (agent, endpoint, params) \<Rightarrow>
     (case valid_agent_did agent of
        Some e \<Rightarrow> (PayErr e, w)
      | None \<Rightarrow>
          let estimated = estimate_endpoint_cost endpoint (pc_cost_sats (px_config ctx));
              held = hold_for estimated; now = px_now ctx;
              expires = iso8601_from_epoch (now + px_job_expiry_secs ctx);
              text = map_option (\<lambda>p. case ph_json_text h p of Some t \<Rightarrow> t | None \<Rightarrow> []) params
          in if estimated = 0 then (PayErr ZeroEstimate, w)
          else case generate_job_id h now of
            None \<Rightarrow> (PayErr CsprngFailed, w)
          | Some jid \<Rightarrow>
     (case batch (Op_Create jid did agent endpoint text estimated held now expires) w of
        (None, w) \<Rightarrow> (PayErr StoreFailed, w)
      | (Some c, w) \<Rightarrow>
          if get_at c 0 = Some 1 \<and> get_at c 1 = Some 1
          then (PayOk (JobCreatedBody jid did agent endpoint estimated held now expires), w)
          else case read_balance did w of
            (b, w) \<Rightarrow> (PayErr (InsufficientForHold (case b of Some n \<Rightarrow> n | None \<Rightarrow> 0) held), w))))"

definition job_start ::
  "pay_host \<Rightarrow> pay_context \<Rightarrow> string \<Rightarrow> string \<Rightarrow> pay_world \<Rightarrow> pay_reply \<times> pay_world"
where
  "job_start h ctx agent body w =
     (case ph_action_body h body of
        None \<Rightarrow> (PayErr ParseFailed, w)
      | Some jid \<Rightarrow>
     (case batch (Op_Start jid agent (px_now ctx)) w of
        (None, w) \<Rightarrow> (PayErr StoreFailed, w)
      | (Some c, w) \<Rightarrow>
          if get_at c 0 = Some 1 then (PayOk (JobStartedBody jid (px_now ctx)), w)
          else (PayErr JobNotStartable, w)))"

definition job_row :: "string \<Rightarrow> pay_world \<Rightarrow> job option option \<times> pay_world" where
  "job_row jid = query (\<lambda>l. List.find (\<lambda>j. jb_id j = jid) (lg_jobs l))"

definition job_settle ::
  "pay_host \<Rightarrow> pay_context \<Rightarrow> string \<Rightarrow> string \<Rightarrow> string \<Rightarrow> pay_world \<Rightarrow> pay_reply \<times> pay_world"
where
  "job_settle h ctx agent rid body w =
     (case ph_settle_body h body of
        None \<Rightarrow> (PayErr ParseFailed, w)
      | Some (jid, actual) \<Rightarrow>
     (case batch (Op_Settle jid agent actual rid (px_now ctx)) w of
        (None, w) \<Rightarrow> (PayErr StoreFailed, w)
      | (Some c, w) \<Rightarrow>
     (case job_row jid w of
        (None, w) \<Rightarrow> (PayErr StoreFailed, w)
      | (Some None, w) \<Rightarrow> (PayErr JobNotFound, w)
      | (Some (Some j), w) \<Rightarrow>
          (if get_at c 0 = Some 1
           then PayOk (JobSettledBody jid actual (jb_held j) (jb_held j - actual) (px_now ctx))
           else PayErr (if jb_agent j \<noteq> agent then OnlyAgentSettles
             else if jb_status j \<noteq> JRunning then NotRunning (jb_status j)
             else ActualExceedsHold actual (jb_held j)), w))))"

definition job_cancel ::
  "pay_host \<Rightarrow> pay_context \<Rightarrow> string \<Rightarrow> string \<Rightarrow> string \<Rightarrow> pay_world \<Rightarrow> pay_reply \<times> pay_world"
where
  "job_cancel h ctx did rid body w =
     (case ph_action_body h body of
        None \<Rightarrow> (PayErr ParseFailed, w)
      | Some jid \<Rightarrow>
     (case batch (Op_Cancel jid did rid (px_now ctx)) w of
        (None, w) \<Rightarrow> (PayErr StoreFailed, w)
      | (Some c, w) \<Rightarrow>
     (case job_row jid w of
        (None, w) \<Rightarrow> (PayErr StoreFailed, w)
      | (Some None, w) \<Rightarrow> (PayErr JobNotFound, w)
      | (Some (Some j), w) \<Rightarrow>
          (if get_at c 0 = Some 1 then PayOk (JobCancelledBody jid (jb_held j) (px_now ctx))
           else PayErr (if did \<noteq> jb_requester j \<and> did \<noteq> jb_agent j then OnlyPartiesCancel
             else CannotCancel (jb_status j)), w))))"

definition job_get :: "pay_host \<Rightarrow> string \<Rightarrow> string \<Rightarrow> pay_world \<Rightarrow> pay_reply \<times> pay_world" where
  "job_get h did body w =
     (case ph_action_body h body of
        None \<Rightarrow> (PayErr ParseFailed, w)
      | Some jid \<Rightarrow>
     (case job_row jid w of
        (None, w) \<Rightarrow> (PayErr StoreFailed, w)
      | (Some None, w) \<Rightarrow> (PayErr JobNotFound, w)
      | (Some (Some j), w) \<Rightarrow>
          (if did \<noteq> jb_requester j \<and> did \<noteq> jb_agent j then PayErr OnlyPartiesView else PayOk (JobBody j), w)))"

fun expire_jobs :: "string list \<Rightarrow> string \<Rightarrow> int \<Rightarrow> nat \<Rightarrow> pay_world \<Rightarrow> nat option \<times> pay_world" where
  "expire_jobs [] rid now n w = (Some n, w)"
| "expire_jobs (jid # jids) rid now n w =
     (if jid = [] then expire_jobs jids rid now n w
      else case batch (Op_Expire jid rid now) w of
        (None, w) \<Rightarrow> (None, w)
      | (Some c, w) \<Rightarrow> expire_jobs jids rid now (if get_at c 0 = Some 1 then n + 1 else n) w)"

text \<open>\<open>expires_at < ?1\<close> compares bytes.\<close>

definition expired_jobs :: "string \<Rightarrow> ledger \<Rightarrow> string list" where
  "expired_jobs cutoff l =
     map jb_id (filter (\<lambda>j. live j \<and> (case jb_expires_at j of Some e \<Rightarrow> e < cutoff | None \<Rightarrow> False)) (lg_jobs l))"

definition recover_orphaned_jobs :: "string \<Rightarrow> int \<Rightarrow> pay_world \<Rightarrow> nat option \<times> pay_world" where
  "recover_orphaned_jobs rid now w =
     (case query (expired_jobs (iso8601_from_epoch now)) w of
        (None, w) \<Rightarrow> (None, w)
      | (Some jids, w) \<Rightarrow> expire_jobs jids rid now 0 w)"

definition cleanup :: "pay_host \<Rightarrow> pay_context \<Rightarrow> caller \<Rightarrow> pay_world \<Rightarrow> pay_reply \<times> pay_world" where
  "cleanup h ctx ca w =
     (if ph_is_admin h (ca_pubkey ca) \<noteq> Row (Some 1) then (PayErr AdminRequired, w)
      else case recover_orphaned_jobs (ca_request_id ca) (px_now ctx) w of
        (None, w) \<Rightarrow> (PayErr StoreFailed, w)
      | (Some n, w) \<Rightarrow> (PayOk (CleanupBody n), w))"

section \<open>The routes\<close>

text \<open>\<open>info_body\<close>: the upstream body less the routes this pod does not serve.\<close>

definition json_remove :: "string list \<Rightarrow> json \<Rightarrow> json" where
  "json_remove ks v = (case v of JObj ms \<Rightarrow> JObj (filter (\<lambda>(k, _). k \<notin> set ks) ms) | v \<Rightarrow> v)"

definition info_body :: "pay_host \<Rightarrow> pay_config \<Rightarrow> json" where
  "info_body h cfg =
     (case ph_pay_info h cfg of
        JObj ms \<Rightarrow> json_remove [''pool'']
          (JObj (map (\<lambda>(k, v). (k, if k = ''token'' then json_remove [''buy'', ''withdraw''] v else v)) ms))
      | v \<Rightarrow> v)"

definition address :: "pay_host \<Rightarrow> pay_context \<Rightarrow> string \<Rightarrow> pay_reply" where
  "address h ctx pk =
     (case px_master_secret ctx of
        None \<Rightarrow> PayErr NotConfigured
      | Some s \<Rightarrow> (case ph_address h s pk of Some a \<Rightarrow> PayOk (AddressBody a) | None \<Rightarrow> PayErr DerivationFailed))"

definition dispatch ::
  "pay_host \<Rightarrow> pay_context \<Rightarrow> pay_method \<Rightarrow> string \<Rightarrow> caller option \<Rightarrow> string \<Rightarrow> pay_world \<Rightarrow>
   pay_reply \<times> pay_world"
where
  "dispatch h ctx method path ca body w =
     (if path = ''.info'' \<or> path = ''.offers'' then (PayOk (InfoBody (info_body h (px_config ctx))), w)
      else case ca of
        None \<Rightarrow> (PayErr AuthenticationRequired, w)
      | Some c \<Rightarrow>
          let did = ph_did h (ca_pubkey c); rid = ca_request_id c in
          if method = GET \<and> path = ''.address'' then (address h ctx (ca_pubkey c), w)
          else if method = GET \<and> path = ''.balance'' then
            (case read_balance did w of
               (None, w) \<Rightarrow> (PayErr StoreFailed, w)
             | (Some b, w) \<Rightarrow> (PayOk (BalanceBody did b (pc_cost_sats (px_config ctx))), w))
          else if method = POST \<and> path = ''.deposit'' then
            (case px_master_secret ctx of
               None \<Rightarrow> (PayErr NotConfigured, w)
             | Some secret \<Rightarrow>
                 (case ph_script h secret (ca_pubkey c) of
                    None \<Rightarrow> (PayErr DerivationFailed, w)
                  | Some script \<Rightarrow> deposit h (px_config ctx) did script (Some rid) body (px_now ctx) w))
          else if method = POST \<and> (path = ''.buy'' \<or> path = ''.withdraw'') then (PayErr RouteGone, w)
          else if method = POST \<and> path = ''.estimate'' then (estimate h ctx did body, w)
          else if method = GET \<and> path = ''.jobs'' then jobs_list did w
          else if method = POST \<and> path = ''.jobs.create'' then job_create h ctx did body w
          else if method = POST \<and> path = ''.jobs.start'' then job_start h ctx did body w
          else if method = POST \<and> path = ''.jobs.settle'' then job_settle h ctx did rid body w
          else if method = POST \<and> path = ''.jobs.cancel'' then job_cancel h ctx did rid body w
          else if method = POST \<and> path = ''.jobs.get'' then job_get h did body w
          else if method = POST \<and> path = ''.cleanup'' then cleanup h ctx c w
          else if method = GET then paid_resource ctx did path w
          else (PayErr MethodNotAllowed, w))"

section \<open>What a request may commit\<close>

text \<open>The evidence a deposit is credited on.\<close>

definition deposit_evidence ::
  "pay_host \<Rightarrow> pay_config \<Rightarrow> string \<Rightarrow> string \<Rightarrow> outpoint \<Rightarrow> nat \<Rightarrow> bool"
where
  "deposit_evidence h cfg script body o' v \<longleftrightarrow>
     (\<exists>uri chain tx. deposit_txo_from_body h body = Inr uri \<and> from_txo_uri h uri = Some o' \<and>
        resolve_chain h cfg (op_chain o') = Inr chain \<and> cc_unit chain = LEDGER_UNIT \<and>
        ph_transaction h (cc_explorer_api chain) (op_txid o') = Some tx \<and>
        qualifying_output h tx o' script = Inr v)"

text \<open>What the signed request of a caller stands for.\<close>

fun authorised :: "pay_host \<Rightarrow> pay_context \<Rightarrow> caller \<Rightarrow> string \<Rightarrow> ledger_op \<Rightarrow> bool" where
  "authorised h ctx c body (Op_Debit did cost now) \<longleftrightarrow>
     did = ph_did h (ca_pubkey c) \<and> cost = pc_cost_sats (px_config ctx)"
| "authorised h ctx c body (Op_Deposit did o' v rid now) \<longleftrightarrow>
     did = ph_did h (ca_pubkey c) \<and> rid = Some (ca_request_id c) \<and>
     (\<exists>secret script. px_master_secret ctx = Some secret \<and> ph_script h secret (ca_pubkey c) = Some script \<and>
        deposit_evidence h (px_config ctx) script body o' v)"
| "authorised h ctx c body (Op_Create jid requester agent endpoint params estimated held now expires) \<longleftrightarrow>
     requester = ph_did h (ca_pubkey c) \<and> held = hold_for estimated"
| "authorised h ctx c body (Op_Start jid agent now) \<longleftrightarrow> agent = ph_did h (ca_pubkey c)"
| "authorised h ctx c body (Op_Settle jid agent actual rid now) \<longleftrightarrow>
     agent = ph_did h (ca_pubkey c) \<and> rid = ca_request_id c"
| "authorised h ctx c body (Op_Cancel jid did rid now) \<longleftrightarrow>
     did = ph_did h (ca_pubkey c) \<and> rid = ca_request_id c"
| "authorised h ctx c body (Op_Expire jid rid now) \<longleftrightarrow>
     ph_is_admin h (ca_pubkey c) = Row (Some 1) \<and> rid = ca_request_id c"

text \<open>\<open>w\<close> leads to \<open>w'\<close> by transactions of the script and of \<open>Q\<close>.\<close>

definition reaches :: "(ledger_op \<Rightarrow> bool) \<Rightarrow> pay_world \<Rightarrow> pay_world \<Rightarrow> bool" where
  "reaches Q w w' \<longleftrightarrow>
     (\<exists>us. pw_script w = us @ pw_script w' \<and>
        (\<exists>xs. pw_db w' = run apply_op xs (pw_db w) \<and>
           (\<forall>x \<in> set xs. Q x \<or> x \<in> set (concat (map fst us)))))"

lemma reaches_refl [simp, intro]: "reaches Q w w"
  by (auto simp: reaches_def intro: exI [of _ "[]"])

lemma reaches_trans: "reaches Q u v \<Longrightarrow> reaches Q v w \<Longrightarrow> reaches Q u w"
  unfolding reaches_def
proof (elim exE conjE)
  fix us vs xs ys
  assume "pw_script u = us @ pw_script v" "pw_script v = vs @ pw_script w"
    "pw_db v = run apply_op xs (pw_db u)" "pw_db w = run apply_op ys (pw_db v)"
    "\<forall>x \<in> set xs. Q x \<or> x \<in> set (concat (map fst us))" "\<forall>x \<in> set ys. Q x \<or> x \<in> set (concat (map fst vs))"
  then show "\<exists>us. pw_script u = us @ pw_script w \<and>
      (\<exists>xs. pw_db w = run apply_op xs (pw_db u) \<and> (\<forall>x \<in> set xs. Q x \<or> x \<in> set (concat (map fst us))))"
    by (intro exI [of _ "us @ vs"] conjI exI [of _ "xs @ ys"]) auto
qed

lemma reaches_call: "ledger_call w = (n, w') \<Longrightarrow> reaches Q w w'"
proof (cases "pw_script w")
  case (Cons c rest)
  moreover assume "ledger_call w = (n, w')"
  ultimately have "pw_db w' = run apply_op (fst c) (pw_db w)" "pw_script w = [c] @ pw_script w'"
    by (auto simp: ledger_call_def split: prod.splits)
  then show ?thesis
    unfolding reaches_def by (intro exI [of _ "[c]"] conjI exI [of _ "fst c"]) auto
qed (simp add: ledger_call_def)

lemma reaches_query: "query f w = (r, w') \<Longrightarrow> reaches Q w w'"
  by (auto simp: query_def split: prod.splits intro: reaches_call)

lemma reaches_batch: "batch x w = (r, w') \<Longrightarrow> Q x \<Longrightarrow> reaches Q w w'"
proof -
  assume b: "batch x w = (r, w')" and q: "Q x"
  obtain n v where v: "ledger_call w = (n, v)" by force
  have "reaches Q v w'"
  proof (cases "n = RequestLost \<or> transact (op_stmts x) (pw_db v) = None")
    case True
    with b v show ?thesis by (auto simp: batch_def split: if_splits)
  next
    case False
    then obtain ns l where "transact (op_stmts x) (pw_db v) = Some (ns, l)" by auto
    with False b v have "pw_db w' = run apply_op [x] (pw_db v)" "pw_script w' = pw_script v"
      by (auto simp: batch_def apply_op_def)
    with q show ?thesis unfolding reaches_def by (intro exI [of _ "[]"] conjI exI [of _ "[x]"]) auto
  qed
  with reaches_call [OF v] show ?thesis by (rule reaches_trans)
qed

lemmas reaches_calls = reaches_trans reaches_query reaches_batch

lemma reaches_read_balance: "read_balance did w = (r, w') \<Longrightarrow> reaches Q w w'"
  unfolding read_balance_def by (rule reaches_query)

lemma reaches_debit: "debit did cost now w = (r, w') \<Longrightarrow> Q (Op_Debit did cost now) \<Longrightarrow> reaches Q w w'"
  by (auto simp: debit_def split: option.splits prod.splits
      intro: reaches_trans [OF reaches_batch reaches_read_balance] reaches_batch)

lemma reaches_credit_deposit:
  "credit_deposit did o' v rid now w = (r, w') \<Longrightarrow> Q (Op_Deposit did o' v rid now) \<Longrightarrow> reaches Q w w'"
  by (auto simp: credit_deposit_def split: prod.splits intro: reaches_batch)

lemma reaches_deposit:
  assumes "deposit h cfg did script rid body now w = (r, w')"
    and "\<And>o' v. deposit_evidence h cfg script body o' v \<Longrightarrow> Q (Op_Deposit did o' v rid now)"
  shows "reaches Q w w'"
proof -
  have credited: "reaches Q u v" if "outpoint_credited o' u = (r, v)" for o' u r v
    using that unfolding outpoint_credited_def by (rule reaches_query)
  show ?thesis
    using assms
    by (auto simp: deposit_def deposit_evidence_def split: sum.splits option.splits prod.splits bool.splits if_splits
        dest!: credited intro: reaches_trans reaches_credit_deposit reaches_read_balance)
      (metis reaches_trans reaches_credit_deposit reaches_read_balance)+
qed

lemma reaches_paid_resource:
  "paid_resource ctx did res w = (r, w') \<Longrightarrow>
   Q (Op_Debit did (pc_cost_sats (px_config ctx)) (px_now ctx)) \<Longrightarrow> reaches Q w w'"
  by (auto simp: paid_resource_def split: option.splits prod.splits debit_outcome.splits intro: reaches_debit)

lemma reaches_job_row: "job_row jid w = (r, w') \<Longrightarrow> reaches Q w w'"
  unfolding job_row_def by (rule reaches_query)

lemma reaches_job_create:
  assumes "job_create h ctx did body w = (r, w')"
    and "\<And>jid agent e params est now x. Q (Op_Create jid did agent e params est (hold_for est) now x)"
  shows "reaches Q w w'"
  using assms(1)
  by (auto simp: job_create_def Let_def split: option.splits prod.splits if_splits
      intro: reaches_batch [where Q = Q, OF _ assms(2)]
        reaches_trans [OF reaches_batch [where Q = Q, OF _ assms(2)] reaches_read_balance])

lemma reaches_job_start:
  "job_start h ctx did body w = (r, w') \<Longrightarrow> (\<And>jid now. Q (Op_Start jid did now)) \<Longrightarrow> reaches Q w w'"
  by (auto simp: job_start_def split: option.splits prod.splits if_splits intro: reaches_batch)

lemma reaches_job_settle:
  assumes "job_settle h ctx did rid body w = (r, w')" "\<And>jid actual now. Q (Op_Settle jid did actual rid now)"
  shows "reaches Q w w'"
  using assms(1)
  by (auto simp: job_settle_def split: option.splits prod.splits
      intro: reaches_batch [where Q = Q, OF _ assms(2)]
        reaches_trans [OF reaches_batch [where Q = Q, OF _ assms(2)] reaches_job_row])

lemma reaches_job_cancel:
  assumes "job_cancel h ctx did rid body w = (r, w')" "\<And>jid now. Q (Op_Cancel jid did rid now)"
  shows "reaches Q w w'"
  using assms(1)
  by (auto simp: job_cancel_def split: option.splits prod.splits
      intro: reaches_batch [where Q = Q, OF _ assms(2)]
        reaches_trans [OF reaches_batch [where Q = Q, OF _ assms(2)] reaches_job_row])

lemma reaches_job_get: "job_get h did body w = (r, w') \<Longrightarrow> reaches Q w w'"
  by (auto simp: job_get_def split: option.splits prod.splits if_splits intro: reaches_job_row)

lemma reaches_jobs_list: "jobs_list did w = (r, w') \<Longrightarrow> reaches Q w w'"
  by (auto simp: jobs_list_def split: option.splits prod.splits intro: reaches_query)

lemma reaches_expire_jobs:
  "expire_jobs jids rid now n w = (r, w') \<Longrightarrow> (\<And>jid now. Q (Op_Expire jid rid now)) \<Longrightarrow> reaches Q w w'"
proof (induction jids rid now n w rule: expire_jobs.induct)
  case (2 jid jids rid now n w)
  show ?case
  proof (cases "jid = []")
    case False
    obtain c v where c: "batch (Op_Expire jid rid now) w = (c, v)" by force
    have "reaches Q w v" by (rule reaches_batch [OF c]) (rule "2.prems"(2))
    moreover have "reaches Q v w'"
      using "2.IH"(2) [OF False c [symmetric]] "2.prems" False c by (auto split: option.splits)
    ultimately show ?thesis by (rule reaches_trans)
  qed (use 2 in simp)
qed auto

lemma reaches_cleanup:
  assumes "cleanup h ctx c w = (r, w')"
    and "ph_is_admin h (ca_pubkey c) = Row (Some 1) \<Longrightarrow> \<forall>jid now. Q (Op_Expire jid (ca_request_id c) now)"
  shows "reaches Q w w'"
  using assms
  by (auto simp: cleanup_def recover_orphaned_jobs_def split: option.splits prod.splits if_splits
      intro: reaches_query reaches_expire_jobs reaches_trans [OF reaches_query reaches_expire_jobs])

lemma dispatch_reaches:
  assumes "dispatch h ctx method path ca body w = (r, w')"
  shows "reaches (\<lambda>x. \<exists>c. ca = Some c \<and> authorised h ctx c body x) w w'"
proof (cases "w' = w")
  case False
  then obtain c where c: "ca = Some c"
    using assms by (auto simp: dispatch_def split: if_splits option.splits)
  note intros = reaches_read_balance reaches_jobs_list reaches_job_create reaches_job_start reaches_job_settle
    reaches_job_cancel reaches_job_get reaches_cleanup reaches_paid_resource
  show ?thesis
    using assms False
    by (auto simp: dispatch_def c Let_def split: if_splits option.splits prod.splits
        intro: intros elim!: reaches_deposit)
qed simp

section \<open>Properties\<close>

text \<open>C22. A request commits nothing its signer may not: whatever the route, body, faults and other
  requests in between, the ledger it leaves is the one it found after transactions of those
  other requests and of its own, and each of its own debits or holds the signer's account only,
  starts or settles a job as its agent, cancels one as the signer, expires jobs only for an
  administrator, and credits a deposit only to the signer, on a confirmed output that pays the
  signer's own derived script on a chain counted in sats.\<close>

theorem dispatch_authorised:
  "\<exists>r w' us xs. dispatch h ctx method path ca body w = (r, w') \<and> pw_script w = us @ pw_script w' \<and>
     pw_db w' = run apply_op xs (pw_db w) \<and>
     list_all (\<lambda>x. x \<in> set (concat (map fst us)) \<or> (\<exists>c. ca = Some c \<and> authorised h ctx c body x)) xs"
proof -
  obtain r w' where d: "dispatch h ctx method path ca body w = (r, w')" by force
  from dispatch_reaches [OF d] obtain us xs where "pw_script w = us @ pw_script w'"
    "pw_db w' = run apply_op xs (pw_db w)"
    "\<forall>x \<in> set xs. (\<exists>c. ca = Some c \<and> authorised h ctx c body x) \<or> x \<in> set (concat (map fst us))"
    unfolding reaches_def by blast
  with d show ?thesis by (auto simp: list_all_iff)
qed

text \<open>C23. Sats are conserved, account by account, over any sequence of the ledger's transactions: an
  account's balance, the holds of its live jobs and the costs of its settled jobs grow by exactly
  the deposits credited to it and shrink by exactly what its reads of paid resources were
  charged. No balance is ever negative, and a hold is returned once however often its job is
  settled, cancelled and expired.\<close>

theorem ledger_conserves:
  assumes "ledger_ok l" and "l' = run apply_op xs l"
  shows "balances d l' + job_weights d l' + charges d xs l - (balances d l + job_weights d l) =
      deposited d l' - deposited d l \<and>
    list_all (\<lambda>a. 0 \<le> ac_balance a) (lg_accounts l')"
proof -
  have "ledger_ok l'" unfolding assms(2) by (rule ledger.run_inv [OF assms(1)])
  then show ?thesis
    using worth_run [OF assms(1), of d xs] assms(2)
    by (simp add: worth_def ledger_ok_def books_ok_def list_all_iff)
qed

text \<open>C24. An outpoint is credited once: over any sequence of transactions the deposits already
  journalled stay, a newly credited outpoint is one no earlier row and no row of the legacy
  table held, and no two deposits ever name the same outpoint.\<close>

theorem outpoint_credited_once:
  assumes "ledger_ok l"
  shows "\<exists>cs. deposit_credits (run apply_op xs l) = deposit_credits l @ cs \<and>
    distinct (map cr_kind (deposit_credits (run apply_op xs l))) \<and>
    list_all (\<lambda>c. \<exists>o'. cr_kind c = DepositCredit o' \<and> \<not> legacy_holds o' l) cs"
  using assms
proof (induction xs arbitrary: l)
  case Nil
  have "distinct (map cr_kind (deposit_credits l))"
    using Nil by (rule deposits_distinct)
  then show ?case by simp
next
  case (Cons x xs)
  note ok = op_keeps(1) [OF Cons.prems, of x] and legacy = op_keeps(3) [OF Cons.prems, of x]
  obtain cs where cs: "deposit_credits (apply_op x l) = deposit_credits l @ cs"
    "list_all (\<lambda>c. \<exists>o'. cr_kind c = DepositCredit o' \<and> \<not> legacy_holds o' l) cs"
    using op_deposits [OF Cons.prems, of x] by blast
  from Cons.IH [OF ok] obtain ds where ds:
    "deposit_credits (run apply_op xs (apply_op x l)) = deposit_credits (apply_op x l) @ ds"
    "distinct (map cr_kind (deposit_credits (run apply_op xs (apply_op x l))))"
    "list_all (\<lambda>c. \<exists>o'. cr_kind c = DepositCredit o' \<and> \<not> legacy_holds o' (apply_op x l)) ds" by blast
  have "legacy_holds o' (apply_op x l) = legacy_holds o' l" for o'
    by (simp add: legacy_holds_def legacy)
  with cs ds show ?case by (intro exI [of _ "cs @ ds"]) simp
qed

text \<open>A funded account, a job held against it and a transaction of each kind.\<close>

definition sample_ledger :: ledger where
  "sample_ledger = \<lparr>lg_accounts = [\<lparr>ac_did = ''did:a'', ac_balance = 100, ac_updated_at = 0\<rparr>],
     lg_legacy = [\<lparr>ld_txid = ''AB'', ld_vout = 1\<rparr>],
     lg_jobs = [(new_job ''j1'' ''did:a'' ''did:b'' ''/x'' None 10 12 0 ''2026'')\<lparr>jb_status := JRunning\<rparr>],
     lg_credits = []\<rparr>"

definition sample_outpoint :: outpoint where
  "sample_outpoint = \<lparr>op_chain = ''btc'', op_txid = ''cd'', op_vout = 0\<rparr>"

definition sample_ops :: "ledger_op list" where
  "sample_ops = [Op_Settle ''j1'' ''did:b'' 5 ''r1'' 1, Op_Cancel ''j1'' ''did:a'' ''r2'' 2,
     Op_Deposit ''did:a'' sample_outpoint 50 (Some ''r3'') 3,
     Op_Deposit ''did:a'' sample_outpoint 50 (Some ''r4'') 4, Op_Debit ''did:a'' 7 5]"

lemma sample_ledger_ok: "ledger_ok sample_ledger"
  by (simp add: ledger_ok_def books_ok_def sample_ledger_def job_ok_def new_job_def live_def)

theorem ledger_conserves_witness:
  "balances ''did:a'' (run apply_op sample_ops sample_ledger) +
     job_weights ''did:a'' (run apply_op sample_ops sample_ledger) + charges ''did:a'' sample_ops sample_ledger =
   112 + deposited ''did:a'' (run apply_op sample_ops sample_ledger)"
proof -
  have "balances ''did:a'' sample_ledger = 100" "job_weights ''did:a'' sample_ledger = 12"
    "deposited ''did:a'' sample_ledger = 0"
    by (simp_all add: balances_def job_weights_def deposited_def deposit_credits_def sample_ledger_def
        job_weight_def new_job_def live_def)
  then show ?thesis
    using ledger_conserves [OF sample_ledger_ok refl, of "''did:a''" sample_ops] by simp
qed

theorem outpoint_credited_once_witness:
  "\<exists>cs. deposit_credits (run apply_op sample_ops sample_ledger) = cs \<and> distinct (map cr_kind cs) \<and>
     list_all (\<lambda>c. cr_kind c \<noteq> DepositCredit \<lparr>op_chain = ''btc'', op_txid = ''ab'', op_vout = 1\<rparr>) cs"
proof -
  have "legacy_holds \<lparr>op_chain = ''btc'', op_txid = ''ab'', op_vout = 1\<rparr> sample_ledger"
    by code_simp
  moreover have "deposit_credits sample_ledger = []"
    by (simp add: deposit_credits_def sample_ledger_def)
  ultimately show ?thesis
    using outpoint_credited_once [OF sample_ledger_ok, of sample_ops]
    by (fastforce simp: list_all_iff)
qed

end
