(* ===== verification/Caches.thy ===== *)
theory Caches
  imports Trust Machine
begin

text \<open>
  The per-object memories of the relay: the frame limiter and the connection slots
  (\<open>relay_do/broadcast.rs\<close>, \<open>relay_do/mod.rs\<close>), the lookup memo and the activity throttle
  (\<open>relay_do/read_cache.rs\<close>). A \<open>HashMap\<close> is a map; one whose entries default to a value is a
  function. Clocks are arguments: seconds, and milliseconds for the frame limiter.
\<close>

section \<open>The frame limiter\<close>

definition DEFAULT_MAX_MSGS_PER_SECOND :: nat where "DEFAULT_MAX_MSGS_PER_SECOND = 30"

text \<open>\<open>usize\<close> is 32 bits in the worker.\<close>

definition max_msgs_per_second :: "string option \<Rightarrow> nat" where
  "max_msgs_per_second var =
     (case Option.bind var parse_u32 of
        Some n \<Rightarrow> if n > 0 then n else DEFAULT_MAX_MSGS_PER_SECOND
      | None \<Rightarrow> DEFAULT_MAX_MSGS_PER_SECOND)"

type_synonym rate_limits = "string \<Rightarrow> nat list"

definition check_rate_limit :: "nat \<Rightarrow> nat \<Rightarrow> string \<Rightarrow> rate_limits \<Rightarrow> bool \<times> rate_limits" where
  "check_rate_limit limit now ip m =
     (let ts = filter (\<lambda>t. now \<le> t + 1000) (m ip) in
      if length ts \<ge> limit then (False, m(ip := ts)) else (True, m(ip := ts @ [now])))"

text \<open>The frames of one address, oldest first, that the limiter lets through.\<close>

fun admitted_frames :: "nat \<Rightarrow> string \<Rightarrow> (nat \<times> string) list \<Rightarrow> rate_limits \<Rightarrow> nat list" where
  "admitted_frames limit a [] m = []"
| "admitted_frames limit a ((now, ip) # calls) m =
     (case check_rate_limit limit now ip m of
        (ok, m') \<Rightarrow> (if ok \<and> ip = a then [now] else []) @ admitted_frames limit a calls m')"

definition close_admitted :: "bool \<Rightarrow> bool \<Rightarrow> bool" where
  "close_admitted holds_subscription within_budget \<longleftrightarrow> holds_subscription \<or> within_budget"

section \<open>Connection slots\<close>

type_synonym slot_counts = "string \<rightharpoonup> nat"

definition reserve_connection_slot :: "string \<Rightarrow> nat \<Rightarrow> slot_counts \<Rightarrow> bool \<times> slot_counts" where
  "reserve_connection_slot ip mx counts =
     (let n = (case counts ip of Some k \<Rightarrow> k | None \<Rightarrow> 0) in
      if n \<ge> mx then (False, counts) else (True, counts(ip \<mapsto> n + 1)))"

definition release_connection_slot :: "string \<Rightarrow> slot_counts \<Rightarrow> slot_counts" where
  "release_connection_slot ip counts =
     (let n = (case counts ip of Some k \<Rightarrow> k | None \<Rightarrow> 1) in
      if n \<le> 1 then counts(ip := None) else counts(ip \<mapsto> n - 1))"

section \<open>The lookup memo\<close>

definition LOOKUP_TTL_SECS :: nat where "LOOKUP_TTL_SECS = 60"

type_synonym 'v ttl_cache = "string \<rightharpoonup> 'v \<times> nat"

definition cache_get :: "nat \<Rightarrow> string \<Rightarrow> nat \<Rightarrow> 'v ttl_cache \<Rightarrow> 'v option" where
  "cache_get ttl k now c =
     (case c k of Some (v, t) \<Rightarrow> if now - t < ttl then Some v else None | None \<Rightarrow> None)"

definition cache_insert :: "string \<Rightarrow> 'v \<Rightarrow> nat \<Rightarrow> 'v ttl_cache \<Rightarrow> 'v ttl_cache" where
  "cache_insert k v now c = c(k \<mapsto> (v, now))"

definition cache_invalidate :: "string \<Rightarrow> 'v ttl_cache \<Rightarrow> 'v ttl_cache" where
  "cache_invalidate k c = c(k := None)"

text \<open>
  The three cached lookups. A channel without a zone is not remembered; the other two remember
  whatever the database answered, its faults included.
\<close>

definition cached_channel_zone :: "read_env \<Rightarrow> nat \<Rightarrow> string \<Rightarrow> string ttl_cache \<Rightarrow> string option \<times> string ttl_cache" where
  "cached_channel_zone env now c cache =
     (case cache_get LOOKUP_TTL_SECS c now cache of
        Some z \<Rightarrow> (Some z, cache)
      | None \<Rightarrow>
          (case get_channel_zone env c of
             None \<Rightarrow> (None, cache)
           | Some z \<Rightarrow> (Some z, cache_insert c z now cache)))"

definition cached_viewer_cohorts ::
  "read_env \<Rightarrow> nat \<Rightarrow> string \<Rightarrow> (string list \<times> bool) ttl_cache \<Rightarrow>
   (string list \<times> bool) \<times> (string list \<times> bool) ttl_cache"
where
  "cached_viewer_cohorts env now pk cache =
     (case cache_get LOOKUP_TTL_SECS pk now cache of
        Some hit \<Rightarrow> (hit, cache)
      | None \<Rightarrow> (let fresh = whitelist_cohorts env pk in (fresh, cache_insert pk fresh now cache)))"

definition cached_device_owner ::
  "read_env \<Rightarrow> nat \<Rightarrow> string \<Rightarrow> string option ttl_cache \<Rightarrow> string option \<times> string option ttl_cache"
where
  "cached_device_owner env now pk cache =
     (case cache_get LOOKUP_TTL_SECS pk now cache of
        Some hit \<Rightarrow> (hit, cache)
      | None \<Rightarrow> (let fresh = device_owner env pk in (fresh, cache_insert pk fresh now cache)))"

section \<open>The activity throttle\<close>

definition ACTIVITY_FLUSH_SECS :: nat where "ACTIVITY_FLUSH_SECS = 300"
definition PENDING_READS_FLUSH_AT :: int where "PENDING_READS_FLUSH_AT = 50"

record activity_ledger =
  al_last_flush :: "string \<rightharpoonup> nat"
  al_pending_reads :: "string \<rightharpoonup> int"

definition pending_of :: "string \<Rightarrow> activity_ledger \<Rightarrow> int" where
  "pending_of pk l = (case al_pending_reads l pk of Some n \<Rightarrow> n | None \<Rightarrow> 0)"

definition window_elapsed :: "string \<Rightarrow> nat \<Rightarrow> activity_ledger \<Rightarrow> bool" where
  "window_elapsed pk now l =
     (case al_last_flush l pk of Some t \<Rightarrow> now - t \<ge> ACTIVITY_FLUSH_SECS | None \<Rightarrow> True)"

definition take_pending :: "string \<Rightarrow> nat \<Rightarrow> activity_ledger \<Rightarrow> int \<times> activity_ledger" where
  "take_pending pk now l =
     (pending_of pk l,
      l\<lparr>al_last_flush := (al_last_flush l)(pk \<mapsto> now),
        al_pending_reads := (al_pending_reads l)(pk := None)\<rparr>)"

definition record_read :: "string \<Rightarrow> int \<Rightarrow> nat \<Rightarrow> activity_ledger \<Rightarrow> int option \<times> activity_ledger" where
  "record_read pk delivered now l =
     (let l = (if delivered > 0
               then l\<lparr>al_pending_reads := (al_pending_reads l)(pk \<mapsto> pending_of pk l + delivered)\<rparr>
               else l)
      in if window_elapsed pk now l \<or> pending_of pk l \<ge> PENDING_READS_FLUSH_AT
         then (case take_pending pk now l of (n, l) \<Rightarrow> (Some n, l)) else (None, l))"

definition record_write :: "string \<Rightarrow> nat \<Rightarrow> activity_ledger \<Rightarrow> int option \<times> activity_ledger" where
  "record_write pk now l =
     (if window_elapsed pk now l then (case take_pending pk now l of (n, l) \<Rightarrow> (Some n, l)) else (None, l))"

text \<open>\<open>flush_activity\<close>: the delivered reads, the activity stamp and the promotion check.\<close>

definition flush_activity ::
  "net \<times> (net \<times> net) \<times> (net \<times> net \<times> net) \<Rightarrow> thresholds \<Rightarrow> nat \<Rightarrow> string \<Rightarrow> int \<Rightarrow> whitelist_db \<Rightarrow> whitelist_db"
where
  "flush_activity n th now pk reads db =
     fst (check_promotion (snd (snd n)) th now pk
       (update_last_active (fst (snd n)) now pk (increment_posts_read_by (fst n) pk reads db)))"

datatype activity_op = ReadOp string int nat | WriteOp string nat

text \<open>The throttle beside the reads it has handed to a flush, per key.\<close>

fun activity_step :: "activity_op \<Rightarrow> activity_ledger \<times> (string \<Rightarrow> int) \<Rightarrow> activity_ledger \<times> (string \<Rightarrow> int)" where
  "activity_step (ReadOp pk n now) (l, flushed) =
     (case record_read pk n now l of
        (Some k, l) \<Rightarrow> (l, flushed(pk := flushed pk + k)) | (None, l) \<Rightarrow> (l, flushed))"
| "activity_step (WriteOp pk now) (l, flushed) =
     (case record_write pk now l of
        (Some k, l) \<Rightarrow> (l, flushed(pk := flushed pk + k)) | (None, l) \<Rightarrow> (l, flushed))"

fun delivered_to :: "string \<Rightarrow> activity_op list \<Rightarrow> int" where
  "delivered_to pk [] = 0"
| "delivered_to pk (ReadOp q n now # xs) = (if q = pk then max n 0 else 0) + delivered_to pk xs"
| "delivered_to pk (WriteOp q now # xs) = delivered_to pk xs"

section \<open>Lemmas\<close>

lemma rate_window:
  assumes "check_rate_limit limit now ip m = (ok, m')" "m a = filter (\<lambda>s. upto_t \<le> s + 1000) acc"
    and "\<forall>s \<in> set acc. s \<le> upto_t" "upto_t \<le> now"
    and "\<forall>t. length (filter (\<lambda>s. s \<le> t \<and> t \<le> s + 1000) acc) \<le> limit"
    and "acc' = acc @ (if ok \<and> ip = a then [now] else [])"
  shows "(\<exists>upto_t'. m' a = filter (\<lambda>s. upto_t' \<le> s + 1000) acc' \<and> (\<forall>s \<in> set acc'. s \<le> upto_t') \<and> upto_t' \<le> now) \<and>
    (\<forall>t. length (filter (\<lambda>s. s \<le> t \<and> t \<le> s + 1000) acc') \<le> limit)"
proof (cases "ip = a")
  case False
  then have "m' a = m a" "acc' = acc" using assms(1,6) by (auto simp: check_rate_limit_def Let_def split: if_splits)
  with assms(2-5) show ?thesis by auto
next
  case True
  have ts: "filter (\<lambda>t. now \<le> t + 1000) (m ip) = filter (\<lambda>s. now \<le> s + 1000) acc"
    unfolding True assms(2) filter_filter using assms(4) by (intro filter_cong) auto
  show ?thesis
  proof (cases ok)
    case False
    then have "m' a = filter (\<lambda>s. now \<le> s + 1000) acc" "acc' = acc"
      using assms(1,6) ts by (auto simp: check_rate_limit_def Let_def True split: if_splits)
    with assms(3-5) show ?thesis by (auto intro!: exI [of _ now])
  next
    case acc: True
    then have room: "length (filter (\<lambda>s. now \<le> s + 1000) acc) < limit"
      and m': "m' a = filter (\<lambda>s. now \<le> s + 1000) acc @ [now]"
      using assms(1) ts by (auto simp: check_rate_limit_def Let_def True split: if_splits)
    have "acc' = acc @ [now]" using acc True assms(6) by simp
    moreover have "length (filter (\<lambda>s. s \<le> t \<and> t \<le> s + 1000) (acc @ [now])) \<le> limit" for t
    proof (cases "now \<le> t")
      case False
      with assms(5) show ?thesis by simp
    next
      case now: True
      have "length (filter (\<lambda>s. s \<le> t \<and> t \<le> s + 1000) acc) \<le>
          length (filter (\<lambda>s. now \<le> s + 1000) acc)"
        using now by (induction acc) auto
      with room show ?thesis by simp
    qed
    ultimately show ?thesis
      using m' assms(3,4) by (auto intro!: exI [of _ now])
  qed
qed

lemma admitted_within:
  assumes "sorted (map fst calls)" "\<forall>c \<in> set calls. upto_t \<le> fst c"
    and "m a = filter (\<lambda>s. upto_t \<le> s + 1000) acc" "\<forall>s \<in> set acc. s \<le> upto_t"
    and "\<forall>t. length (filter (\<lambda>s. s \<le> t \<and> t \<le> s + 1000) acc) \<le> limit"
  shows "length (filter (\<lambda>s. s \<le> t \<and> t \<le> s + 1000) (acc @ admitted_frames limit a calls m)) \<le> limit"
  using assms
proof (induction calls arbitrary: m acc upto_t)
  case (Cons c calls)
  obtain now ip where c: "c = (now, ip)" by force
  obtain ok m' where ok: "check_rate_limit limit now ip m = (ok, m')" by force
  define acc' where "acc' = acc @ (if ok \<and> ip = a then [now] else [])"
  have "upto_t \<le> now" using Cons.prems(2) by (simp add: c)
  from rate_window [OF ok Cons.prems(3,4) this Cons.prems(5) acc'_def]
  obtain upto_t' where l: "m' a = filter (\<lambda>s. upto_t' \<le> s + 1000) acc'" "\<forall>s \<in> set acc'. s \<le> upto_t'" "upto_t' \<le> now"
    and w: "\<forall>t. length (filter (\<lambda>s. s \<le> t \<and> t \<le> s + 1000) acc') \<le> limit" by blast
  have "sorted (map fst calls)" "\<forall>c \<in> set calls. upto_t' \<le> fst c"
    using Cons.prems(1) l(3) by (auto simp: c)
  from Cons.IH [where m = m' and acc = acc' and upto_t = upto_t', OF this l(1,2) w] show ?case by (simp add: c ok acc'_def)
qed simp

lemma take_pending_of:
  "pending_of q (snd (take_pending pk now l)) = (if q = pk then 0 else pending_of q l)"
  by (simp add: take_pending_def pending_of_def)

lemma activity_step_conserves:
  assumes "activity_step x (l, flushed) = (l', flushed')"
  shows "flushed' pk + pending_of pk l' = flushed pk + pending_of pk l + delivered_to pk [x]"
proof (cases x)
  case (ReadOp q n now)
  define l1 where "l1 = (if n > 0 then l\<lparr>al_pending_reads := (al_pending_reads l)(q \<mapsto> pending_of q l + n)\<rparr> else l)"
  have p: "pending_of r l1 = pending_of r l + (if r = q then max n 0 else 0)" for r
    by (simp add: l1_def pending_of_def)
  have "record_read q n now l = (if window_elapsed q now l1 \<or> pending_of q l1 \<ge> PENDING_READS_FLUSH_AT
      then (Some (fst (take_pending q now l1)), snd (take_pending q now l1)) else (None, l1))"
    by (simp add: record_read_def Let_def l1_def split: prod.split)
  then show ?thesis
    using assms p [of pk] p [of q] take_pending_of [of pk q now l1]
    by (auto simp: ReadOp take_pending_def split: if_splits)
next
  case (WriteOp q now)
  then show ?thesis
    using assms take_pending_of [of pk q now l]
    by (auto simp: record_write_def take_pending_def split: if_splits)
qed

section \<open>Properties\<close>

text \<open>C30. The frame limiter never oversells an address: with a clock that does not go back, of the
  frames of one address it lets through, no window of one second (both ends included) holds more
  than the limit, whatever other addresses send.\<close>

theorem rate_limit_never_oversold:
  assumes "sorted (map fst calls)"
  shows "length (filter (\<lambda>s. s \<le> t \<and> t \<le> s + 1000) (admitted_frames limit a calls (\<lambda>_. []))) \<le> limit"
  using admitted_within [of calls 0 "\<lambda>_. []" a "[]" limit t] assms by simp

theorem rate_limit_never_oversold_witness:
  "length (filter (\<lambda>s. s \<le> 900 \<and> 900 \<le> s + 1000)
     (admitted_frames 2 ''a'' [(0, ''a''), (10, ''b''), (20, ''a''), (900, ''a''), (1001, ''a'')] (\<lambda>_. []))) \<le> 2"
  by (rule rate_limit_never_oversold) simp

text \<open>No delivered read is lost or counted twice by the throttle: for every key and every
  sequence of reads and writes, what has been handed to a flush plus what is still pending is
  exactly what was delivered.\<close>

theorem activity_reads_conserved:
  assumes "run activity_step xs (l, flushed) = (l', flushed')"
  shows "flushed' pk + pending_of pk l' = flushed pk + pending_of pk l + delivered_to pk xs"
  using assms
proof (induction xs arbitrary: l flushed)
  case (Cons x xs)
  obtain l1 f1 where 1: "activity_step x (l, flushed) = (l1, f1)" by force
  have "flushed' pk + pending_of pk l' = f1 pk + pending_of pk l1 + delivered_to pk xs"
    using Cons.IH [of l1 f1] Cons.prems by (simp add: 1)
  moreover have "delivered_to pk (x # xs) = delivered_to pk [x] + delivered_to pk xs"
    by (cases x) simp_all
  ultimately show ?case using activity_step_conserves [OF 1, of pk] by simp
qed simp

definition idle_ledger :: activity_ledger where
  "idle_ledger = \<lparr>al_last_flush = Map.empty, al_pending_reads = Map.empty\<rparr>"

theorem activity_reads_conserved_witness:
  "\<exists>l' f'. run activity_step [ReadOp ''a'' 3 100, ReadOp ''a'' 5 101, WriteOp ''a'' 200] (idle_ledger, \<lambda>_. 0) = (l', f') \<and>
     f' ''a'' + pending_of ''a'' l' = 8"
proof -
  obtain l' f' where r: "run activity_step [ReadOp ''a'' 3 100, ReadOp ''a'' 5 101, WriteOp ''a'' 200]
      (idle_ledger, \<lambda>_. 0) = (l', f')" by force
  from activity_reads_conserved [OF r, of "''a''"] r show ?thesis
    by (simp add: idle_ledger_def pending_of_def)
qed

end
