(* ===== verification/Moderation.thy ===== *)
theory Moderation
  imports Caches
begin

text \<open>
  Bans, mutes and reports: the resolution of a key's state from the action log and its
  sixty-second memo (\<open>relay_do/mod_cache.rs\<close>), the mirroring of moderation events into the log and
  the processing of reports (\<open>relay_do/nip_handlers.rs\<close>, \<open>moderation.rs\<close>).
\<close>

section \<open>The action log\<close>

record mod_row =
  mr_id :: string
  mr_action :: string
  mr_target :: string
  mr_performed_by :: string
  mr_reason :: "string option"
  mr_expires_at :: "int option"
  mr_event_id :: string
  mr_created_at :: int

datatype block = NoBlock | Banned | MutedUntil int | Unknown

text \<open>The loop's variables of \<open>resolve_block\<close>.\<close>

record mod_scan =
  ms_ban :: "int option"
  ms_unban :: "int option"
  ms_mute :: "int option"
  ms_unmute :: "int option"
  ms_perm :: bool
  ms_until :: "int option"

definition newest :: "int option \<Rightarrow> int \<Rightarrow> int option" where
  "newest old t = Some (case old of Some c \<Rightarrow> max c t | None \<Rightarrow> t)"

definition scan_row :: "int \<Rightarrow> mod_row \<Rightarrow> mod_scan \<Rightarrow> mod_scan" where
  "scan_row now r s =
     (if mr_action r = ''ban'' then s\<lparr>ms_ban := newest (ms_ban s) (mr_created_at r)\<rparr>
      else if mr_action r = ''unban'' then s\<lparr>ms_unban := newest (ms_unban s) (mr_created_at r)\<rparr>
      else if mr_action r = ''mute'' then
        (let s = s\<lparr>ms_mute := newest (ms_mute s) (mr_created_at r)\<rparr> in
         case mr_expires_at r of
           None \<Rightarrow> s\<lparr>ms_perm := True\<rparr>
         | Some t \<Rightarrow> if t > now then
             s\<lparr>ms_until := Some (case ms_until s of Some p \<Rightarrow> if p \<ge> t then p else t | None \<Rightarrow> t)\<rparr>
           else s)
      else if mr_action r = ''unmute'' then s\<lparr>ms_unmute := newest (ms_unmute s) (mr_created_at r)\<rparr>
      else s)"

definition scan_start :: mod_scan where
  "scan_start = \<lparr>ms_ban = None, ms_unban = None, ms_mute = None, ms_unmute = None,
     ms_perm = False, ms_until = None\<rparr>"

definition resolve_block :: "mod_row list \<Rightarrow> int \<Rightarrow> block" where
  "resolve_block rows now =
     (let s = fold (scan_row now) rows scan_start in
      if (case (ms_ban s, ms_unban s) of (Some b, Some u) \<Rightarrow> b > u | (Some _, None) \<Rightarrow> True | _ \<Rightarrow> False)
      then Banned
      else if (case (ms_mute s, ms_unmute s) of (Some m, Some u) \<Rightarrow> u \<ge> m | _ \<Rightarrow> False) then NoBlock
      else if ms_perm s then Banned
      else case ms_until s of Some t \<Rightarrow> MutedUntil t | None \<Rightarrow> NoBlock)"

text \<open>
  \<open>load_state\<close>: the newest forty actions on the key. A fault of the query is \<^const>\<open>Unknown\<close>;
  \<open>decodes\<close> says whether its rows deserialise, and rows that do not count as none.
\<close>

definition actions_on :: "string \<Rightarrow> mod_row list \<Rightarrow> mod_row list" where
  "actions_on pk rows =
     take 40 (sort_key (\<lambda>r. - mr_created_at r)
       (filter (\<lambda>r. mr_target r = pk \<and> mr_action r \<in> {''ban'', ''mute'', ''unban'', ''unmute''}) rows))"

definition load_state :: "net \<Rightarrow> bool \<Rightarrow> string \<Rightarrow> int \<Rightarrow> mod_row list \<Rightarrow> block" where
  "load_state n decodes pk now rows =
     (if n \<noteq> Delivered then Unknown
      else resolve_block (if decodes then actions_on pk rows else []) now)"

section \<open>The memo\<close>

definition CACHE_TTL_SECS :: nat where "CACHE_TTL_SECS = 60"

type_synonym mod_cache = "block ttl_cache"

definition get_state :: "net \<Rightarrow> bool \<Rightarrow> string \<Rightarrow> nat \<Rightarrow> mod_row list \<Rightarrow> mod_cache \<Rightarrow> block \<times> mod_cache" where
  "get_state n decodes pk now rows c =
     (case cache_get CACHE_TTL_SECS pk now c of
        Some s \<Rightarrow> (s, c)
      | None \<Rightarrow>
          (let fresh = load_state n decodes pk (int now) rows in
           (fresh, if fresh \<noteq> Unknown then cache_insert pk fresh now c else c)))"

definition is_blocked :: "net \<Rightarrow> bool \<Rightarrow> string \<Rightarrow> nat \<Rightarrow> mod_row list \<Rightarrow> mod_cache \<Rightarrow> bool \<times> mod_cache" where
  "is_blocked n decodes pk now rows c =
     (case get_state n decodes pk now rows c of
        (s, c) \<Rightarrow> (case s of Banned \<Rightarrow> True | MutedUntil t \<Rightarrow> t > int now | Unknown \<Rightarrow> True | NoBlock \<Rightarrow> False, c))"

section \<open>Mirroring moderation events\<close>

definition KIND_BAN :: nat where "KIND_BAN = 30910"
definition KIND_MUTE :: nat where "KIND_MUTE = 30911"
definition KIND_UNBAN :: nat where "KIND_UNBAN = 30915"
definition KIND_UNMUTE :: nat where "KIND_UNMUTE = 30916"
definition KIND_REPORT_NIP56 :: nat where "KIND_REPORT_NIP56 = 1984"

definition mirrored_action :: "nat \<Rightarrow> string option" where
  "mirrored_action k =
     (if k = KIND_BAN then Some ''ban'' else if k = KIND_MUTE then Some ''mute''
      else if k = KIND_UNBAN then Some ''unban'' else if k = KIND_UNMUTE then Some ''unmute'' else None)"

definition mirror_row :: "nostr_event \<Rightarrow> mod_row option" where
  "mirror_row e =
     (case mirrored_action (ev_kind e) of
        None \<Rightarrow> None
      | Some action \<Rightarrow>
          map_option (\<lambda>target.
            \<lparr>mr_id = ''mirror:'' @ ev_id e, mr_action = action, mr_target = target,
             mr_performed_by = ev_pubkey e,
             mr_reason = (if ev_content e = [] then None else Some (ev_content e)),
             mr_expires_at =
               (if action = ''mute'' then Option.bind (tag_value (ev_tags e) ''expiration'') parse_i64 else None),
             mr_event_id = ev_id e, mr_created_at = int (ev_created_at e)\<rparr>)
            (tag_value (ev_tags e) ''p''))"

definition mirror_moderation_action :: "net \<Rightarrow> nostr_event \<Rightarrow> mod_row list \<Rightarrow> mod_row list" where
  "mirror_moderation_action n e rows =
     (case mirror_row e of
        None \<Rightarrow> rows
      | Some r \<Rightarrow> if n = RequestLost \<or> mr_id r \<in> mr_id ` set rows then rows else rows @ [r])"

section \<open>Reports\<close>

record report_row =
  rp_report_event_id :: string
  rp_reporter :: string
  rp_reported_event_id :: string
  rp_reported_pubkey :: string
  rp_reason :: string
  rp_reason_text :: "string option"
  rp_status :: string
  rp_created_at :: nat

record report_db =
  rb_reports :: "report_row list"
  rb_hidden :: "string list"
  rb_audit :: "(string \<times> string) list"

text \<open>
  \<open>insert_report\<close>: the row, the count of pending reports, and from three on the hidden mark and the
  audit entry. \<open>n\<close> is what the network does to the four calls; a fault of either of the first two
  ends it with an error.
\<close>

definition insert_report :: "net \<times> net \<times> net \<times> net \<Rightarrow> report_row \<Rightarrow> report_db \<Rightarrow> report_db \<times> bool option" where
  "insert_report n r db =
     (case n of (n1, n2, n3, n4) \<Rightarrow>
        let db1 = (if n1 = RequestLost \<or> rp_report_event_id r \<in> rp_report_event_id ` set (rb_reports db) then db
                   else db\<lparr>rb_reports := rb_reports db @ [r]\<rparr>)
        in if n1 \<noteq> Delivered \<or> n2 \<noteq> Delivered then (db1, None)
           else if length (filter (\<lambda>x. rp_reported_event_id x = rp_reported_event_id r \<and> rp_status x = ''pending'')
                     (rb_reports db1)) \<ge> 3
           then (let i = rp_reported_event_id r;
                     db2 = (if n3 = RequestLost \<or> i \<in> set (rb_hidden db1) then db1
                            else db1\<lparr>rb_hidden := rb_hidden db1 @ [i]\<rparr>);
                     db3 = (if n4 = RequestLost then db2
                            else db2\<lparr>rb_audit := rb_audit db2 @ [(rp_reported_pubkey r, i)]\<rparr>)
                 in (db3, Some True))
           else (db1, Some False))"

definition structured_reasons :: "string list" where
  "structured_reasons = [''nudity'', ''profanity'', ''illegal'', ''spam'', ''impersonation'']"

definition process_report ::
  "net \<times> net \<times> net \<times> net \<Rightarrow> nat \<Rightarrow> nostr_event \<Rightarrow> report_db \<Rightarrow> report_db"
where
  "process_report n now e db =
     (case (tag_value (ev_tags e) ''e'', tag_value (ev_tags e) ''p'') of
        (Some event_id, Some pk) \<Rightarrow>
          (let reason = (case tag_value (ev_tags e) ''report'' of
               Some r \<Rightarrow> r
             | None \<Rightarrow> if ev_content e = [] then ''other'' else ev_content e);
               (code, text) =
                 (if reason \<in> set structured_reasons
                  then (reason, if ev_content e = [] then None else Some (ev_content e))
                  else (''other'', Some reason))
           in fst (insert_report n
                \<lparr>rp_report_event_id = ev_id e, rp_reporter = ev_pubkey e, rp_reported_event_id = event_id,
                 rp_reported_pubkey = pk, rp_reason = code, rp_reason_text = text,
                 rp_status = ''pending'', rp_created_at = now\<rparr> db))
      | _ \<Rightarrow> db)"

section \<open>What the action log says\<close>

text \<open>The rows of one action.\<close>

definition acts :: "string \<Rightarrow> mod_row list \<Rightarrow> mod_row set" where
  "acts a rows = {r \<in> set rows. mr_action r = a}"


definition mute_lifted :: "mod_row list \<Rightarrow> bool" where
  "mute_lifted rows \<longleftrightarrow>
     acts ''mute'' rows \<noteq> {} \<and>
     (\<exists>u \<in> acts ''unmute'' rows. \<forall>m \<in> acts ''mute'' rows. mr_created_at m \<le> mr_created_at u)"

definition running_mutes :: "mod_row list \<Rightarrow> int \<Rightarrow> int set" where
  "running_mutes rows now = {t. now < t \<and> (\<exists>m \<in> acts ''mute'' rows. mr_expires_at m = Some t)}"

text \<open>The newest of a set of times.\<close>

definition latest_of :: "int set \<Rightarrow> int option" where
  "latest_of T = (if T = {} then None else Some (Max T))"


definition act_times :: "string \<Rightarrow> mod_row list \<Rightarrow> int set" where
  "act_times a rows = mr_created_at ` acts a rows"

lemma finite_acts [simp]: "finite (acts a rows)"
  by (simp add: acts_def)

lemma finite_times [simp]: "finite (act_times a rows)"
  by (simp add: act_times_def)



lemma finite_running [simp]: "finite (running_mutes rows now)"
proof -
  have "running_mutes rows now \<subseteq> (\<lambda>m. the (mr_expires_at m)) ` acts ''mute'' rows"
    by (force simp: running_mutes_def)
  then show ?thesis by (rule finite_subset) simp
qed



lemma latest_of_Some: "finite T \<Longrightarrow> latest_of T = Some t \<longleftrightarrow> t \<in> T \<and> (\<forall>x \<in> T. x \<le> t)"
  by (auto simp: latest_of_def intro: Max_eqI dest: Max_in)

section \<open>Properties\<close>


text \<open>A mute without expiry that was lifted bans again once a temporary mute follows.\<close>

lemma lifted_mute_returns:
  "t1 < t2 \<Longrightarrow> t2 < t3 \<Longrightarrow> set rows = {p, u, m} \<Longrightarrow>
   mr_action p = ''mute'' \<Longrightarrow> mr_expires_at p = None \<Longrightarrow> mr_created_at p = t1 \<Longrightarrow>
   mr_action u = ''unmute'' \<Longrightarrow> mr_created_at u = t2 \<Longrightarrow>
   mr_action m = ''mute'' \<Longrightarrow> mr_created_at m = t3 \<Longrightarrow> \<not> mute_lifted rows \<and> (\<exists>r \<in> acts ''mute'' rows. mr_expires_at r = None)"
  by (auto simp: mute_lifted_def acts_def)

text \<open>A fault blocks the key and is not remembered.\<close>

lemma is_blocked_fails_closed:
  "n \<noteq> Delivered \<Longrightarrow> cache_get CACHE_TTL_SECS pk now c = None \<Longrightarrow> is_blocked n decodes pk now rows c = (True, c)"
  by (simp add: is_blocked_def get_state_def load_state_def Let_def)

end
