(* ===== verification/Event_Gate.thy ===== *)
theory Event_Gate
  imports Application Moderation
begin

text \<open>
  The write path of the relay (\<open>relay_do/nip_handlers.rs\<close>, \<open>handle_event\<close>): the gates an event
  passes in the order the code has them, and everything an accepted event sets in motion, over
  the state the other theories model: stored events, moderation log and memo, members and their
  counters, reports, and the governed cases.

  The record \<open>gate_env\<close> extends the viewer's environment of theory Access by what the other
  lookups answer while this event is handled, and by what the network does to its writes.
\<close>

section \<open>Environment and state\<close>

record 'f gate_env = read_env +
  ge_host :: host
  ge_base64 :: "string \<Rightarrow> nat list option"
  ge_parse_f64 :: "string \<Rightarrow> 'f option"
  ge_kind_eq :: "nat \<Rightarrow> 'f \<Rightarrow> bool"
  ge_verified :: "nostr_event \<Rightarrow> bool"
  ge_limit :: nat
  ge_now :: nat
  ge_now_ms :: nat
  ge_expiry :: "string \<Rightarrow> nat option d1_reply"
  ge_ingress :: "string list"
  ge_mesh_mode :: "string option"
  ge_mesh_dids :: "string option"
  ge_mesh_kinds :: "string option"
  ge_suspension :: "string \<Rightarrow> (nat option \<times> int) d1_reply"
  ge_trust :: "string \<Rightarrow> int d1_reply"
  ge_agent :: "string \<Rightarrow> nat d1_reply"
  ge_reviewer :: "string \<Rightarrow> bool"
  ge_roles :: "string \<Rightarrow> string list"
  ge_mod_net :: "string \<Rightarrow> net \<times> bool"
  ge_creator_reach :: "bool \<times> bool"
  ge_target_reach :: "string \<Rightarrow> bool"
  ge_panel :: "nostr_event \<Rightarrow> tag list option \<times> risk_tier \<times> string"
  ge_thresholds :: thresholds
  ge_push_enabled :: bool
  ge_push_reach :: bool
  ge_save_net :: "net \<times> net"
  ge_posts_net :: net
  ge_flush_net :: "net \<times> (net \<times> net) \<times> (net \<times> net \<times> net)"
  ge_delete_net :: "string \<Rightarrow> net"
  ge_report_net :: "net \<times> net \<times> net \<times> net"
  ge_mirror_net :: net

record relay_state =
  rs_rates :: rate_limits
  rs_db :: relay_db
  rs_mod_rows :: "mod_row list"
  rs_mod_cache :: mod_cache
  rs_members :: whitelist_db
  rs_activity :: activity_ledger
  rs_reports :: report_db
  rs_gov :: gov_db

section \<open>The shape of an event\<close>

definition MAX_CONTENT_SIZE :: nat where "MAX_CONTENT_SIZE = 64 * 1024"
definition MAX_REGISTRATION_CONTENT_SIZE :: nat where "MAX_REGISTRATION_CONTENT_SIZE = 8 * 1024"
definition MAX_TAG_COUNT :: nat where "MAX_TAG_COUNT = 2000"
definition MAX_TAG_VALUE_SIZE :: nat where "MAX_TAG_VALUE_SIZE = 1024"
definition MAX_TIMESTAMP_DRIFT :: nat where "MAX_TIMESTAMP_DRIFT = 60 * 60 * 24 * 7"

record sealed_ref =
  sl_inner_id :: string
  sl_version :: nat

definition sealed_of_tag :: "tag \<Rightarrow> sealed_ref option" where
  "sealed_of_tag t =
     (if length t < 3 \<or> t ! 0 \<noteq> ''sealed'' \<or> \<not> is_hex64 (t ! 1) then None
      else map_option (\<lambda>v. \<lparr>sl_inner_id = ascii_lower (t ! 1), sl_version = v\<rparr>) (parse_u32 (t ! 2)))"

definition parse_sealed :: "tag list \<Rightarrow> sealed_ref option" where
  "parse_sealed tags = Option.bind (List.find (\<lambda>t. sealed_of_tag t \<noteq> None) tags) sealed_of_tag"

definition has_sealed_tag :: "tag list \<Rightarrow> bool" where
  "has_sealed_tag tags \<longleftrightarrow> list_ex (\<lambda>t. tag_first t = Some ''sealed'') tags"

definition sealed_drift_exempt :: "nostr_event \<Rightarrow> bool" where
  "sealed_drift_exempt e \<longleftrightarrow> ev_kind e = 42 \<and> parse_sealed (ev_tags e) \<noteq> None"

definition timestamp_drift_ok :: "nostr_event \<Rightarrow> nat \<Rightarrow> bool" where
  "timestamp_drift_ok e now =
     (if ev_created_at e \<le> now \<and> sealed_drift_exempt e then True
      else abs_diff now (ev_created_at e) \<le> MAX_TIMESTAMP_DRIFT)"

definition validate_event :: "nostr_event \<Rightarrow> nat \<Rightarrow> bool" where
  "validate_event e now =
     (if length (ev_id e) \<noteq> 64 \<or> length (ev_pubkey e) \<noteq> 64 \<or> length (ev_sig e) \<noteq> 128 then False
      else
        (let max_content = (if ev_kind e = 0 \<or> ev_kind e = 9024 then MAX_REGISTRATION_CONTENT_SIZE
                            else MAX_CONTENT_SIZE)
         in if length (ev_content e) > max_content then False
            else if length (ev_tags e) > MAX_TAG_COUNT then False
            else if list_ex (list_ex (\<lambda>v. length v > MAX_TAG_VALUE_SIZE)) (ev_tags e) then False
            else timestamp_drift_ok e now))"

definition sealed_write_rejection :: "bool \<Rightarrow> bool \<Rightarrow> bool option \<Rightarrow> string option" where
  "sealed_write_rejection sealed is_admin zone_encrypted =
     (if \<not> sealed then None
      else if \<not> is_admin then Some ''blocked: sealed originals are admin-only''
      else if zone_encrypted \<noteq> Some True then Some ''blocked: sealed originals belong to encrypted zones''
      else None)"

text \<open>The first refusal of two gates.\<close>

definition or_else :: "string option \<Rightarrow> string option \<Rightarrow> string option" where
  "or_else a b = (case a of Some r \<Rightarrow> Some r | None \<Rightarrow> b)"

definition refuse_if :: "bool \<Rightarrow> string \<Rightarrow> string option" where
  "refuse_if c reason = (if c then Some reason else None)"

lemma or_else_None [simp]: "or_else a b = None \<longleftrightarrow> a = None \<and> b = None"
  by (simp add: or_else_def split: option.split)

lemma refuse_if_None [simp]: "refuse_if c r = None \<longleftrightarrow> \<not> c"
  by (simp add: refuse_if_def)

definition structure_gate :: "('f, 'x) gate_env_scheme \<Rightarrow> bool \<Rightarrow> nostr_event \<Rightarrow> string option" where
  "structure_gate env session_authed e =
     or_else (refuse_if (\<not> validate_event e (ge_now env)) ''invalid: event validation failed'')
     (or_else (case expiration_admission e (ge_now env) of
         Inl ExpirationMalformed \<Rightarrow> Some ''invalid: expiration must be unix seconds (NIP-40)''
       | Inl ExpirationPast \<Rightarrow> Some ''invalid: event expired''
       | Inr _ \<Rightarrow> None)
     (or_else (refuse_if (\<not> ge_verified env e) ''invalid: event id or signature verification failed'')
       (refuse_if (\<not> write_auth_ok (re_mode env) session_authed)
         ''auth-required: NIP-42 AUTH required to publish'')))"

section \<open>The gates that read the network's answers\<close>

text \<open>\<open>is_whitelisted\<close>: a row whose expiry is absent or later than now.\<close>

definition is_whitelisted :: "('f, 'x) gate_env_scheme \<Rightarrow> string \<Rightarrow> bool" where
  "is_whitelisted env pubkey =
     (case ge_expiry env pubkey of
        Row None \<Rightarrow> True | Row (Some t) \<Rightarrow> t > ge_now env | _ \<Rightarrow> False)"

definition is_ingress_recipient :: "string list \<Rightarrow> string \<Rightarrow> bool" where
  "is_ingress_recipient entries pubkey = list_ex (\<lambda>e. eq_ignore_ascii_case e pubkey) entries"

definition principal_of :: "('f, 'x) gate_env_scheme \<Rightarrow> nostr_event \<Rightarrow> string" where
  "principal_of env e =
     (if needs_owner_lookup (ev_kind e) then effective_pubkey (read_env.truncate env) (ev_pubkey e)
      else ev_pubkey e)"

definition subjects_of :: "('f, 'x) gate_env_scheme \<Rightarrow> nostr_event \<Rightarrow> string list" where
  "subjects_of env e = sanction_subjects (ev_pubkey e) (principal_of env e)"

definition membership_gate :: "('f, 'x) gate_env_scheme \<Rightarrow> bool \<Rightarrow> nostr_event \<Rightarrow> string option" where
  "membership_gate env session_authed e =
     (if ev_kind e = GIFT_WRAP_KIND then
        refuse_if (\<not> (case gift_wrap_recipient e of
                        Some pk \<Rightarrow> is_ingress_recipient (ge_ingress env) pk \<or> is_whitelisted env pk
                      | None \<Rightarrow> False))
          ''blocked: gift-wrap recipient not whitelisted''
      else refuse_if (\<not> is_whitelisted env (principal_of env e))
             (allowlist_denial_reason (re_mode env) session_authed))"

text \<open>\<open>str::split(',')\<close>: one piece more than there are commas.\<close>

fun split_on :: "char \<Rightarrow> string \<Rightarrow> string list" where
  "split_on c [] = [[]]"
| "split_on c (x # xs) =
     (if x = c then [] # split_on c xs
      else (case split_on c xs of [] \<Rightarrow> [[x]] | p # ps \<Rightarrow> (x # p) # ps))"

definition is_mesh_peer :: "string option \<Rightarrow> string option \<Rightarrow> string \<Rightarrow> bool" where
  "is_mesh_peer mode dids pubkey =
     (case mode of
        None \<Rightarrow> False
      | Some m \<Rightarrow>
          (if m = [] \<or> m = ''standalone'' then False
           else case dids of
                  None \<Rightarrow> False
                | Some ds \<Rightarrow> if ds = [] then False
                            else list_ex (\<lambda>did. trim did = pubkey) (split_on (CHR '','') ds)))"

definition is_federated_kind_allowed :: "string option \<Rightarrow> nat \<Rightarrow> bool" where
  "is_federated_kind_allowed kinds kind =
     (case kinds of
        None \<Rightarrow> False
      | Some ks \<Rightarrow>
          if ks = [] then False
          else kind \<in> set (List.map_filter (\<lambda>s. parse_u64 (trim s)) (split_on (CHR '','') ks)))"

definition mesh_gate :: "('f, 'x) gate_env_scheme \<Rightarrow> nostr_event \<Rightarrow> string option" where
  "mesh_gate env e =
     refuse_if (is_mesh_peer (ge_mesh_mode env) (ge_mesh_dids env) (ev_pubkey e) \<and>
                \<not> is_federated_kind_allowed (ge_mesh_kinds env) (ev_kind e))
       ''blocked: event kind not in federated_kinds allowlist''"

text \<open>\<open>check_suspension\<close> of \<open>trust.rs\<close>: (suspended, silenced); a lookup without an answer gives neither.\<close>

definition check_suspension :: "('f, 'x) gate_env_scheme \<Rightarrow> string \<Rightarrow> bool \<times> bool" where
  "check_suspension env pubkey =
     (case ge_suspension env pubkey of
        Row (suspended_until, silenced) \<Rightarrow>
          ((case suspended_until of Some t \<Rightarrow> t > ge_now env | None \<Rightarrow> False), silenced \<noteq> 0)
      | _ \<Rightarrow> (False, False))"

fun suspension_gate :: "('f, 'x) gate_env_scheme \<Rightarrow> string list \<Rightarrow> string option" where
  "suspension_gate env [] = None"
| "suspension_gate env (s # ss) =
     (case check_suspension env s of
        (suspended, silenced) \<Rightarrow>
          if suspended then Some ''blocked: account suspended''
          else if silenced then Some ''blocked: account silenced (read-only)''
          else suspension_gate env ss)"

definition is_ban_gated_kind :: "nat \<Rightarrow> bool" where
  "is_ban_gated_kind kind \<longleftrightarrow>
     kind \<in> {1, 5, 7, 40, 41, 42, 30023} \<or> kind = KIND_REPORT_NIP56 \<or> kind = 31922 \<or> kind = 31923 \<or>
     kind = 31925 \<or> is_kanban_kind kind \<or> kind = 38000"

text \<open>The ban check asks the subjects in turn and stops at the first that is blocked.\<close>

fun ban_gate ::
  "('f, 'x) gate_env_scheme \<Rightarrow> mod_row list \<Rightarrow> string list \<Rightarrow> mod_cache \<Rightarrow> string option \<times> mod_cache"
where
  "ban_gate env rows [] c = (None, c)"
| "ban_gate env rows (s # ss) c =
     (case is_blocked (fst (ge_mod_net env s)) (snd (ge_mod_net env s)) s (ge_now env) rows c of
        (blocked, c) \<Rightarrow>
          if blocked then (Some ''blocked: author is banned or muted'', c) else ban_gate env rows ss c)"

text \<open>\<open>get_trust_level\<close> of \<open>trust.rs\<close>\<close>

definition get_trust_level :: "('f, 'x) gate_env_scheme \<Rightarrow> string \<Rightarrow> trust_level" where
  "get_trust_level env pubkey =
     (case ge_trust env pubkey of Row v \<Rightarrow> trust_from_i32 v | _ \<Rightarrow> Newcomer)"

definition deletion_targets_others :: "(string \<Rightarrow> bool) \<Rightarrow> relay_db \<Rightarrow> nostr_event \<Rightarrow> bool" where
  "deletion_targets_others reach db e =
     list_ex (\<lambda>i. reach i \<and>
        (case List.find (\<lambda>r. er_id r = i) (rd_events db) of
           Some r \<Rightarrow> er_pubkey r \<noteq> ev_pubkey e | None \<Rightarrow> False))
       (tag_targets ''e'' (ev_tags e))"

definition trust_gate :: "('f, 'x) gate_env_scheme \<Rightarrow> relay_db \<Rightarrow> nostr_event \<Rightarrow> string option" where
  "trust_gate env db e =
     (let level = get_trust_level env (principal_of env e); kind = ev_kind e in
      if re_admin env (ev_pubkey e) then None
      else if kind = 40 \<and> level < Regular_TL then Some ''restricted: TL2+ required for channel creation''
      else if kind = 41 then
        (case channel_tag (ev_tags e) of
           None \<Rightarrow> Some ''invalid: missing channel tag''
         | Some channel_id \<Rightarrow>
             or_else (refuse_if (level < Regular_TL) ''restricted: TL2+ required for channel metadata'')
               (refuse_if (level < Trusted \<and>
                   \<not> is_channel_creator (ge_creator_reach env) (subjects_of env e) channel_id db)
                 (''restricted: TL3+ required to modify others'' @ CHR 39 # '' channels'')))
      else if kind = KIND_REPORT_NIP56 \<and> level < Member then
        Some ''restricted: TL1+ required to report content''
      else if kind = 5 then
        refuse_if (deletion_targets_others (ge_target_reach env) db e \<and> level < Trusted)
          (''restricted: TL3+ required to delete others'' @ CHR 39 # '' events'')
      else None)"

definition group_gate :: "('f, 'x) gate_env_scheme \<Rightarrow> nostr_event \<Rightarrow> string option" where
  "group_gate env e =
     (if is_nip29_admin_kind (ev_kind e) then
        or_else (refuse_if (tag_value (ev_tags e) ''h'' = None) ''invalid: missing group tag'')
          (refuse_if (\<not> re_admin env (ev_pubkey e)) ''blocked: admin-only group action'')
      else None)"

section \<open>The governance gates\<close>

definition is_kanban_approval_request :: "nostr_event \<Rightarrow> bool" where
  "is_kanban_approval_request e \<longleftrightarrow>
     ev_kind e = 31402 \<and> list_ex (\<lambda>t. 2 \<le> length t \<and> t ! 0 = ''k'' \<and> t ! 1 = ''30302'') (ev_tags e)"

definition is_registered_agent :: "('f, 'x) gate_env_scheme \<Rightarrow> string \<Rightarrow> bool" where
  "is_registered_agent env pubkey = (case ge_agent env pubkey of Row active \<Rightarrow> active = 1 | _ \<Rightarrow> False)"

definition agent_gate :: "('f, 'x) gate_env_scheme \<Rightarrow> nostr_event \<Rightarrow> string option" where
  "agent_gate env e =
     refuse_if (is_governance_kind (ev_kind e) \<and> ev_kind e \<noteq> 31403 \<and>
                \<not> is_kanban_approval_request e \<and> \<not> is_registered_agent env (ev_pubkey e))
       ''blocked: pubkey not in agent registry''"

fun admission_reason :: "response_admission \<Rightarrow> string" where
  "admission_reason Admit = []"
| "admission_reason BlockedNotAuthorised = ''blocked: admin-only governance action response''"
| "admission_reason BlockedNotDelegated = ''blocked: case not delegated to this reviewer''"

fun ingest_reason :: "supersession_refusal \<Rightarrow> string" where
  "ingest_reason TargetMissing = ''blocked: supersession_target_missing''"
| "ingest_reason CaseMismatch = ''blocked: supersession_case_mismatch''"
| "ingest_reason TargetAlreadySuperseded = ''blocked: supersession_target_already_superseded''"
| "ingest_reason RUnauthorised = ''blocked: supersession_unauthorised''"

definition is_delegated_for_case :: "string \<Rightarrow> string \<Rightarrow> gov_db \<Rightarrow> gov_db \<times> bool" where
  "is_delegated_for_case case_id pubkey db =
     (case read_ok db of
        (ok, db1) \<Rightarrow> (db1, ok \<and> list_ex (\<lambda>d. dg_case_id d = case_id \<and>
           ascii_lower (dg_delegate d) = ascii_lower pubkey) (db_delegations db1)))"

definition case_effective_tier :: "string \<Rightarrow> gov_db \<Rightarrow> gov_db \<times> risk_tier option" where
  "case_effective_tier case_id db =
     (case read_ok db of
        (ok, db1) \<Rightarrow> (db1,
          if ok then Option.bind (List.find (\<lambda>c. ca_id c = case_id) (db_cases db1))
                       (\<lambda>c. map_option tier_parse (ca_effective_tier c))
          else None))"

text \<open>Who may publish a response, and the rationale it owes.\<close>

definition response_gate :: "('f, 'x) gate_env_scheme \<Rightarrow> nostr_event \<Rightarrow> gov_db \<Rightarrow> string option \<times> gov_db" where
  "response_gate env e db =
     (if ev_kind e \<noteq> 31403 then (None, db)
      else
        (let case_id = opt_default [] (extract_d_tag (ev_tags e));
             is_admin = re_admin env (ev_pubkey e);
             (db, delegated) = (if is_admin \<or> case_id = [] then (db, False)
                                else is_delegated_for_case case_id (ev_pubkey e) db);
             is_reviewer = (if is_admin \<or> case_id = [] then False else ge_reviewer env (ev_pubkey e));
             admission = response_admission_of is_admin is_reviewer delegated
         in if admission \<noteq> Admit then (Some (admission_reason admission), db)
            else if case_id = [] then (None, db)
            else (case case_effective_tier case_id db of
                    (db, None) \<Rightarrow> (None, db)
                  | (db, Some effective) \<Rightarrow>
                      (case response_action_and_reasoning (ge_host env) (ev_content e) of
                         (None, _) \<Rightarrow> (None, db)
                       | (Some action, reasoning) \<Rightarrow>
                           (case check_rationale effective action reasoning of
                              Inl _ \<Rightarrow> (Some ''rationale_required'', db)
                            | Inr _ \<Rightarrow> (None, db))))))"

definition governance_rank_of :: "('f, 'x) gate_env_scheme \<Rightarrow> string \<Rightarrow> nat" where
  "governance_rank_of env pubkey = governance_rank (re_admin env pubkey) (ge_roles env pubkey)"

definition supersession_gate ::
  "('f, 'x) gate_env_scheme \<Rightarrow> nostr_event \<Rightarrow> gov_db \<Rightarrow> (string option \<times> gov_db) outcome"
where
  "supersession_gate env e db =
     (case (if ev_kind e = 31403 then extract_supersedes_target (ev_tags e) else None) of
        None \<Rightarrow> Returns (None, db)
      | Some target \<Rightarrow>
          (case supersession_authorised (governance_rank_of env) (ev_pubkey e) (ev_id e)
                  (opt_default [] (extract_d_tag (ev_tags e))) target db of
             Panics \<Rightarrow> Panics
           | Returns (db, Inl refusal) \<Rightarrow> Returns (Some (ingest_reason refusal), db)
           | Returns (db, Inr _) \<Rightarrow> Returns (None, db)))"

definition appeal_gate :: "nostr_event \<Rightarrow> string option" where
  "appeal_gate e =
     refuse_if (ev_kind e = 31402 \<and> extract_appeal_target (ev_tags e) \<noteq> None \<and> appeal_shape_refused e)
       ''blocked: appeal_shape''"

section \<open>The zone gates\<close>

definition zone_gate :: "('f, 'x) gate_env_scheme \<Rightarrow> nostr_event \<Rightarrow> string option" where
  "zone_gate env e =
     (if ev_kind e \<noteq> 42 then None
      else case channel_tag (ev_tags e) of
        None \<Rightarrow> Some ''invalid: missing channel tag''
      | Some channel_id \<Rightarrow>
          (let zone = get_channel_zone (read_env.truncate env) channel_id;
               is_admin = re_admin env (ev_pubkey e)
           in or_else (sealed_write_rejection (has_sealed_tag (ev_tags e)) is_admin
                         (map_option (is_encrypted (re_zones env)) zone))
                (case zone of
                   None \<Rightarrow> None
                 | Some z \<Rightarrow>
                     or_else (refuse_if (\<not> is_admin \<and>
                         \<not> has_zone_write_access (read_env.truncate env) (principal_of env e) z)
                       ''zone access denied'')
                       (refuse_if (is_encrypted (re_zones env) z \<and>
                           \<not> is_zone_ciphertext (ge_base64 env) z (ev_tags e) (ev_content e))
                         ''blocked: encrypted zone requires zone-key ciphertext''))))"

definition rsvp_write_permitted :: "projection \<Rightarrow> bool" where
  "rsvp_write_permitted tier \<longleftrightarrow> tier = Full"

definition calendar_write_permitted :: "string option \<Rightarrow> bool \<Rightarrow> bool" where
  "calendar_write_permitted zone has_write = (case zone of Some _ \<Rightarrow> has_write | None \<Rightarrow> True)"

definition calendar_gate :: "('f, 'x) gate_env_scheme \<Rightarrow> nostr_event \<Rightarrow> string option" where
  "calendar_gate env e =
     (if re_admin env (ev_pubkey e) then None
      else if ev_kind e = 31925 then
        refuse_if (\<not> (case resolve_rsvp_target (read_env.truncate env) e of
             Some (zone, venue) \<Rightarrow>
               (case whitelist_cohorts (read_env.truncate env) (principal_of env e) of
                  (cohorts, cohort_admin) \<Rightarrow>
                    rsvp_write_permitted (project_tier cohorts zone venue False cohort_admin))
           | None \<Rightarrow> False))
          ''blocked: rsvp not permitted''
      else if ev_kind e = 31922 \<or> ev_kind e = 31923 \<or> is_kanban_kind (ev_kind e) then
        (let zone = read_zone_tag e;
             has_write = (case zone of
                 Some z \<Rightarrow> has_zone_write_access (read_env.truncate env) (principal_of env e) z
               | None \<Rightarrow> False)
         in refuse_if (\<not> calendar_write_permitted zone has_write) ''blocked: zone access denied'')
      else None)"

section \<open>Admission\<close>

text \<open>
  The gates in the code's order. A gate refuses with a reason or passes; the ban gate moves the
  memo of moderation states, the governance gates use up network calls, and the lookup of a
  superseded decision can panic.
\<close>

type_synonym gate = "relay_state \<Rightarrow> (string option \<times> relay_state) outcome"

definition pure_gate :: "string option \<Rightarrow> gate" where
  "pure_gate r s = Returns (r, s)"

fun run_gates :: "gate list \<Rightarrow> gate" where
  "run_gates [] s = Returns (None, s)"
| "run_gates (g # gs) s =
     (case g s of
        Panics \<Rightarrow> Panics
      | Returns (Some r, s) \<Rightarrow> Returns (Some r, s)
      | Returns (None, s) \<Rightarrow> run_gates gs s)"

definition ban_step :: "('f, 'x) gate_env_scheme \<Rightarrow> nostr_event \<Rightarrow> gate" where
  "ban_step env e s =
     (if is_ban_gated_kind (ev_kind e) \<and> \<not> re_admin env (ev_pubkey e) then
        (case ban_gate env (rs_mod_rows s) (subjects_of env e) (rs_mod_cache s) of
           (r, c) \<Rightarrow> Returns (r, s\<lparr>rs_mod_cache := c\<rparr>))
      else Returns (None, s))"

definition response_step_gate :: "('f, 'x) gate_env_scheme \<Rightarrow> nostr_event \<Rightarrow> gate" where
  "response_step_gate env e s =
     (case response_gate env e (rs_gov s) of (r, db) \<Rightarrow> Returns (r, s\<lparr>rs_gov := db\<rparr>))"

definition supersession_step_gate :: "('f, 'x) gate_env_scheme \<Rightarrow> nostr_event \<Rightarrow> gate" where
  "supersession_step_gate env e s =
     (case supersession_gate env e (rs_gov s) of
        Panics \<Rightarrow> Panics | Returns (r, db) \<Rightarrow> Returns (r, s\<lparr>rs_gov := db\<rparr>))"

definition admission :: "('f, 'x) gate_env_scheme \<Rightarrow> bool \<Rightarrow> nostr_event \<Rightarrow> gate" where
  "admission env session_authed e =
     run_gates
       [pure_gate (structure_gate env session_authed e),
        pure_gate (membership_gate env session_authed e),
        pure_gate (mesh_gate env e),
        pure_gate (suspension_gate env (subjects_of env e)),
        ban_step env e,
        (\<lambda>s. pure_gate (trust_gate env (rs_db s) e) s),
        pure_gate (group_gate env e),
        pure_gate (agent_gate env e),
        response_step_gate env e,
        supersession_step_gate env e,
        pure_gate (appeal_gate e),
        pure_gate (zone_gate env e),
        pure_gate (calendar_gate env e)]"

section \<open>What an accepted event sets in motion\<close>

datatype relay_effect =
    SendNotice string
  | SendOk string bool string
  | BroadcastEvent nostr_event
  | PushFanout nostr_event "string option"

definition push_event_known :: "('f, 'x) gate_env_scheme \<Rightarrow> relay_db \<Rightarrow> nostr_event \<Rightarrow> bool" where
  "push_event_known env db e \<longleftrightarrow>
     ge_push_enabled env \<and> ev_kind e \<in> {40, 42, 1059} \<and> ge_push_reach env \<and>
     list_ex (\<lambda>r. er_id r = ev_id e) (rd_events db)"

text \<open>\<open>note_write_activity\<close>\<close>

definition note_write_activity :: "('f, 'x) gate_env_scheme \<Rightarrow> string \<Rightarrow> relay_state \<Rightarrow> relay_state" where
  "note_write_activity env pubkey s =
     (case record_write pubkey (ge_now env) (rs_activity s) of
        (None, l) \<Rightarrow> s\<lparr>rs_activity := l\<rparr>
      | (Some reads, l) \<Rightarrow>
          s\<lparr>rs_activity := l,
            rs_members := flush_activity (ge_flush_net env) (ge_thresholds env) (ge_now env) pubkey reads
                            (rs_members s)\<rparr>)"

definition count_post :: "('f, 'x) gate_env_scheme \<Rightarrow> nostr_event \<Rightarrow> relay_state \<Rightarrow> relay_state" where
  "count_post env e s =
     (if ev_kind e \<in> {1, 7, 40, 42, KIND_REPORT_NIP56}
      then s\<lparr>rs_members := increment_posts_created (ge_posts_net env) (principal_of env e) (rs_members s)\<rparr>
      else s)"

definition can_delete_any :: "('f, 'x) gate_env_scheme \<Rightarrow> nostr_event \<Rightarrow> bool" where
  "can_delete_any env e \<longleftrightarrow>
     re_admin env (ev_pubkey e) \<or> Trusted \<le> get_trust_level env (principal_of env e)"

definition delete_targets :: "('f, 'x) gate_env_scheme \<Rightarrow> nostr_event \<Rightarrow> relay_state \<Rightarrow> relay_state" where
  "delete_targets env e s =
     (if ev_kind e = 5
      then s\<lparr>rs_db := process_deletion (ge_parse_f64 env) (ge_kind_eq env) (ge_delete_net env) e
                       (can_delete_any env e) (rs_db s)\<rparr>
      else s)"

definition moderate :: "('f, 'x) gate_env_scheme \<Rightarrow> nostr_event \<Rightarrow> relay_state \<Rightarrow> relay_state" where
  "moderate env e s =
     (let s = (if ev_kind e = KIND_REPORT_NIP56
               then s\<lparr>rs_reports := process_report (ge_report_net env) (ge_now env) e (rs_reports s)\<rparr> else s)
      in if ev_kind e \<in> {KIND_BAN, KIND_MUTE, KIND_UNBAN, KIND_UNMUTE} \<and> re_admin env (ev_pubkey e)
         then s\<lparr>rs_mod_rows := mirror_moderation_action (ge_mirror_net env) e (rs_mod_rows s),
                rs_mod_cache := (case tag_value (ev_tags e) ''p'' of
                   Some target \<Rightarrow> cache_invalidate target (rs_mod_cache s) | None \<Rightarrow> rs_mod_cache s)\<rparr>
         else s)"

text \<open>A case's projection reads the creation times of the stored events.\<close>

definition gov_view :: "relay_state \<Rightarrow> gov_db" where
  "gov_view s = (rs_gov s)\<lparr>db_event_times :=
     (\<lambda>i. map_option er_created_at (List.find (\<lambda>r. er_id r = i) (rd_events (rs_db s))))\<rparr>"

text \<open>
  A panic traps the handler: what was stored and sent before it stands. The planners panic before
  they write, so a projection that traps leaves the cases as they were.
\<close>

datatype run_end = Finished | Trapped

definition settle_projection :: "relay_state \<Rightarrow> gov_db outcome \<Rightarrow> relay_state \<times> run_end" where
  "settle_projection s r =
     (case r of Panics \<Rightarrow> (s, Trapped) | Returns db \<Rightarrow> (s\<lparr>rs_gov := db\<rparr>, Finished))"

definition db_of :: "(gov_db \<times> receipt_outcome) outcome \<Rightarrow> gov_db outcome" where
  "db_of r = (case r of Panics \<Rightarrow> Panics | Returns x \<Rightarrow> Returns (fst x))"

definition govern :: "('f, 'x) gate_env_scheme \<Rightarrow> nostr_event \<Rightarrow> relay_state \<Rightarrow> relay_state \<times> run_end" where
  "govern env e s =
     (if ev_kind e = 31402 then
        (if extract_appeal_target (ev_tags e) \<noteq> None
         then settle_projection s (db_of (project_appeal (ge_host env) (ge_now env) e (gov_view s)))
         else (case ge_panel env e of
                (panel_tags, advertised, key) \<Rightarrow>
                  settle_projection s
                    (project_action_request (ge_host env) panel_tags advertised key e (gov_view s))))
      else if ev_kind e = 31403 then
        (if extract_supersedes_target (ev_tags e) \<noteq> None
         then settle_projection s
                (db_of (project_supersession (ge_host env) (governance_rank_of env) (ge_now env) e (gov_view s)))
         else settle_projection s
                (db_of (project_action_response (ge_host env) (ge_now env) e (gov_view s))))
      else (s, Finished))"

definition after_save ::
  "('f, 'x) gate_env_scheme \<Rightarrow> nostr_event \<Rightarrow> relay_state \<Rightarrow> relay_state \<times> run_end"
where
  "after_save env e s =
     govern env e (moderate env e (delete_targets env e
       (note_write_activity env (principal_of env e) (count_post env e s))))"

text \<open>An ephemeral event is only broadcast; any other is stored first.\<close>

type_synonym run_result = "relay_effect list \<times> relay_state \<times> run_end"

definition accept_event ::
  "('f, 'x) gate_env_scheme \<Rightarrow> string option \<Rightarrow> nostr_event \<Rightarrow> relay_state \<Rightarrow> run_result"
where
  "accept_event env authed e s =
     (let treatment = treatment_of (ev_kind e) in
      if treatment = Ephemeral then ([SendOk (ev_id e) True [], BroadcastEvent e], s, Finished)
      else
        (let repeat = push_event_known env (rs_db s) e in
         case save_event (h_json (ge_host env)) (ge_now env) (ge_save_net env) e treatment (rs_db s) of
           (db, False) \<Rightarrow>
             ([SendOk (ev_id e) False ''error: failed to save event''], s\<lparr>rs_db := db\<rparr>, Finished)
         | (db, True) \<Rightarrow>
             (case after_save env e (s\<lparr>rs_db := db\<rparr>) of
                (s, Trapped) \<Rightarrow> ([SendOk (ev_id e) True [], BroadcastEvent e], s, Trapped)
              | (s, Finished) \<Rightarrow>
                  ([SendOk (ev_id e) True [], BroadcastEvent e] @
                   (if repeat then [] else [PushFanout e authed]), s, Finished))))"

text \<open>\<open>handle_event\<close>: \<open>authed\<close> is the key the session completed the AUTH handshake for.\<close>

definition handle_event ::
  "('f, 'x) gate_env_scheme \<Rightarrow> string \<Rightarrow> string option \<Rightarrow> nostr_event \<Rightarrow> relay_state \<Rightarrow> run_result"
where
  "handle_event env ip authed e s =
     (case check_rate_limit (ge_limit env) (ge_now_ms env) ip (rs_rates s) of
        (False, m) \<Rightarrow> ([SendNotice ''rate limit exceeded''], s\<lparr>rs_rates := m\<rparr>, Finished)
      | (True, m) \<Rightarrow>
          (case admission env (authed \<noteq> None) e (s\<lparr>rs_rates := m\<rparr>) of
             Panics \<Rightarrow> ([], s\<lparr>rs_rates := m\<rparr>, Trapped)
           | Returns (Some reason, s) \<Rightarrow> ([SendOk (ev_id e) False reason], s, Finished)
           | Returns (None, s) \<Rightarrow> accept_event env authed e s))"

end
