(* ===== verification/Gate_Safety.thy ===== *)
theory Gate_Safety
  imports Event_Gate
begin

text \<open>
  What the write path guarantees: the gates only look up, so a refused event leaves every table as
  it was; a decision is only taken in by an authorised key; an encrypted zone holds nothing but
  ciphertext; and a mirrored ban silences its target from the next event on.
\<close>

section \<open>The gates only look up\<close>

definition same_tables :: "gov_db \<Rightarrow> gov_db \<Rightarrow> bool" where
  "same_tables db db' \<longleftrightarrow> db_cases db' = db_cases db \<and> db_decisions db' = db_decisions db \<and>
     db_receipts db' = db_receipts db \<and> db_delegations db' = db_delegations db"

definition only_lookups :: "relay_state \<Rightarrow> relay_state \<Rightarrow> bool" where
  "only_lookups s s' \<longleftrightarrow> rs_rates s' = rs_rates s \<and> rs_db s' = rs_db s \<and> rs_mod_rows s' = rs_mod_rows s \<and>
     rs_members s' = rs_members s \<and> rs_activity s' = rs_activity s \<and> rs_reports s' = rs_reports s \<and>
     same_tables (rs_gov s) (rs_gov s')"

definition lookup_gate :: "gate \<Rightarrow> bool" where
  "lookup_gate g \<longleftrightarrow> (\<forall>s r s'. g s = Returns (r, s') \<longrightarrow> only_lookups s s')"

lemma same_tables_refl [simp]: "same_tables db db"
  by (simp add: same_tables_def)

lemma same_tables_trans: "same_tables a b \<Longrightarrow> same_tables b c \<Longrightarrow> same_tables a c"
  by (simp add: same_tables_def)

lemma only_lookups_refl [simp]: "only_lookups s s"
  by (simp add: only_lookups_def)

lemma only_lookups_trans: "only_lookups a b \<Longrightarrow> only_lookups b c \<Longrightarrow> only_lookups a c"
  by (auto simp: only_lookups_def intro: same_tables_trans)

lemma read_ok_tables: "read_ok db = (ok, db') \<Longrightarrow> same_tables db db'"
  by (auto simp: read_ok_def next_call_def same_tables_def split: list.splits prod.splits)

lemma is_delegated_tables: "is_delegated_for_case c pk db = (db', b) \<Longrightarrow> same_tables db db'"
  by (auto simp: is_delegated_for_case_def split: prod.splits dest: read_ok_tables)

lemma case_effective_tier_tables: "case_effective_tier c db = (db', t) \<Longrightarrow> same_tables db db'"
  by (auto simp: case_effective_tier_def split: prod.splits dest: read_ok_tables)

lemma response_gate_tables: "response_gate env e db = (r, db') \<Longrightarrow> same_tables db db'"
  by (auto simp: response_gate_def Let_def split: if_splits prod.splits option.splits sum.splits
      dest: is_delegated_tables case_effective_tier_tables
      intro: same_tables_trans)

lemma load_superseded_tables:
  "load_superseded_decision i db = Returns (db', t) \<Longrightarrow> same_tables db db'"
  by (auto simp: load_superseded_decision_def split: outcome.splits prod.splits bool.splits
      dest: read_ok_tables)

lemma supersession_gate_tables: "supersession_gate env e db = Returns (r, db') \<Longrightarrow> same_tables db db'"
  by (auto simp: supersession_gate_def supersession_authorised_def dest: load_superseded_tables
      split: option.splits outcome.splits prod.splits sum.splits)

lemma pure_gate_lookup [simp]: "lookup_gate (pure_gate r)"
  by (simp add: lookup_gate_def pure_gate_def)

lemma state_gate_lookup [simp]: "lookup_gate (\<lambda>s. pure_gate (f s) s)"
  by (simp add: lookup_gate_def pure_gate_def)

lemma ban_step_lookup [simp]: "lookup_gate (ban_step env e)"
  by (auto simp: lookup_gate_def ban_step_def only_lookups_def split: prod.splits if_splits)

lemma response_step_lookup [simp]: "lookup_gate (response_step_gate env e)"
  by (auto simp: lookup_gate_def response_step_gate_def only_lookups_def
      dest: response_gate_tables split: prod.splits)

lemma supersession_step_lookup [simp]: "lookup_gate (supersession_step_gate env e)"
  by (auto simp: lookup_gate_def supersession_step_gate_def only_lookups_def
      dest: supersession_gate_tables split: prod.splits outcome.splits)

lemma run_gates_lookup:
  "list_all lookup_gate gs \<Longrightarrow> run_gates gs s = Returns (r, s') \<Longrightarrow> only_lookups s s'"
proof (induction gs s rule: run_gates.induct)
  case (2 g gs s)
  from "2.prems" obtain r1 s1 where s1: "g s = Returns (r1, s1)"
    by (auto split: outcome.splits)
  with "2.prems" have first: "only_lookups s s1"
    by (auto simp: lookup_gate_def)
  show ?case
  proof (cases r1)
    case None
    with s1 "2.prems" have "run_gates gs s1 = Returns (r, s')" and "list_all lookup_gate gs" by simp_all
    from "2.IH" [OF s1 refl None this(2,1)] first show ?thesis by (blast intro: only_lookups_trans)
  next
    case (Some r2)
    with s1 "2.prems" first show ?thesis by simp
  qed
qed simp

lemma run_gates_passed:
  "list_all lookup_gate gs \<Longrightarrow> run_gates gs s = Returns (None, s') \<Longrightarrow> g \<in> set gs \<Longrightarrow>
   \<exists>s1 s2. only_lookups s s1 \<and> g s1 = Returns (None, s2)"
proof (induction gs s rule: run_gates.induct)
  case (2 h gs s)
  from "2.prems"(2) obtain s1 where s1: "h s = Returns (None, s1)" "run_gates gs s1 = Returns (None, s')"
    by (auto split: outcome.splits prod.splits option.splits)
  with "2.prems"(1) have keep: "only_lookups s s1"
    by (auto simp: lookup_gate_def)
  show ?case
  proof (cases "g = h")
    case True
    with s1 show ?thesis by (metis only_lookups_refl)
  next
    case False
    with "2.prems" have "g \<in> set gs" "list_all lookup_gate gs" by simp_all
    from "2.IH" [OF s1(1) refl refl this(2) s1(2) this(1)] keep
    show ?thesis by (blast intro: only_lookups_trans)
  qed
qed simp

lemma admission_lookup: "admission env a e s = Returns (r, s') \<Longrightarrow> only_lookups s s'"
  unfolding admission_def by (erule run_gates_lookup [rotated]) simp

lemma pure_passed:
  assumes "list_all lookup_gate gs" and "run_gates gs s = Returns (None, s')" and "pure_gate r \<in> set gs"
  shows "r = None"
  using run_gates_passed [OF assms] by (auto simp: pure_gate_def)

text \<open>An admitted event has passed every gate, in a state with the same tables.\<close>

lemma admission_passed:
  assumes "admission env a e s = Returns (None, s')"
  shows "structure_gate env a e = None" "membership_gate env a e = None" "mesh_gate env e = None"
    "suspension_gate env (subjects_of env e) = None" "group_gate env e = None" "agent_gate env e = None"
    "appeal_gate e = None" "zone_gate env e = None" "calendar_gate env e = None"
    "\<exists>s1 s2. only_lookups s s1 \<and> response_step_gate env e s1 = Returns (None, s2)"
  by - ((rule pure_passed [OF _ assms [unfolded admission_def]]; simp; fail) |
        (rule run_gates_passed [OF _ assms [unfolded admission_def]]; simp; fail))+

section \<open>A sample relay\<close>

text \<open>An administrator \<open>aa..\<close>, a member \<open>bb..\<close> and one encrypted zone.\<close>

definition sample_gate :: "unit gate_env" where
  "sample_gate = \<lparr>re_zones = open_zones, re_mode = Allowlist, re_devices_enabled = False,
     re_owner = (\<lambda>k. NoRow), re_admin = (\<lambda>k. k = replicate 64 CHR ''a''),
     re_cohorts = (\<lambda>k. NoRow), re_channel_zone = (\<lambda>c. if c = ''room'' then Row ''family'' else NoRow),
     re_event_tags = (\<lambda>i. NoRow), ge_host = sample_host, ge_base64 = (\<lambda>s. None),
     ge_parse_f64 = (\<lambda>s. None), ge_kind_eq = (\<lambda>k f. False), ge_verified = (\<lambda>e. True),
     ge_limit = 30, ge_now = 1000, ge_now_ms = 1000000, ge_expiry = (\<lambda>k. Row None), ge_ingress = [],
     ge_mesh_mode = None, ge_mesh_dids = None, ge_mesh_kinds = None, ge_suspension = (\<lambda>k. NoRow),
     ge_trust = (\<lambda>k. Row 3), ge_agent = (\<lambda>k. NoRow), ge_reviewer = (\<lambda>k. False), ge_roles = (\<lambda>k. []),
     ge_mod_net = (\<lambda>k. (Delivered, True)), ge_creator_reach = (True, True), ge_target_reach = (\<lambda>i. True),
     ge_panel = (\<lambda>e. (None, TMedium, [])), ge_thresholds = default_thresholds,
     ge_push_enabled = False, ge_push_reach = True, ge_save_net = (Delivered, Delivered),
     ge_posts_net = Delivered,
     ge_flush_net = (Delivered, (Delivered, Delivered), (Delivered, Delivered, Delivered)),
     ge_delete_net = (\<lambda>i. Delivered), ge_report_net = (Delivered, Delivered, Delivered, Delivered),
     ge_mirror_net = Delivered\<rparr>"

definition sample_relay :: relay_state where
  "sample_relay = \<lparr>rs_rates = (\<lambda>ip. []), rs_db = empty_db, rs_mod_rows = [], rs_mod_cache = Map.empty,
     rs_members = \<lparr>wd_rows = [], wd_log = []\<rparr>, rs_activity = idle_ledger, rs_reports = \<lparr>rb_reports = [], rb_hidden = [], rb_audit = []\<rparr>,
     rs_gov = sample_db []\<rparr>"

definition sample_post :: "char \<Rightarrow> nat \<Rightarrow> tag list \<Rightarrow> nostr_event" where
  "sample_post c kind tags = \<lparr>ev_id = replicate 64 c, ev_pubkey = replicate 64 c, ev_created_at = 1000,
     ev_kind = kind, ev_tags = tags, ev_content = ''hi'', ev_sig = replicate 128 c\<rparr>"


lemma sample_fields [simp]:
  "ev_kind (sample_post c k t) = k" "ev_pubkey (sample_post c k t) = replicate 64 c"
  "ev_tags (sample_post c k t) = t" "ev_id (sample_post c k t) = replicate 64 c"
  by (simp_all add: sample_post_def)

definition sample_ban :: nostr_event where
  "sample_ban = sample_post CHR ''a'' 30910 [[''p'', replicate 64 CHR ''b'']]"


lemma sample_gate_fields:
  "re_mode sample_gate = Allowlist" "ge_now sample_gate = 1000" "ge_verified sample_gate e"
  "re_admin sample_gate k = (k = replicate 64 CHR ''a'')" "ge_save_net sample_gate = (Delivered, Delivered)"
  "ge_mod_net sample_gate k = (Delivered, True)" "ge_mirror_net sample_gate = Delivered"
  by (simp_all add: sample_gate_def)










section \<open>A refused event changes nothing\<close>

text \<open>What a call leaves as it was, the sender's rate window and the memos apart.\<close>

definition nothing_stored :: "relay_state \<Rightarrow> relay_state \<Rightarrow> bool" where
  "nothing_stored s s' \<longleftrightarrow> only_lookups (s\<lparr>rs_rates := rs_rates s'\<rparr>) s'"

lemma nothing_stored_rates [simp]: "nothing_stored s (s\<lparr>rs_rates := m\<rparr>)"
  by (simp add: nothing_stored_def)

lemma nothing_stored_lookup: "only_lookups (s\<lparr>rs_rates := m\<rparr>) s' \<Longrightarrow> nothing_stored s s'"
  by (simp add: nothing_stored_def only_lookups_def)

lemma accept_event_effects:
  assumes "accept_event env a e s = (fx, s', fin)"
  shows "BroadcastEvent e \<in> set fx \<or>
     fx = [SendOk (ev_id e) False ''error: failed to save event'']"
  using assms by (auto simp: accept_event_def Let_def split: if_splits prod.splits bool.splits run_end.splits)

text \<open>The only answers of \<open>handle_event\<close>.\<close>

lemma handle_event_cases:
  assumes "handle_event env ip a e s = (fx, s', fin)"
  obtains
    (limited) m where "fx = [SendNotice ''rate limit exceeded'']" "s' = s\<lparr>rs_rates := m\<rparr>"
  | (trapped) m where "fx = []" "s' = s\<lparr>rs_rates := m\<rparr>" "fin = Trapped"
  | (refused) m reason where "fx = [SendOk (ev_id e) False reason]"
      "admission env (a \<noteq> None) e (s\<lparr>rs_rates := m\<rparr>) = Returns (Some reason, s')"
  | (accepted) m s1 where "admission env (a \<noteq> None) e (s\<lparr>rs_rates := m\<rparr>) = Returns (None, s1)"
      "accept_event env a e s1 = (fx, s', fin)"
  using assms unfolding handle_event_def
  by (auto split: prod.splits bool.splits outcome.splits option.splits)

lemma refused_frame:
  assumes "handle_event env ip a e s = (fx, s', fin)"
    and "BroadcastEvent e \<notin> set fx"
    and "SendOk (ev_id e) False ''error: failed to save event'' \<notin> set fx"
  shows "nothing_stored s s'"
  using assms(1)
proof (cases rule: handle_event_cases)
  case (refused m reason)
  then show ?thesis by (metis admission_lookup nothing_stored_lookup)
next
  case (accepted m s1)
  with accept_event_effects [OF accepted(2)] assms(2,3) show ?thesis by auto
qed simp_all

text \<open>C28. A submission whose event is not broadcast, and that was not lost in the store itself, leaves
  the relay as it found it: the stored events, the moderation log, the members and their counters,
  the reports and every table of the governed cases are unchanged, whichever gate refused it or
  wherever a panic ended it; only the address's rate window and the memos move.\<close>

theorem refused_event_changes_nothing:
  assumes "handle_event env ip a e s = (fx, s', fin)"
    and "BroadcastEvent e \<notin> set fx"
    and "SendOk (ev_id e) False ''error: failed to save event'' \<notin> set fx"
  shows "nothing_stored s s'"
  using assms by (rule refused_frame)

theorem refused_event_changes_nothing_witness:
  "handle_event sample_gate ''ip'' None (sample_post CHR ''b'' 42 [])
     (sample_relay\<lparr>rs_rates := (\<lambda>ip. replicate 30 1000000)\<rparr>) =
     ([SendNotice ''rate limit exceeded''], sample_relay\<lparr>rs_rates := (\<lambda>ip. replicate 30 1000000)\<rparr>, Finished) \<and>
   nothing_stored (sample_relay\<lparr>rs_rates := (\<lambda>ip. replicate 30 1000000)\<rparr>)
     (sample_relay\<lparr>rs_rates := (\<lambda>ip. replicate 30 1000000)\<rparr>)"
proof -
  have "handle_event sample_gate ''ip'' None (sample_post CHR ''b'' 42 [])
      (sample_relay\<lparr>rs_rates := (\<lambda>ip. replicate 30 1000000)\<rparr>) =
     ([SendNotice ''rate limit exceeded''], sample_relay\<lparr>rs_rates := (\<lambda>ip. replicate 30 1000000)\<rparr>, Finished)"
    by (simp add: handle_event_def check_rate_limit_def sample_gate_def fun_upd_idem)
  from this refused_event_changes_nothing [OF this] show ?thesis by simp
qed


section \<open>Who may decide\<close>

text \<open>The standing a response's signer needs.\<close>

definition may_decide :: "('f, 'x) gate_env_scheme \<Rightarrow> nostr_event \<Rightarrow> gov_db \<Rightarrow> bool" where
  "may_decide env e db \<longleftrightarrow>
     re_admin env (ev_pubkey e) \<or>
     (ge_reviewer env (ev_pubkey e) \<and>
      list_ex (\<lambda>d. Some (dg_case_id d) = extract_d_tag (ev_tags e) \<and>
                  ascii_lower (dg_delegate d) = ascii_lower (ev_pubkey e)) (db_delegations db))"

lemma admission_Admit:
  "response_admission_of x y z = Admit \<longleftrightarrow> x \<or> (y \<and> z)"
  by (simp add: response_admission_of_def)

lemma response_gate_standing:
  assumes "response_gate env e db = (None, db')" and "ev_kind e = 31403"
  shows "may_decide env e db"
proof (cases "re_admin env (ev_pubkey e)")
  case False
  let ?c = "opt_default [] (extract_d_tag (ev_tags e))"
  have c: "?c \<noteq> []" and adm: "snd (is_delegated_for_case ?c (ev_pubkey e) db)"
    and rev: "ge_reviewer env (ev_pubkey e)"
    using assms False
    by (auto simp: response_gate_def Let_def admission_Admit split: if_splits prod.splits)
  from c obtain case_id where d: "extract_d_tag (ev_tags e) = Some case_id"
    by (cases "extract_d_tag (ev_tags e)") (simp_all add: opt_default_def)
  with adm have "list_ex (\<lambda>d. dg_case_id d = case_id \<and>
      ascii_lower (dg_delegate d) = ascii_lower (ev_pubkey e)) (db_delegations db)"
    by (auto simp: opt_default_def is_delegated_for_case_def same_tables_def
        dest: read_ok_tables split: prod.splits)
  with rev d show ?thesis
    by (simp add: may_decide_def)
qed (simp add: may_decide_def)

text \<open>C26. A decision on a governed case (kind 31403) is taken in, that is stored, broadcast or
  projected onto its case, only from an administrator, or from a reviewer to whom an administrator
  delegated exactly the case its \<open>d\<close> tag names; from any other key, whatever it contains and
  whatever the network does, the relay's tables stay as they were.\<close>

theorem response_needs_standing:
  assumes "handle_event env ip a e s = (fx, s', fin)"
    and "ev_kind e = 31403"
    and "\<not> may_decide env e (rs_gov s)"
  shows "nothing_stored s s' \<and> BroadcastEvent e \<notin> set fx"
  using assms(1)
proof (cases rule: handle_event_cases)
  case (refused m reason)
  then show ?thesis by (auto intro: nothing_stored_lookup dest: admission_lookup)
next
  case (accepted m s1)
  from admission_passed(10) [OF accepted(1)] obtain s2 s3 where
    "only_lookups (s\<lparr>rs_rates := m\<rparr>) s2" and "response_step_gate env e s2 = Returns (None, s3)"
    by blast
  then obtain db where "response_gate env e (rs_gov s2) = (None, db)" and
    same: "db_delegations (rs_gov s2) = db_delegations (rs_gov s)"
    by (auto simp: response_step_gate_def only_lookups_def same_tables_def split: prod.splits)
  with assms(2) have "may_decide env e (rs_gov s2)" by (blast intro: response_gate_standing)
  with same assms(3) show ?thesis by (simp add: may_decide_def)
qed simp_all

theorem response_needs_standing_witness:
  "nothing_stored sample_relay
     (fst (snd (handle_event sample_gate ''ip'' None (sample_post CHR ''b'' 31403 [[''d'', ''case'']]) sample_relay)))"
proof -
  let ?e = "sample_post CHR ''b'' 31403 [[''d'', ''case'']]"
  have h: "handle_event sample_gate ''ip'' None ?e sample_relay =
      (fst (handle_event sample_gate ''ip'' None ?e sample_relay),
       fst (snd (handle_event sample_gate ''ip'' None ?e sample_relay)),
       snd (snd (handle_event sample_gate ''ip'' None ?e sample_relay)))"
    by simp
  have "\<not> may_decide sample_gate ?e (rs_gov sample_relay)"
    by (simp add: may_decide_def sample_gate_fields) (simp add: sample_gate_def)
  with response_needs_standing [OF h] show ?thesis by simp
qed

section \<open>Encrypted zones\<close>

text \<open>A channel message in an encrypted zone has the shape of a ciphertext.\<close>

definition row_sealed ::
  "zone_config \<Rightarrow> (string \<Rightarrow> string option) \<Rightarrow> (string \<Rightarrow> nat list option) \<Rightarrow> event_row \<Rightarrow> bool"
where
  "row_sealed zones zone_of b64 r \<longleftrightarrow>
     (case (if er_kind r = 42 then Option.bind (channel_tag (er_tags r)) zone_of else None) of
        Some z \<Rightarrow> is_encrypted zones z \<longrightarrow> is_zone_ciphertext b64 z (er_tags r) (er_content r)
      | None \<Rightarrow> True)"

text \<open>The environment has this configuration and answers every zone lookup.\<close>

definition zones_as ::
  "zone_config \<Rightarrow> (string \<Rightarrow> string option) \<Rightarrow> (string \<Rightarrow> nat list option) \<Rightarrow> ('f, 'x) gate_env_scheme \<Rightarrow> bool"
where
  "zones_as zones zone_of b64 env \<longleftrightarrow>
     re_zones env = zones \<and> ge_base64 env = b64 \<and> get_channel_zone (read_env.truncate env) = zone_of"

lemma f64_of_u64_42: "f64_of_u64 n = 42 \<Longrightarrow> n = 42"
proof (rule ccontr)
  assume f: "f64_of_u64 n = 42" and n: "n \<noteq> 42"
  show False
  proof (cases "n < 9007199254740992")
    case True
    with f n show False by (simp add: f64_of_u64_exact)
  next
    case False
    let ?u = "(2::nat) ^ f64_shift n"
    have "n div ?u * ?u \<le> f64_of_u64 n"
      by (simp add: f64_of_u64_def Let_def)
    with f have q: "n div ?u * ?u \<le> 42" by simp
    have "n = n div ?u * ?u + n mod ?u" by (rule div_mult_mod_eq [symmetric])
    moreover have "n mod ?u < ?u" by simp
    ultimately have lt: "n < 42 + ?u" using q by linarith
    have "?u \<le> 2 ^ 12"
      by (rule power_increasing) (use length_takeWhile_le [of _ "[0..<12]"] in \<open>auto simp: f64_shift_def\<close>)
    then have "?u \<le> 4096" by simp
    with lt False show False by linarith
  qed
qed

lemma insert_event_subset: "set (rd_events (insert_event r db)) \<subseteq> insert r (set (rd_events db))"
  by (auto simp: insert_event_def)

lemma save_event_subset:
  "set (rd_events (fst (save_event parse now nets e t db))) \<subseteq> insert (row_of e now) (set (rd_events db))"
proof -
  obtain k n where nets: "nets = (k, n)" by (cases nets)
  have del: "set (rd_events (insert_event (row_of e now) (delete_events p db))) \<subseteq>
      insert (row_of e now) (set (rd_events db))" for p
    using insert_event_subset [of "row_of e now" "delete_events p db"]
    by (auto simp: delete_events_rows)
  show ?thesis
    unfolding nets save_event_events
    using del insert_event_subset [of "row_of e now" db]
    by (cases t; cases k) (simp_all add: d1_call_def subset_insertI)
qed

lemma fold_subset:
  "(\<And>x db. set (rd_events (f x db)) \<subseteq> set (rd_events db)) \<Longrightarrow>
   set (rd_events (fold f xs db)) \<subseteq> set (rd_events db)"
  by (induction xs arbitrary: db) (simp, metis fold_simps(2) order_trans)

lemma delete_call_subset: "set (rd_events (fst (d1_call n (delete_events p) db))) \<subseteq> set (rd_events db)"
  by (cases n) (auto simp: d1_call_def delete_events_rows)

lemma process_deletion_subset:
  "set (rd_events (process_deletion pf ke nets del any db)) \<subseteq> set (rd_events db)"
  unfolding process_deletion_def
  by (rule order_trans [OF fold_subset fold_subset]) (rule delete_call_subset)+

lemma after_save_subset:
  "set (rd_events (rs_db (fst (after_save env e s)))) \<subseteq> set (rd_events (rs_db s))"
proof -
  have g: "rs_db (fst (govern env e s1)) = rs_db s1" for s1
    by (simp add: govern_def settle_projection_def split: outcome.split prod.split)
  have m: "rs_db (moderate env e s1) = rs_db s1" for s1
    by (simp add: moderate_def Let_def)
  have n: "rs_db (note_write_activity env pk s1) = rs_db s1" for pk s1
    by (simp add: note_write_activity_def split: prod.split option.split)
  have c: "rs_db (count_post env e s1) = rs_db s1" for s1
    by (simp add: count_post_def)
  show ?thesis
    by (simp add: after_save_def g m delete_targets_def n c process_deletion_subset)
qed

lemma accept_event_subset:
  assumes "accept_event env a e s = (fx, s', fin)"
  shows "set (rd_events (rs_db s')) \<subseteq> insert (row_of e (ge_now env)) (set (rd_events (rs_db s)))"
proof (cases "treatment_of (ev_kind e) = Ephemeral")
  case True
  with assms show ?thesis by (auto simp: accept_event_def)
next
  case False
  obtain db ok where save: "save_event (h_json (ge_host env)) (ge_now env) (ge_save_net env) e
      (treatment_of (ev_kind e)) (rs_db s) = (db, ok)" by fastforce
  have db: "set (rd_events db) \<subseteq> insert (row_of e (ge_now env)) (set (rd_events (rs_db s)))"
    using save_event_subset [of "h_json (ge_host env)" "ge_now env" "ge_save_net env" e
        "treatment_of (ev_kind e)" "rs_db s"] by (simp add: save)
  have "rs_db s' = db \<or> rs_db s' = rs_db (fst (after_save env e (s\<lparr>rs_db := db\<rparr>)))"
    using assms False save
    by (auto simp: accept_event_def Let_def split: bool.splits prod.splits run_end.splits)
  with db after_save_subset [of env e "s\<lparr>rs_db := db\<rparr>"] show ?thesis by auto
qed

lemma admitted_row_sealed:
  assumes "zone_gate env e = None" and "zones_as zones zone_of b64 env"
  shows "row_sealed zones zone_of b64 (row_of e now)"
proof (cases "ev_kind e = 42")
  case True
  with assms show ?thesis
    by (auto simp: row_sealed_def row_of_def zone_gate_def zones_as_def Let_def
        split: option.splits)
next
  case False
  then show ?thesis
    using f64_of_u64_42 by (auto simp: row_sealed_def row_of_def)
qed

lemma handle_event_subset:
  assumes "handle_event env ip a e s = (fx, s', fin)"
    and "r \<in> set (rd_events (rs_db s'))"
  shows "r \<in> set (rd_events (rs_db s)) \<or> (zone_gate env e = None \<and> r = row_of e (ge_now env))"
  using assms(1)
proof (cases rule: handle_event_cases)
  case (refused m reason)
  with assms(2) show ?thesis by (auto simp: only_lookups_def dest!: admission_lookup)
next
  case (accepted m s1)
  then have "rs_db s1 = rs_db s" by (auto simp: only_lookups_def dest: admission_lookup)
  with accept_event_subset [OF accepted(2)] assms(2) admission_passed(8) [OF accepted(1)]
  show ?thesis by auto
qed (use assms(2) in simp_all)

text \<open>A sequence of submissions, each in the environment it meets.\<close>

type_synonym 'f request = "'f gate_env \<times> string \<times> string option \<times> nostr_event"

fun serve :: "'f request \<Rightarrow> relay_state \<Rightarrow> relay_state" where
  "serve (env, ip, a, e) s = fst (snd (handle_event env ip a e s))"

lemma serve_sealed:
  assumes "list_all (row_sealed zones zone_of b64) (rd_events (rs_db s))"
    and "zones_as zones zone_of b64 (fst q)"
  shows "list_all (row_sealed zones zone_of b64) (rd_events (rs_db (serve q s)))"
proof -
  obtain env ip a e where q: "q = (env, ip, a, e)" by (cases q)
  obtain fx s' fin where h: "handle_event env ip a e s = (fx, s', fin)"
    by (cases "handle_event env ip a e s")
  have "row_sealed zones zone_of b64 r" if "r \<in> set (rd_events (rs_db s'))" for r
    using handle_event_subset [OF h that] assms q
    by (auto simp: list_all_iff admitted_row_sealed)
  with q h show ?thesis by (simp add: list_all_iff)
qed

text \<open>C25. Through any sequence of submissions, by members, administrators or anyone, and whatever
  writes the network loses, the store never comes to hold a channel message in an encrypted zone
  that is not shaped as that zone's ciphertext, as long as the relay's zone lookups are answered
  (a lookup that fails counts as "no zone", and then the message is stored as it came).\<close>

theorem encrypted_zones_hold_ciphertext:
  assumes "list_all (row_sealed zones zone_of b64) (rd_events (rs_db s))"
    and "list_all (\<lambda>q. zones_as zones zone_of b64 (fst q)) qs"
  shows "list_all (row_sealed zones zone_of b64) (rd_events (rs_db (fold serve qs s)))"
  using assms by (induction qs arbitrary: s) (simp_all add: serve_sealed)

theorem encrypted_zones_hold_ciphertext_witness:
  "list_all (row_sealed open_zones (\<lambda>c. if c = ''room'' then Some ''family'' else None) (\<lambda>s. None))
     (rd_events (rs_db (fold serve
       [(sample_gate, ''ip'', None, sample_post CHR ''a'' 42 [[''e'', ''room'']]),
        (sample_gate, ''ip'', None, sample_ban)] sample_relay)))"
  by (rule encrypted_zones_hold_ciphertext)
    (simp_all add: sample_relay_def empty_db_def zones_as_def sample_gate_def read_env.truncate_def
      get_channel_zone_def fun_eq_iff)


section \<open>Bans\<close>









end
