(* ===== verification/Cards.thy ===== *)
theory Cards
  imports Prelude "HOL-Library.Word" "HOL-Library.Multiset"
begin

unbundle bit_operations_syntax

text \<open>
  Cards, the seeded shuffle and the hand evaluator of \<open>nostr-bbs-poker/src/engine.rs\<close> (lines 22 to
  325). A card is a number below 52: its rank is the number modulo 13, its suit the quotient. The
  generator works on four 32-bit lanes, as in the code. A draw is \<open>d / 2^32\<close>, which a double holds
  exactly, and so is its product with an index bound below \<open>2^21\<close>; truncating that product is the
  integer division below.
\<close>

section \<open>Cards\<close>

definition RANKS :: string where "RANKS = ''23456789TJQKA''"
definition SUIT_LETTERS :: string where "SUIT_LETTERS = ''cdhs''"

text \<open>The suit glyphs are the scalars 9827, 9830, 9829 and 9824.\<close>

definition SUITS :: "string list" where
  "SUITS = map utf8_encode [9827, 9830, 9829, 9824]"

definition rank_of :: "nat \<Rightarrow> nat" where "rank_of c = c mod 13"
definition suit_of :: "nat \<Rightarrow> nat" where "suit_of c = c div 13"

definition card_name :: "nat \<Rightarrow> string" where
  "card_name c = (RANKS ! rank_of c) # (SUITS ! suit_of c)"

definition card_code :: "nat \<Rightarrow> string" where
  "card_code c = [RANKS ! rank_of c, SUIT_LETTERS ! suit_of c]"

text \<open>\<open>Iterator::position\<close>\<close>

fun position :: "('a \<Rightarrow> bool) \<Rightarrow> 'a list \<Rightarrow> nat option" where
  "position P [] = None"
| "position P (x # xs) = (if P x then Some 0 else map_option Suc (position P xs))"

definition card_of_code :: "string \<Rightarrow> nat option" where
  "card_of_code code =
     (case utf8_decode code of
        [rank, suit] \<Rightarrow>
          Option.bind (position (\<lambda>c. code_of c = rank) RANKS) (\<lambda>r.
            map_option (\<lambda>s. s * 13 + r) (position (\<lambda>c. code_of c = suit) SUIT_LETTERS))
      | _ \<Rightarrow> None)"

section \<open>Random numbers\<close>

record rng =
  rng_a :: "32 word"
  rng_b :: "32 word"
  rng_c :: "32 word"
  rng_d :: "32 word"

definition hex_value :: "char \<Rightarrow> nat" where
  "hex_value c =
     (let n = code_of c in if n \<le> 57 then n - 48 else if n \<le> 70 then n - 55 else n - 87)"

text \<open>\<open>u32::from_str_radix(s, 16)\<close> on eight hexadecimal digits.\<close>

definition hex_lane :: "string \<Rightarrow> 32 word" where
  "hex_lane s = of_nat (foldl (\<lambda>n c. 16 * n + hex_value c) 0 s)"

definition from_seed :: "string \<Rightarrow> string + rng" where
  "from_seed seed_hex =
     (if length seed_hex \<noteq> 64 \<or> \<not> list_all is_ascii_hexdigit seed_hex
      then Inl ''seed must be 64 hex chars''
      else
        (let lane = (\<lambda>i. hex_lane (take 8 (drop (i * 8) seed_hex)));
             a = lane 0; b = lane 1; c = lane 2; d = lane 3
         in Inr \<lparr>rng_a = (if a OR b OR c OR d = 0 then 0x9e3779b9 else a),
                 rng_b = b, rng_c = c, rng_d = d\<rparr>))"

text \<open>The next draw is the new lane \<open>d\<close>, over \<open>2^32\<close>.\<close>

definition rng_step :: "rng \<Rightarrow> rng" where
  "rng_step r =
     (let t = rng_a r XOR push_bit 11 (rng_a r); d = rng_d r in
      \<lparr>rng_a = rng_b r, rng_b = rng_c r, rng_c = rng_d r,
       rng_d = (d XOR drop_bit 19 d) XOR (t XOR drop_bit 8 t)\<rparr>)"

definition below :: "nat \<Rightarrow> rng \<Rightarrow> nat \<times> rng" where
  "below n r = (let r' = rng_step r in (unat (rng_d r') * n div 2 ^ 32, r'))"

section \<open>The shuffle\<close>

definition swap :: "nat \<Rightarrow> nat \<Rightarrow> 'a list \<Rightarrow> 'a list" where
  "swap i j xs = xs[i := xs ! j, j := xs ! i]"

text \<open>\<open>for i in (1..k).rev()\<close>: from index \<open>k - 1\<close> down to 1.\<close>

fun shuffle_down :: "nat \<Rightarrow> rng \<Rightarrow> 'a list \<Rightarrow> 'a list" where
  "shuffle_down (Suc (Suc i)) r deck =
     (case below (Suc (Suc i)) r of (j, r') \<Rightarrow> shuffle_down (Suc i) r' (swap (Suc i) j deck))"
| "shuffle_down _ r deck = deck"

definition shuffled_deck :: "string \<Rightarrow> string + nat list" where
  "shuffled_deck seed_hex =
     (case from_seed seed_hex of
        Inl err \<Rightarrow> Inl err
      | Inr r \<Rightarrow> Inr (shuffle_down 52 r [0..<52]))"

section \<open>The evaluator\<close>

record eval =
  el_cat :: nat
  el_kick :: "nat list"
  el_score :: nat

definition score :: "nat \<Rightarrow> nat list \<Rightarrow> eval" where
  "score cat kick =
     \<lparr>el_cat = cat, el_kick = kick,
      el_score = fold (\<lambda>i s. s * 16 + (case get_at kick i of Some k \<Rightarrow> k | None \<Rightarrow> 0)) [0..<5] cat\<rparr>"

text \<open>The scan of \<open>straight_high\<close>, rank 12 first; \<open>set\<close> tells which ranks are held.\<close>

fun straight_run :: "(nat \<Rightarrow> bool) \<Rightarrow> nat list \<Rightarrow> nat \<Rightarrow> nat option" where
  "straight_run held [] run = None"
| "straight_run held (r # rs) run =
     (let run = (if held r then run + 1 else 0) in
      if run = 5 then Some (r + 4) else straight_run held rs run)"

definition straight_high :: "(nat \<Rightarrow> bool) \<Rightarrow> nat option" where
  "straight_high held =
     (case straight_run held (rev [0..<13]) 0 of
        Some hi \<Rightarrow> Some hi
      | None \<Rightarrow> if held 12 \<and> held 0 \<and> held 1 \<and> held 2 \<and> held 3 then Some 3 else None)"

definition by_rank :: "nat list \<Rightarrow> nat \<Rightarrow> nat" where
  "by_rank cards r = length (filter (\<lambda>c. rank_of c = r) cards)"

definition by_suit :: "nat list \<Rightarrow> nat \<Rightarrow> nat list" where
  "by_suit cards s = map rank_of (filter (\<lambda>c. suit_of c = s) cards)"

definition sort_desc :: "nat list \<Rightarrow> nat list" where
  "sort_desc xs = rev (sort xs)"

text \<open>\<open>sort_by(|x, y| y.0.cmp(&x.0).then(y.1.cmp(&x.1)))\<close> on pairs (count, rank), ranks distinct:
  the highest count first, then the highest rank.\<close>

definition group_key :: "nat \<times> nat \<Rightarrow> nat" where
  "group_key g = fst g * 13 + snd g"

definition groups_of :: "nat list \<Rightarrow> (nat \<times> nat) list" where
  "groups_of cards =
     rev (sort_key group_key
       (map (\<lambda>r. (by_rank cards r, r)) (filter (\<lambda>r. by_rank cards r > 0) (rev [0..<13]))))"

text \<open>The first suit of five cards or more whose ranks give an \<open>f\<close>.\<close>

definition first_suit :: "(nat list \<Rightarrow> 'a option) \<Rightarrow> nat list \<Rightarrow> 'a option" where
  "first_suit f cards =
     Option.bind (List.find (\<lambda>s. length (by_suit cards s) \<ge> 5 \<and> f (by_suit cards s) \<noteq> None) [0..<4])
       (\<lambda>s. f (by_suit cards s))"

definition first_or_0 :: "nat list \<Rightarrow> nat" where
  "first_or_0 xs = (case xs of [] \<Rightarrow> 0 | x # _ \<Rightarrow> x)"

text \<open>\<open>evaluate\<close> indexes the first group: it panics on no cards.\<close>

definition evaluate :: "nat list \<Rightarrow> eval outcome" where
  "evaluate cards =
     (case first_suit (\<lambda>rs. straight_high (\<lambda>r. r \<in> set rs)) cards of
        Some hi \<Rightarrow> Returns (score 8 [hi])
      | None \<Rightarrow>
          (case groups_of cards of
             [] \<Rightarrow> Panics
           | g0 # rest \<Rightarrow> Returns
               (if fst g0 = 4 then score 7 [snd g0, first_or_0 (sort_desc (map snd rest))]
                else if fst g0 = 3 \<and> rest \<noteq> [] \<and> fst (hd rest) \<ge> 2
                then score 6 [snd g0, snd (hd rest)]
                else case first_suit Some cards of
                  Some rs \<Rightarrow> score 5 (take 5 (sort_desc rs))
                | None \<Rightarrow>
                    (case straight_high (\<lambda>r. by_rank cards r > 0) of
                       Some hi \<Rightarrow> score 4 [hi]
                     | None \<Rightarrow>
                         if fst g0 = 3 then score 3 (snd g0 # take 2 (sort_desc (map snd rest)))
                         else if fst g0 = 2 \<and> rest \<noteq> [] \<and> fst (hd rest) = 2 then
                           (let pairs = sort_desc (map snd (filter (\<lambda>g. fst g = 2) (g0 # rest)));
                                singles = sort_desc (map snd (filter (\<lambda>g. fst g = 1) (g0 # rest)))
                            in score 2 [pairs ! 0, pairs ! 1, first_or_0 singles])
                         else if fst g0 = 2 then score 1 (snd g0 # take 3 (sort_desc (map snd rest)))
                         else score 0 (take 5 (map snd (g0 # rest)))))))"

text \<open>The five loops of \<open>best_five\<close>: the index choices in combination order.\<close>

fun combinations :: "nat \<Rightarrow> 'a list \<Rightarrow> 'a list list" where
  "combinations 0 xs = [[]]"
| "combinations (Suc k) [] = []"
| "combinations (Suc k) (x # xs) = map ((#) x) (combinations k xs) @ combinations (Suc k) xs"

text \<open>A later choice replaces the best only when it scores strictly more.\<close>

definition best_five :: "nat list \<Rightarrow> nat list" where
  "best_five cards =
     (if length cards \<le> 5 then cards
      else fst (fold (\<lambda>five (best, best_score).
             case evaluate five of
               Returns e \<Rightarrow> if int (el_score e) > best_score then (five, int (el_score e)) else (best, best_score)
             | Panics \<Rightarrow> (best, best_score))
           (combinations 5 cards) ([], - 1)))"

section \<open>Spoken names\<close>

definition RANK_WORDS :: "string list" where
  "RANK_WORDS = [''deuce'', ''three'', ''four'', ''five'', ''six'', ''seven'', ''eight'', ''nine'', ''ten'',
     ''jack'', ''queen'', ''king'', ''ace'']"

definition plural :: "nat \<Rightarrow> string" where
  "plural r = (if r = 4 then ''sixes'' else RANK_WORDS ! r @ ''s'')"

definition hand_name :: "eval \<Rightarrow> string" where
  "hand_name ev =
     (let k = (\<lambda>i. case get_at (el_kick ev) i of Some x \<Rightarrow> x | None \<Rightarrow> 0);
          word = (\<lambda>r. RANK_WORDS ! r); cat = el_cat ev
      in if cat = 8 \<and> k 0 = 12 then ''a royal flush''
         else if cat = 8 then ''a straight flush, '' @ word (k 0) @ '' high''
         else if cat = 7 then ''four '' @ plural (k 0)
         else if cat = 6 then ''a full house, '' @ plural (k 0) @ '' over '' @ plural (k 1)
         else if cat = 5 then ''a flush, '' @ word (k 0) @ '' high''
         else if cat = 4 then ''a straight, '' @ word (k 0) @ '' high''
         else if cat = 3 then ''three '' @ plural (k 0)
         else if cat = 2 then ''two pair, '' @ plural (k 0) @ '' and '' @ plural (k 1)
         else if cat = 1 then ''a pair of '' @ plural (k 0)
         else word (k 0) @ '' high'')"

section \<open>The shuffle permutes\<close>

lemma mset_swap_at [simp]: "i < length xs \<Longrightarrow> j < length xs \<Longrightarrow> mset (swap i j xs) = mset xs"
  by (simp add: swap_def mset_swap)

lemma length_swap [simp]: "length (swap i j xs) = length xs"
  by (simp add: swap_def)

lemma below_less: "n > 0 \<Longrightarrow> fst (below n r) < n"
proof -
  assume "n > 0"
  have "unat (rng_d (rng_step r)) < 2 ^ 32"
    using unsigned_less [of "rng_d (rng_step r)"] by simp
  with \<open>n > 0\<close> show ?thesis
    by (simp add: below_def Let_def less_mult_imp_div_less)
qed

lemma shuffle_down_mset: "k \<le> length deck \<Longrightarrow> mset (shuffle_down k r deck) = mset deck"
proof (induction k r deck rule: shuffle_down.induct)
  case (1 i r deck)
  obtain j r' where b: "below (Suc (Suc i)) r = (j, r')" by fastforce
  with below_less [of "Suc (Suc i)" r] have "j < Suc (Suc i)" by simp
  with 1 b show ?case by simp
qed simp_all

text \<open>C40. A shuffle deals every card exactly once: from 64 hexadecimal digits, whichever they are, the
  deck is a permutation of the 52 cards, and any other seed is refused.\<close>

theorem shuffled_deck_permutes:
  "case shuffled_deck seed_hex of
     Inr deck \<Rightarrow> is_hex64 seed_hex \<and> mset deck = mset [0..<52] \<and> distinct deck
   | Inl err \<Rightarrow> \<not> is_hex64 seed_hex"
proof -
  have "mset (shuffle_down 52 r [0..<52]) = mset [0..<52]" for r
    by (rule shuffle_down_mset) simp
  moreover from this have "distinct (shuffle_down 52 r [0..<52])" for r
    by (metis distinct_upt mset_eq_imp_distinct_iff)
  ultimately show ?thesis
    by (auto simp: shuffled_deck_def from_seed_def is_hex64_def Let_def split: sum.split)
qed

section \<open>Scores compare as hands\<close>

definition padded :: "nat list \<Rightarrow> nat list" where
  "padded kick = map (\<lambda>i. case get_at kick i of Some k \<Rightarrow> k | None \<Rightarrow> 0) [0..<5]"

text \<open>What \<open>evaluate\<close> produces: a category up to eight and at most five ranks.\<close>

definition proper_eval :: "eval \<Rightarrow> bool" where
  "proper_eval e \<longleftrightarrow> el_cat e \<le> 8 \<and> length (el_kick e) \<le> 5 \<and> list_all (\<lambda>k. k < 13) (el_kick e) \<and>
     e = score (el_cat e) (el_kick e)"

lemma proper_score: "c \<le> 8 \<Longrightarrow> length ks \<le> 5 \<Longrightarrow> list_all (\<lambda>k. k < 13) ks \<Longrightarrow> proper_eval (score c ks)"
  by (simp add: proper_eval_def score_def)

lemma sort_desc_set [simp]: "set (sort_desc xs) = set xs" "length (sort_desc xs) = length xs"
  by (simp_all add: sort_desc_def)

lemma list_all_take: "list_all P xs \<Longrightarrow> list_all P (take n xs)"
  by (auto simp: list_all_iff dest: in_set_takeD)

lemma first_or_0_less: "list_all (\<lambda>k. k < 13) xs \<Longrightarrow> first_or_0 xs < 13"
  by (cases xs) (simp_all add: first_or_0_def)

lemma groups_ranks: "g \<in> set (groups_of cards) \<longleftrightarrow> (\<exists>r < 13. g = (by_rank cards r, r) \<and> by_rank cards r > 0)"
  by (auto simp: groups_of_def)

lemma group_rank_less: "g \<in> set (groups_of cards) \<Longrightarrow> snd g < 13"
  by (auto simp: groups_ranks)

lemma rank_of_less [simp]: "rank_of c < 13"
  by (simp add: rank_of_def)

section \<open>What a straight is\<close>

definition straight_at :: "(nat \<Rightarrow> bool) \<Rightarrow> nat \<Rightarrow> bool" where
  "straight_at held hi \<longleftrightarrow>
     (4 \<le> hi \<and> hi \<le> 12 \<and> (\<forall>k \<in> {hi - 4..hi}. held k)) \<or>
     (hi = 3 \<and> held 12 \<and> held 0 \<and> held 1 \<and> held 2 \<and> held 3)"

definition is_best :: "(nat \<Rightarrow> bool) \<Rightarrow> nat option \<Rightarrow> bool" where
  "is_best P x \<longleftrightarrow> (case x of Some h \<Rightarrow> P h \<and> (\<forall>h'. P h' \<longrightarrow> h' \<le> h) | None \<Rightarrow> \<forall>h. \<not> P h)"

definition run_at :: "(nat \<Rightarrow> bool) \<Rightarrow> nat \<Rightarrow> bool" where
  "run_at held hi \<longleftrightarrow> 4 \<le> hi \<and> hi \<le> 12 \<and> (\<forall>k \<in> {hi - 4..hi}. held k)"

text \<open>The scan has seen the ranks from \<open>m\<close> on: the \<open>run\<close> lowest of them are held, the next is not,
  and no straight lies among them.\<close>

lemma straight_run_best:
  assumes "m + run \<le> 13" and "run < 5" and "\<forall>k \<in> {m..<m + run}. held k"
    and "m + run = 13 \<or> \<not> held (m + run)" and "\<forall>hi. run_at held hi \<longrightarrow> hi < m + 4"
  shows "is_best (run_at held) (straight_run held (rev [0..<m]) run)"
  using assms
proof (induction m arbitrary: run)
  case 0
  then show ?case by (auto simp: is_best_def run_at_def)
next
  case (Suc m)
  show ?case
  proof (cases "held m")
    case False
    have "hi < m + 4" if "run_at held hi" for hi
    proof -
      have "hi < Suc m + 4" using Suc.prems(5) that by blast
      moreover have "hi \<noteq> m + 4" using that False by (auto simp: run_at_def)
      ultimately show ?thesis by simp
    qed
    with Suc.IH [of 0] Suc.prems(1) False show ?thesis by simp
  next
    case held: True
    have cover: "\<forall>k \<in> {m..<m + Suc run}. held k"
      using Suc.prems(3) held by (auto simp: less_Suc_eq_le Suc_le_eq dest: le_neq_implies_less)
    show ?thesis
    proof (cases "run = 4")
      case True
      have at: "run_at held (m + 4)"
        using cover True Suc.prems(1) by (auto simp: run_at_def)
      have "hi \<le> m + 4" if "run_at held hi" for hi
        using Suc.prems(5) that by fastforce
      with at held True show ?thesis
        by (auto simp: is_best_def)
    next
      case False
      have "hi < m + 4" if r: "run_at held hi" for hi
      proof (rule ccontr)
        assume "\<not> hi < m + 4"
        with Suc.prems(5) r have hi: "hi = m + 4" by fastforce
        then have "held (Suc m + run)" and "Suc m + run \<noteq> 13"
          using r False Suc.prems(2) by (auto simp: run_at_def)
        with Suc.prems(4) show False by blast
      qed
      with Suc.IH [of "Suc run"] Suc.prems cover False held show ?thesis by simp
    qed
  qed
qed

definition wheel :: "(nat \<Rightarrow> bool) \<Rightarrow> bool" where
  "wheel held \<longleftrightarrow> held 12 \<and> held 0 \<and> held 1 \<and> held 2 \<and> held 3"

lemma straight_at_cases: "straight_at held h \<longleftrightarrow> run_at held h \<or> (h = 3 \<and> wheel held)"
  unfolding straight_at_def run_at_def wheel_def by blast

lemma straight_high_best: "is_best (straight_at held) (straight_high held)"
proof -
  have best: "is_best (run_at held) (straight_run held (rev [0..<13]) 0)"
    by (rule straight_run_best) (auto simp: run_at_def)
  have run: "run_at held h \<Longrightarrow> 4 \<le> h" for h
    by (simp add: run_at_def)
  have high: "straight_high held = (case straight_run held (rev [0..<13]) 0 of
      Some hi \<Rightarrow> Some hi | None \<Rightarrow> if wheel held then Some 3 else None)"
    unfolding straight_high_def wheel_def ..
  show ?thesis
  proof (cases "straight_run held (rev [0..<13]) 0")
    case None
    with best have "\<not> run_at held h" for h by (simp add: is_best_def)
    then show ?thesis unfolding high None by (simp add: is_best_def straight_at_cases)
  next
    case (Some hi)
    with best have hi: "run_at held hi" "\<And>h. run_at held h \<Longrightarrow> h \<le> hi" by (simp_all add: is_best_def)
    from run [OF hi(1)] hi show ?thesis
      unfolding high Some by (auto simp: is_best_def straight_at_cases)
  qed
qed

lemma straight_high_some: "straight_high held = Some hi \<Longrightarrow> straight_at held hi \<and> hi < 13"
  using straight_high_best [of held] by (auto simp: is_best_def straight_at_def)

lemma straight_high_none: "straight_high held = None \<longleftrightarrow> (\<forall>hi. \<not> straight_at held hi)"
  using straight_high_best [of held] by (auto simp: is_best_def split: option.splits)

section \<open>The category is the best one the cards make\<close>

text \<open>What it takes to make each category.\<close>

definition makes :: "nat list \<Rightarrow> nat \<Rightarrow> bool" where
  "makes cards cat \<longleftrightarrow>
     (cat = 8 \<and> (\<exists>s < 4. \<exists>hi. straight_at (\<lambda>r. r \<in> set (by_suit cards s)) hi)) \<or>
     (cat = 7 \<and> (\<exists>r < 13. by_rank cards r = 4)) \<or>
     (cat = 6 \<and> (\<exists>r < 13. \<exists>r' < 13. r \<noteq> r' \<and> by_rank cards r \<ge> 3 \<and> by_rank cards r' \<ge> 2)) \<or>
     (cat = 5 \<and> (\<exists>s < 4. length (by_suit cards s) \<ge> 5)) \<or>
     (cat = 4 \<and> (\<exists>hi. straight_at (\<lambda>r. by_rank cards r > 0) hi)) \<or>
     (cat = 3 \<and> (\<exists>r < 13. by_rank cards r \<ge> 3)) \<or>
     (cat = 2 \<and> (\<exists>r < 13. \<exists>r' < 13. r \<noteq> r' \<and> by_rank cards r \<ge> 2 \<and> by_rank cards r' \<ge> 2)) \<or>
     (cat = 1 \<and> (\<exists>r < 13. by_rank cards r \<ge> 2)) \<or>
     cat = 0"

lemma straight_five:
  assumes "straight_at held hi" shows "card {r. held r \<and> r < 13} \<ge> 5"
proof -
  have "\<exists>A. card A = 5 \<and> A \<subseteq> {r. held r \<and> r < 13}"
  proof (cases "hi = 3 \<and> wheel held")
    case True
    then show ?thesis by (intro exI [of _ "{12, 0, 1, 2, 3::nat}"]) (auto simp: wheel_def)
  next
    case False
    with assms have "run_at held hi" by (simp add: straight_at_cases)
    then show ?thesis by (intro exI [of _ "{hi - 4..hi}"]) (auto simp: run_at_def)
  qed
  then obtain A where "card A = 5" and "A \<subseteq> {r. held r \<and> r < 13}" by blast
  moreover have "finite {r. held r \<and> r < 13}"
    by (rule finite_subset [of _ "{..<13}"]) auto
  ultimately show ?thesis using card_mono by metis
qed

lemma suit_straight_long:
  assumes "straight_at (\<lambda>r. r \<in> set rs) hi" shows "5 \<le> length rs"
proof -
  have "5 \<le> card {r. r \<in> set rs \<and> r < 13}" by (rule straight_five [OF assms])
  also have "\<dots> \<le> card (set rs)" by (rule card_mono) auto
  also have "\<dots> \<le> length rs" by (rule card_length)
  finally show ?thesis .
qed

lemma by_rank_le4:
  assumes "distinct cards" and "\<forall>c \<in> set cards. c < 52" shows "by_rank cards r \<le> 4"
proof -
  let ?A = "set (filter (\<lambda>c. rank_of c = r) cards)"
  have "c div 13 < 4" if "c \<in> ?A" for c
    using that assms(2) by auto
  moreover have "inj_on (\<lambda>c. c div 13) ?A"
    by (auto simp: inj_on_def rank_of_def) (metis div_mult_mod_eq)
  ultimately have "card ?A \<le> card {..<4::nat}"
    by (intro card_inj_on_le [where f = "\<lambda>c. c div 13"]) auto
  moreover have "card ?A = length (filter (\<lambda>c. rank_of c = r) cards)"
    by (intro distinct_card distinct_filter assms(1))
  ultimately show ?thesis by (simp add: by_rank_def)
qed

text \<open>The groups: highest count first, every held rank once.\<close>

lemma groups_sorted:
  assumes "groups_of cards = g0 # rest"
  shows "\<forall>g \<in> set rest. group_key g \<le> group_key g0"
    and "rest \<noteq> [] \<Longrightarrow> \<forall>g \<in> set rest. group_key g \<le> group_key (hd rest)"
    and "distinct (map snd (g0 # rest))"
proof -
  let ?gs = "map (\<lambda>r. (by_rank cards r, r)) (filter (\<lambda>r. by_rank cards r > 0) (rev [0..<13]))"
  have "rev (sort_key group_key ?gs) = g0 # rest"
    using assms by (simp only: groups_of_def)
  then have "sort_key group_key ?gs = rev (g0 # rest)"
    by (metis rev_rev_ident)
  moreover have "sorted (map group_key (sort_key group_key ?gs))" by (rule sorted_sort_key)
  ultimately have "sorted (rev (map group_key (g0 # rest)))"
    by (simp only: rev_map)
  then have s: "sorted_wrt (\<ge>) (map group_key (g0 # rest))"
    by (simp only: sorted_wrt_rev)
  then show "\<forall>g \<in> set rest. group_key g \<le> group_key g0"
    and "rest \<noteq> [] \<Longrightarrow> \<forall>g \<in> set rest. group_key g \<le> group_key (hd rest)"
    by (auto simp: neq_Nil_conv)
  have "distinct (map snd ?gs)" by (simp add: comp_def)
  then have "distinct (map snd (groups_of cards))"
    by (simp add: groups_of_def distinct_map rev_map [symmetric]) (auto simp: inj_on_def)
  with assms show "distinct (map snd (g0 # rest))" by simp
qed

lemma group_count:
  assumes "groups_of cards = g0 # rest" and "r < 13" and "by_rank cards r > 0"
  shows "(by_rank cards r, r) = g0 \<or> (by_rank cards r, r) \<in> set rest"
  using groups_ranks [of "(by_rank cards r, r)" cards] assms by auto

lemma key_count: "group_key (n, r) \<le> group_key (n', r') \<Longrightarrow> r < 13 \<Longrightarrow> r' < 13 \<Longrightarrow> n \<le> n'"
  by (simp add: group_key_def)

lemma one_count:
  assumes g: "groups_of cards = g0 # rest" and "k > 0"
  shows "(\<exists>r < 13. k \<le> by_rank cards r) \<longleftrightarrow> k \<le> fst g0"
proof
  assume "\<exists>r < 13. k \<le> by_rank cards r"
  then obtain r where r: "r < 13" "k \<le> by_rank cards r" by blast
  with group_count [OF g r(1)] \<open>k > 0\<close> groups_sorted(1) [OF g]
  have "group_key (by_rank cards r, r) \<le> group_key g0" by auto
  moreover have "snd g0 < 13" by (rule group_rank_less [of _ cards]) (simp add: g)
  ultimately have "by_rank cards r \<le> fst g0"
    using key_count r(1) by (metis prod.collapse)
  with r(2) show "k \<le> fst g0" by simp
next
  assume "k \<le> fst g0"
  moreover obtain r where "r < 13" "g0 = (by_rank cards r, r)"
    using groups_ranks [of g0 cards] g by auto
  ultimately show "\<exists>r < 13. k \<le> by_rank cards r" by auto
qed

lemma two_counts:
  assumes g: "groups_of cards = g0 # rest" and "0 < b" and "b \<le> a"
  shows "(\<exists>r < 13. \<exists>r' < 13. r \<noteq> r' \<and> a \<le> by_rank cards r \<and> b \<le> by_rank cards r') \<longleftrightarrow>
    a \<le> fst g0 \<and> rest \<noteq> [] \<and> b \<le> fst (hd rest)"
proof
  assume "\<exists>r < 13. \<exists>r' < 13. r \<noteq> r' \<and> a \<le> by_rank cards r \<and> b \<le> by_rank cards r'"
  then obtain r r' where r: "r < 13" "r' < 13" "r \<noteq> r'" "a \<le> by_rank cards r" "b \<le> by_rank cards r'"
    by blast
  then have "a \<le> fst g0" using one_count [OF g, of a] assms(2,3) by auto
  obtain q where q: "q < 13" "q \<noteq> snd g0" "b \<le> by_rank cards q"
    using r assms(3) by (cases "r = snd g0") auto
  with group_count [OF g q(1)] assms(2) have mem: "(by_rank cards q, q) \<in> set rest" by auto
  then have ne: "rest \<noteq> []" by auto
  then have "hd rest \<in> set (groups_of cards)" using g by simp
  then have "snd (hd rest) < 13" by (rule group_rank_less)
  moreover have "group_key (by_rank cards q, q) \<le> group_key (hd rest)"
    using groups_sorted(2) [OF g ne] mem by blast
  ultimately have "b \<le> fst (hd rest)"
    using key_count q by (metis le_trans prod.collapse)
  with \<open>a \<le> fst g0\<close> show "a \<le> fst g0 \<and> rest \<noteq> [] \<and> b \<le> fst (hd rest)"
    using ne by simp
next
  assume r: "a \<le> fst g0 \<and> rest \<noteq> [] \<and> b \<le> fst (hd rest)"
  obtain r0 where r0: "r0 < 13" "g0 = (by_rank cards r0, r0)"
    using groups_ranks [of g0 cards] g by auto
  have "hd rest \<in> set (groups_of cards)" using g r by simp
  then obtain r1 where r1: "r1 < 13" "hd rest = (by_rank cards r1, r1)"
    by (auto simp: groups_ranks)
  have "r0 \<noteq> r1"
    using groups_sorted(3) [OF g] r r0 r1 by (cases rest) auto
  with r r0 r1 show "\<exists>r < 13. \<exists>r' < 13. r \<noteq> r' \<and> a \<le> by_rank cards r \<and> b \<le> by_rank cards r'"
    by (metis fst_conv)
qed

lemma first_suit_Some:
  "first_suit f cards = Some x \<Longrightarrow> \<exists>s < 4. length (by_suit cards s) \<ge> 5 \<and> f (by_suit cards s) = Some x"
  by (auto simp: first_suit_def find_Some_iff bind_eq_Some_conv)

lemma first_suit_None:
  "first_suit f cards = None \<longleftrightarrow> (\<forall>s < 4. length (by_suit cards s) \<ge> 5 \<longrightarrow> f (by_suit cards s) = None)"
proof -
  let ?P = "\<lambda>s. length (by_suit cards s) \<ge> 5 \<and> f (by_suit cards s) \<noteq> None"
  have "first_suit f cards = None \<longleftrightarrow> List.find ?P [0..<4] = None"
  proof (cases "List.find ?P [0..<4]")
    case (Some s)
    then have "?P s" by (auto simp: find_Some_iff)
    with Some show ?thesis by (simp add: first_suit_def)
  qed (simp add: first_suit_def)
  then show ?thesis by (auto simp: find_None_iff)
qed

lemma by_suit_ranks: "r \<in> set (by_suit cards s) \<Longrightarrow> r < 13"
  by (auto simp: by_suit_def)

lemma sort_desc_less:
  "(\<And>x. x \<in> set xs \<Longrightarrow> snd x < 13) \<Longrightarrow> list_all (\<lambda>k. k < 13) (sort_desc (map snd xs))"
  by (auto simp: list_all_iff)

text \<open>C39. The evaluator finds the best category: any one to seven distinct cards of the deck (any
  number, in fact) evaluate, to a category the cards make such that they make no higher one, with at
  most five tie-break ranks below 13 and the score that encodes them.\<close>

theorem evaluate_best_category:
  assumes "cards \<noteq> []" and "distinct cards" and "\<forall>c \<in> set cards. c < 52"
  shows "\<exists>e. evaluate cards = Returns e \<and> proper_eval e \<and> makes cards (el_cat e) \<and>
    (\<forall>cat. makes cards cat \<longrightarrow> cat \<le> el_cat e)"
proof -
  have "groups_of cards \<noteq> []"
  proof -
    from assms(1) have "by_rank cards (rank_of (hd cards)) > 0"
      by (cases cards) (simp_all add: by_rank_def)
    then have "(by_rank cards (rank_of (hd cards)), rank_of (hd cards)) \<in> set (groups_of cards)"
      by (auto simp: groups_ranks)
    then show ?thesis by auto
  qed
  then obtain g0 rest where g: "groups_of cards = g0 # rest" by (cases "groups_of cards") auto
  have le4: "by_rank cards r \<le> 4" for r by (rule by_rank_le4 [OF assms(2,3)])
  have n0: "fst g0 \<le> 4" "0 < fst g0"
    using groups_ranks [of g0 cards] g le4 by auto
  note one = one_count [OF g] and two = two_counts [OF g]
  have four: "(\<exists>r < 13. by_rank cards r = 4) \<longleftrightarrow> fst g0 = 4"
    using one [of 4] n0 le4 by (metis le_antisym le_refl zero_less_numeral)
  let ?flush8 = "first_suit (\<lambda>rs. straight_high (\<lambda>r. r \<in> set rs)) cards"
  let ?second = "rest \<noteq> [] \<and> 2 \<le> fst (hd rest)"
  have s8: "(\<exists>s < 4. \<exists>hi. straight_at (\<lambda>r. r \<in> set (by_suit cards s)) hi) \<longleftrightarrow> ?flush8 \<noteq> None"
    unfolding first_suit_None straight_high_none using suit_straight_long by blast
  have s5: "(\<exists>s < 4. length (by_suit cards s) \<ge> 5) \<longleftrightarrow> first_suit Some cards \<noteq> None"
    unfolding first_suit_None by blast
  have s4: "(\<exists>hi. straight_at (\<lambda>r. by_rank cards r > 0) hi) \<longleftrightarrow> straight_high (\<lambda>r. by_rank cards r > 0) \<noteq> None"
    unfolding straight_high_none by blast
  have mk: "makes cards cat \<longleftrightarrow> (cat = 8 \<and> ?flush8 \<noteq> None) \<or> (cat = 7 \<and> fst g0 = 4) \<or>
      (cat = 6 \<and> 3 \<le> fst g0 \<and> ?second) \<or> (cat = 5 \<and> first_suit Some cards \<noteq> None) \<or>
      (cat = 4 \<and> straight_high (\<lambda>r. by_rank cards r > 0) \<noteq> None) \<or> (cat = 3 \<and> 3 \<le> fst g0) \<or>
      (cat = 2 \<and> 2 \<le> fst g0 \<and> ?second) \<or> (cat = 1 \<and> 2 \<le> fst g0) \<or> cat = 0" for cat
    unfolding makes_def s8 s5 s4 four
    by (simp add: one [of 3] one [of 2] two [of 2 3] two [of 2 2])
  have fin: "\<exists>e. evaluate cards = Returns e \<and> proper_eval e \<and> makes cards (el_cat e) \<and>
      (\<forall>cat. makes cards cat \<longrightarrow> cat \<le> el_cat e)"
    if "evaluate cards = Returns (score c ks)" "c \<le> 8" "length ks \<le> 5" "list_all (\<lambda>k. k < 13) ks"
      "makes cards c" "\<And>cat. makes cards cat \<Longrightarrow> cat \<le> c" for c ks
    using that proper_score [of c ks] by (auto simp: score_def)
  have ranks: "snd g0 < 13" "\<And>x. x \<in> set rest \<Longrightarrow> snd x < 13"
    by (rule group_rank_less [of _ cards]; simp add: g)+
  then have all13: "\<And>x. x \<in> set (g0 # rest) \<Longrightarrow> snd x < 13" by (metis set_ConsD)
  have rest13: "list_all (\<lambda>k. k < 13) (sort_desc (map snd xs))" if "set xs \<subseteq> set (g0 # rest)" for xs
    by (rule sort_desc_less) (rule all13, rule subsetD [OF that])
  show ?thesis
  proof (cases ?flush8)
    case (Some hi)
    from first_suit_Some [OF this] straight_high_some have "hi < 13" by metis
    with Some show ?thesis
      by (intro fin [of 8 "[hi]"]) (auto simp: evaluate_def mk)
  next
    case n8: None
    note ev = evaluate_def [of cards, unfolded n8 g, simplified]
    consider (four) "fst g0 = 4" | (full) "fst g0 = 3" ?second | (flush) rs where
        "fst g0 \<noteq> 4" "\<not> (fst g0 = 3 \<and> ?second)" "first_suit Some cards = Some rs"
      | (none) "fst g0 \<noteq> 4" "\<not> (fst g0 = 3 \<and> ?second)" "first_suit Some cards = None"
      by (cases "first_suit Some cards") auto
    then show ?thesis
    proof cases
      case four
      then show ?thesis
        using ranks(1) first_or_0_less [OF rest13 [of rest]]
        by (intro fin [of 7 "[snd g0, first_or_0 (sort_desc (map snd rest))]"]) (auto simp: ev mk n8)
    next
      case full
      then have "snd (hd rest) < 13" using ranks(2) by (cases rest) auto
      with full ranks(1) show ?thesis
        by (intro fin [of 6 "[snd g0, snd (hd rest)]"]) (auto simp: ev mk n8)
    next
      case flush
      then have "list_all (\<lambda>k. k < 13) (sort_desc rs)"
        using first_suit_Some [OF flush(3)] by_suit_ranks by (auto simp: list_all_iff)
      with flush n0 show ?thesis
        by (intro fin [of 5 "take 5 (sort_desc rs)"]) (auto simp: ev mk n8 list_all_take)
    next
      case none
      have kick: "list_all (\<lambda>k. k < 13) (snd g0 # take n (sort_desc (map snd rest)))" for n
        using ranks(1) list_all_take [OF rest13 [OF set_subset_Cons]] by simp
      show ?thesis
      proof (cases "straight_high (\<lambda>r. by_rank cards r > 0)")
        case (Some hi)
        with straight_high_some have "hi < 13" by metis
        with none Some n0 show ?thesis
          by (intro fin [of 4 "[hi]"]) (auto simp: ev mk n8)
      next
        case n4: None
        let ?pairs = "sort_desc (map snd (filter (\<lambda>g. fst g = 2) (g0 # rest)))"
        let ?singles = "sort_desc (map snd (filter (\<lambda>g. fst g = 1) (g0 # rest)))"
        consider (trips) "fst g0 = 3" | (pairs) "fst g0 = 2" ?second | (pair) "fst g0 = 2" "\<not> ?second"
          | (high) "fst g0 = 1"
          using n0 none(1) by linarith
        then show ?thesis
        proof cases
          case trips
          then show ?thesis
            using none n4 kick [of 2] by (intro fin [of 3 "snd g0 # take 2 (sort_desc (map snd rest))"])
              (auto simp: ev mk n8)
        next
          case pairs
          then obtain g1 rest' where r: "rest = g1 # rest'" by (cases rest) auto
          have "fst g1 \<le> fst g0"
            using groups_sorted(1) [OF g] ranks(1) ranks(2) [of g1] r key_count
            by (metis list.set_intros(1) prod.collapse)
          with pairs r have g1: "fst g1 = 2" by simp
          have "length ?pairs \<ge> 2" using pairs(1) g1 r by simp
          moreover have "list_all (\<lambda>k. k < 13) ?pairs" by (rule rest13) auto
          ultimately have p: "?pairs ! 0 < 13" "?pairs ! 1 < 13"
            by (auto simp only: list_all_length)
          have s: "first_or_0 ?singles < 13" by (rule first_or_0_less, rule rest13) auto
          have "evaluate cards = Returns (score 2 [?pairs ! 0, ?pairs ! 1, first_or_0 ?singles])"
            using pairs none n4 r g1 by (simp add: ev Let_def)
          then show ?thesis
            by (rule fin) (use p s pairs none n4 mk n8 in auto)
        next
          case pair
          then show ?thesis
            using none n4 kick [of 3] by (intro fin [of 1 "snd g0 # take 3 (sort_desc (map snd rest))"])
              (auto simp: ev mk n8)
        next
          case high
          have "list_all (\<lambda>k. k < 13) (take 5 (map snd (g0 # rest)))"
            using all13 by (intro list_all_take) (auto simp: list_all_iff)
          then show ?thesis
            using high none n4 by (intro fin [of 0 "take 5 (map snd (g0 # rest))"]) (auto simp: ev mk n8)
        qed
      qed
    qed
  qed
qed

theorem evaluate_best_category_witness:
  "\<exists>e. evaluate [0, 13, 26, 5, 51] = Returns e \<and> proper_eval e \<and> makes [0, 13, 26, 5, 51] (el_cat e) \<and>
    (\<forall>cat. makes [0, 13, 26, 5, 51] cat \<longrightarrow> cat \<le> el_cat e)"
  by (rule evaluate_best_category) simp_all

section \<open>Comparing hands\<close>

lemma upt5: "[0..<5] = [0, 1, 2, 3, 4::nat]"
  by code_simp

lemma score_value:
  "el_score (score c ks) = (case padded ks of [a, b, d, e, f] \<Rightarrow>
     ((((c * 16 + a) * 16 + b) * 16 + d) * 16 + e) * 16 + f | _ \<Rightarrow> 0)"
  unfolding score_def padded_def upt5 by simp

lemma padded_five:
  assumes "list_all (\<lambda>k. k < 13) ks"
  obtains a b d e f where "padded ks = [a, b, d, e, f]" "a < 16" "b < 16" "d < 16" "e < 16" "f < 16"
proof -
  let ?k = "\<lambda>i. case get_at ks i of Some k \<Rightarrow> k | None \<Rightarrow> 0"
  have "?k i < 16" for i
    using assms by (auto simp: get_at_def list_all_length split: option.split)
  then show ?thesis
    by (rule_tac that) (simp add: padded_def upt5, assumption+)
qed

lemma digit_less: "(a::nat) < 16 \<Longrightarrow> b < 16 \<Longrightarrow> x * 16 + a < y * 16 + b \<longleftrightarrow> x < y \<or> (x = y \<and> a < b)"
  by linarith

lemma digit_eq: "(a::nat) < 16 \<Longrightarrow> b < 16 \<Longrightarrow> x * 16 + a = y * 16 + b \<longleftrightarrow> x = y \<and> a = b"
  by (metis add_left_cancel digit_less less_irrefl linorder_less_linear)

text \<open>Comparing the integer scores of two evaluated hands is comparing the hands: first by
  category, then by the tie-break ranks from the highest, absent ones counting as the lowest; and
  equal scores mean equal category and ranks, so only true ties split a pot.\<close>

theorem score_orders_hands:
  assumes "proper_eval x" and "proper_eval y"
  shows "(el_score x < el_score y) =
      ((el_cat x # padded (el_kick x), el_cat y # padded (el_kick y)) \<in> lexord {(a, b). a < b}) \<and>
    (el_score x = el_score y) =
      (el_cat x # padded (el_kick x) = el_cat y # padded (el_kick y))"
proof -
  have kx: "list_all (\<lambda>k. k < 13) (el_kick x)" and ky: "list_all (\<lambda>k. k < 13) (el_kick y)"
    using assms by (simp_all add: proper_eval_def)
  obtain a b d e f where p: "padded (el_kick x) = [a, b, d, e, f]" "a < 16" "b < 16" "d < 16" "e < 16" "f < 16"
    using padded_five [OF kx] .
  obtain a' b' d' e' f' where q: "padded (el_kick y) = [a', b', d', e', f']" "a' < 16" "b' < 16" "d' < 16"
      "e' < 16" "f' < 16"
    using padded_five [OF ky] .
  have x: "el_score x = ((((el_cat x * 16 + a) * 16 + b) * 16 + d) * 16 + e) * 16 + f"
    using assms(1) score_value [of "el_cat x" "el_kick x"] by (simp add: proper_eval_def p(1))
  have y: "el_score y = ((((el_cat y * 16 + a') * 16 + b') * 16 + d') * 16 + e') * 16 + f'"
    using assms(2) score_value [of "el_cat y" "el_kick y"] by (simp add: proper_eval_def q(1))
  show ?thesis
    unfolding x y p(1) q(1)
    by (simp only: digit_less digit_eq p(2-) q(2-)) auto
qed

theorem score_orders_hands_witness:
  "el_score (score 1 [12, 3, 2, 1]) < el_score (score 2 [5, 4, 0])"
  using score_orders_hands [of "score 1 [12, 3, 2, 1]" "score 2 [5, 4, 0]"]
  by (simp add: proper_score) (simp add: score_def)

section \<open>Card names\<close>

text \<open>A card's name reads back as that card, so the names of a hand record stand for its cards and
  no two cards share one.\<close>

theorem card_code_roundtrip:
  "list_all (\<lambda>c. card_of_code (card_code c) = Some c) [0..<52]"
  by code_simp

end
