(* ===== verification/Holdem.thy ===== *)
theory Holdem
  imports Cards
begin

text \<open>
  The hold'em hand of \<open>nostr-bbs-poker/src/engine.rs\<close> (from line 325): the state, the operations that
  advance it, the legal envelope, the action step and the seat view. Chips are natural numbers (the
  code's 64-bit sums stay exact below \<open>2^64\<close>, see \<open>Holdem_Play\<close>); an index out of range is a panic
  (\<^const>\<open>Panics\<close>).
\<close>

section \<open>The state\<close>

definition STREETS :: "string list" where
  "STREETS = [''preflop'', ''flop'', ''turn'', ''river'']"

datatype engine_error =
    BadSeed string
  | NeedTwoPlayers
  | HandOver
  | NotYourTurn nat
  | IllegalAction string "string list"
  | RaiseOutside "nat option" nat nat

record seat =
  se_name :: string
  se_start_stack :: nat
  se_stack :: nat
  se_hole :: "nat list option"
  se_folded :: bool
  se_all_in :: bool
  se_out :: bool
  se_street_commit :: nat
  se_hand_commit :: nat
  se_can_raise :: bool
  se_acted :: bool

record winner =
  wi_seat :: nat
  wi_amount :: nat

record log_entry =
  le_ev :: string
  le_seat :: "nat option"
  le_amount :: "nat option"
  le_to :: "nat option"
  le_street :: "string option"
  le_board :: "nat list option"
  le_sb :: "nat option"
  le_bb :: "nat option"
  le_showdown :: "bool option"
  le_winners :: "winner list option"

definition log_ev :: "string \<Rightarrow> log_entry" where
  "log_ev e = \<lparr>le_ev = e, le_seat = None, le_amount = None, le_to = None, le_street = None,
     le_board = None, le_sb = None, le_bb = None, le_showdown = None, le_winners = None\<rparr>"

record pot =
  po_amount :: nat
  po_contenders :: "nat list"
  po_winners :: "nat list"

record named_eval =
  ne_cat :: nat
  ne_kick :: "nat list"
  ne_score :: nat
  ne_name :: string

text \<open>The map of shown hands is kept by seat number (the code's keys are their decimal texts).\<close>

record hand_result =
  hr_showdown :: bool
  hr_pots :: "pot list"
  hr_evals :: "(nat \<times> named_eval) list option"
  hr_winners :: "winner list"

record seat_config =
  sg_name :: string
  sg_stack :: nat

record hand_config =
  cf_seats :: "seat_config list"
  cf_button :: nat
  cf_sb :: nat
  cf_bb :: nat
  cf_ante :: nat
  cf_seed_hex :: string
  cf_limit :: bool

record action =
  ac_seat :: nat
  ac_action :: string
  ac_amount :: "nat option"

record legal_moves =
  lg_seat :: nat
  lg_actions :: "string list"
  lg_call_amount :: nat
  lg_min_raise_to :: nat
  lg_max_raise_to :: nat
  lg_current_bet :: nat

record hand =
  hd_n :: nat
  hd_button :: nat
  hd_sb :: nat
  hd_bb :: nat
  hd_ante :: nat
  hd_seed_hex :: string
  hd_deck :: "nat list"
  hd_deck_pos :: nat
  hd_board :: "nat list"
  hd_street :: nat
  hd_seats :: "seat list"
  hd_current_bet :: nat
  hd_min_raise_size :: nat
  hd_limit :: bool
  hd_limit_cap :: nat
  hd_street_raises :: nat
  hd_to_act :: int
  hd_phase :: string
  hd_log :: "log_entry list"
  hd_result :: "hand_result option"
  hd_heads_up :: bool
  hd_sb_seat :: nat
  hd_bb_seat :: nat

section \<open>Small steps\<close>

definition obind :: "'a outcome \<Rightarrow> ('a \<Rightarrow> 'b outcome) \<Rightarrow> 'b outcome" where
  "obind x f = (case x of Panics \<Rightarrow> Panics | Returns y \<Rightarrow> f y)"

definition in_play :: "hand \<Rightarrow> bool" where "in_play h \<longleftrightarrow> hd_phase h = ''act''"

definition add_log :: "log_entry \<Rightarrow> hand \<Rightarrow> hand" where
  "add_log e h = h\<lparr>hd_log := hd_log h @ [e]\<rparr>"

definition set_seat :: "nat \<Rightarrow> (seat \<Rightarrow> seat) \<Rightarrow> hand \<Rightarrow> hand" where
  "set_seat i f h = h\<lparr>hd_seats := (hd_seats h)[i := f (hd_seats h ! i)]\<rparr>"

definition order :: "int \<Rightarrow> hand \<Rightarrow> nat list" where
  "order start h = map (\<lambda>k. nat ((start + int k) mod int (hd_n h))) [0..<hd_n h]"

definition commit_seat :: "nat \<Rightarrow> seat \<Rightarrow> seat" where
  "commit_seat amount s =
     (let p = min amount (se_stack s); left = se_stack s - p in
      s\<lparr>se_stack := left, se_street_commit := se_street_commit s + p,
        se_hand_commit := se_hand_commit s + p,
        se_all_in := (if left = 0 then True else se_all_in s)\<rparr>)"

definition commit :: "nat \<Rightarrow> nat \<Rightarrow> string option \<Rightarrow> hand \<Rightarrow> hand" where
  "commit i amount why h =
     (let p = min amount (se_stack (hd_seats h ! i)); h = set_seat i (commit_seat amount) h in
      case why of
        Some ev \<Rightarrow> add_log ((log_ev ev)\<lparr>le_seat := Some i, le_amount := Some p\<rparr>) h
      | None \<Rightarrow> h)"

definition in_hand :: "hand \<Rightarrow> nat \<Rightarrow> bool" where
  "in_hand h i \<longleftrightarrow> \<not> se_out (hd_seats h ! i) \<and> \<not> se_folded (hd_seats h ! i)"

definition can_act :: "hand \<Rightarrow> nat \<Rightarrow> bool" where
  "can_act h i \<longleftrightarrow> in_hand h i \<and> \<not> se_all_in (hd_seats h ! i)"

definition next_actor :: "int \<Rightarrow> hand \<Rightarrow> int" where
  "next_actor start h = (case List.find (can_act h) (order start h) of Some i \<Rightarrow> int i | None \<Rightarrow> - 1)"

definition live_seats :: "hand \<Rightarrow> nat list" where
  "live_seats h = filter (in_hand h) [0..<length (hd_seats h)]"

definition deal_card :: "hand \<Rightarrow> (nat \<times> hand) outcome" where
  "deal_card h =
     (case get_at (hd_deck h) (hd_deck_pos h) of
        Some c \<Rightarrow> Returns (c, h\<lparr>hd_deck_pos := hd_deck_pos h + 1\<rparr>)
      | None \<Rightarrow> Panics)"

definition deal_board :: "hand \<Rightarrow> hand outcome" where
  "deal_board h = obind (deal_card h) (\<lambda>(c, h). Returns (h\<lparr>hd_board := hd_board h @ [c]\<rparr>))"

definition deal_street_cards :: "hand \<Rightarrow> hand outcome" where
  "deal_street_cards h =
     (if hd_street h = 1 then obind (obind (deal_board h) deal_board) deal_board else deal_board h)"

section \<open>The end of a hand\<close>

text \<open>The uncalled tail of the highest commitment goes back to a live seat.\<close>

definition refund :: "hand \<Rightarrow> hand" where
  "refund h =
     (case sort_desc (map se_hand_commit (hd_seats h)) of
        c0 # c1 # _ \<Rightarrow>
          if c0 > c1 then
            (let i = (case position (\<lambda>s. se_hand_commit s = c0) (hd_seats h) of Some i \<Rightarrow> i | None \<Rightarrow> 0) in
             if in_hand h i then
               add_log ((log_ev ''refund'')\<lparr>le_seat := Some i, le_amount := Some (c0 - c1)\<rparr>)
                 (set_seat i (\<lambda>s. s\<lparr>se_stack := se_stack s + (c0 - c1),
                                    se_hand_commit := se_hand_commit s - (c0 - c1)\<rparr>) h)
             else h)
          else h
      | _ \<Rightarrow> h)"

definition total_commit :: "hand \<Rightarrow> nat" where
  "total_commit h = sum_list (map se_hand_commit (hd_seats h))"

definition scoop :: "nat \<Rightarrow> hand \<Rightarrow> hand" where
  "scoop w h =
     (let total = total_commit h;
          h = set_seat w (\<lambda>s. s\<lparr>se_stack := se_stack s + total\<rparr>) h
      in add_log ((log_ev ''win'')\<lparr>le_seat := Some w, le_amount := Some total, le_showdown := Some False\<rparr>)
           (h\<lparr>hd_result := Some \<lparr>hr_showdown = False,
                hr_pots = [\<lparr>po_amount = total, po_contenders = [w], po_winners = [w]\<rparr>],
                hr_evals = None, hr_winners = [\<lparr>wi_seat = w, wi_amount = total\<rparr>]\<rparr>\<rparr>))"

text \<open>Side pots: one slice per level of live commitment, the leftover added to the last.\<close>

fun slice_pots :: "hand \<Rightarrow> nat list \<Rightarrow> nat list \<Rightarrow> nat \<Rightarrow> (nat \<times> nat list) list" where
  "slice_pots h live [] prev = []"
| "slice_pots h live (lv # levels) prev =
     (let amount = sum_list (map (\<lambda>s. min (se_hand_commit s) lv - prev) (hd_seats h));
          contenders = filter (\<lambda>i. se_hand_commit (hd_seats h ! i) \<ge> lv) live
      in (if contenders \<noteq> [] \<and> amount > 0 then [(amount, contenders)] else []) @
         slice_pots h live levels lv)"

definition levels_of :: "hand \<Rightarrow> nat list \<Rightarrow> nat list" where
  "levels_of h live =
     remdups (sort (filter (\<lambda>c. c > 0) (map (\<lambda>i. se_hand_commit (hd_seats h ! i)) live)))"

definition add_leftover :: "nat \<Rightarrow> (nat \<times> nat list) list \<Rightarrow> (nat \<times> nat list) list" where
  "add_leftover leftover pots =
     (if leftover > 0 \<and> pots \<noteq> [] then butlast pots @ [(fst (last pots) + leftover, snd (last pots))]
      else pots)"

definition merge_pot :: "(nat \<times> nat list) list \<Rightarrow> nat \<times> nat list \<Rightarrow> (nat \<times> nat list) list" where
  "merge_pot merged p =
     (if merged \<noteq> [] \<and> snd (last merged) = snd p
      then butlast merged @ [(fst (last merged) + fst p, snd p)]
      else merged @ [p])"

definition side_pots :: "hand \<Rightarrow> nat list \<Rightarrow> (nat \<times> nat list) list" where
  "side_pots h live =
     (let pots = slice_pots h live (levels_of h live) 0;
          leftover = total_commit h - sum_list (map fst pots)
      in foldl merge_pot [] (add_leftover leftover pots))"

text \<open>One winner's share: the odd chips go first to the earliest winner left of the button.\<close>

fun share_out :: "nat \<Rightarrow> nat \<Rightarrow> nat list \<Rightarrow> (nat \<times> nat) list" where
  "share_out share remainder [] = []"
| "share_out share remainder (i # is) =
     (let extra = (if remainder > 0 then 1 else 0) in
      (i, share + extra) # share_out share (remainder - extra) is)"

definition winners_of :: "(nat \<Rightarrow> nat) \<Rightarrow> nat list \<Rightarrow> nat list" where
  "winners_of sc contenders =
     (let best = fold max (map sc contenders) 0 in filter (\<lambda>i. sc i = best) contenders)"

definition pay_pot :: "(nat \<Rightarrow> nat) \<Rightarrow> hand \<Rightarrow> nat \<times> nat list \<Rightarrow> (nat \<times> nat) list" where
  "pay_pot sc h p =
     (let winners = winners_of sc (snd p); share = fst p div length winners
      in share_out share (fst p - share * length winners)
           (filter (\<lambda>i. i \<in> set winners) (order (int (hd_button h) + 1) h)))"

definition credit :: "nat \<times> nat \<Rightarrow> hand \<Rightarrow> hand" where
  "credit x h = set_seat (fst x) (\<lambda>s. s\<lparr>se_stack := se_stack s + snd x\<rparr>) h"

text \<open>The evaluations of the live seats, in seat order.\<close>

fun eval_seats :: "hand \<Rightarrow> nat list \<Rightarrow> (nat \<times> eval) list outcome" where
  "eval_seats h [] = Returns []"
| "eval_seats h (i # is) =
     obind (evaluate ((case se_hole (hd_seats h ! i) of Some cs \<Rightarrow> cs | None \<Rightarrow> []) @ hd_board h)) (\<lambda>e.
     obind (eval_seats h is) (\<lambda>es. Returns ((i, e) # es)))"

definition showdown :: "hand \<Rightarrow> nat list \<Rightarrow> hand outcome" where
  "showdown h live =
     obind (eval_seats h live) (\<lambda>evals.
       let sc = (\<lambda>i. case map_of evals i of Some e \<Rightarrow> el_score e | None \<Rightarrow> 0);
           merged = side_pots h live;
           paid = concat (map (pay_pot sc h) merged);
           total = (\<lambda>i. sum_list (map snd (filter (\<lambda>x. fst x = i) paid)));
           ws = map (\<lambda>i. \<lparr>wi_seat = i, wi_amount = total i\<rparr>)
                  (filter (\<lambda>i. i \<in> set (map fst paid)) [0..<length (hd_seats h)]);
           h' = fold credit paid h
       in Returns ((add_log ((log_ev ''showdown'')\<lparr>le_winners := Some ws\<rparr>) h')
            \<lparr>hd_result := Some \<lparr>hr_showdown = True,
               hr_pots = map (\<lambda>p. \<lparr>po_amount = fst p, po_contenders = snd p,
                                  po_winners = winners_of sc (snd p)\<rparr>) merged,
               hr_evals = Some (map (\<lambda>(i, e). (i, \<lparr>ne_cat = el_cat e, ne_kick = el_kick e,
                                   ne_score = el_score e, ne_name = hand_name e\<rparr>)) evals),
               hr_winners = ws\<rparr>\<rparr>))"

definition finish :: "hand \<Rightarrow> hand outcome" where
  "finish h =
     (let h = h\<lparr>hd_phase := ''done'', hd_to_act := - 1\<rparr>; live = live_seats h; h = refund h in
      if length live = 1 then Returns (scoop (hd live) h) else showdown h live)"

section \<open>Streets\<close>

text \<open>\<open>while street < 3\<close>: as many turns as streets are left, since dealing does not move the street.\<close>

fun run_streets :: "nat \<Rightarrow> hand \<Rightarrow> hand outcome" where
  "run_streets 0 h = Returns h"
| "run_streets (Suc k) h = obind (deal_street_cards (h\<lparr>hd_street := hd_street h + 1\<rparr>)) (run_streets k)"

definition run_out :: "hand \<Rightarrow> hand outcome" where
  "run_out h =
     obind (run_streets (3 - hd_street h) h) (\<lambda>h.
       finish (add_log ((log_ev ''runout'')\<lparr>le_board := Some (hd_board h)\<rparr>) h))"

definition open_street :: "hand \<Rightarrow> hand" where
  "open_street h =
     h\<lparr>hd_street := hd_street h + 1,
       hd_seats := map (\<lambda>s. s\<lparr>se_street_commit := 0, se_acted := False, se_can_raise := True\<rparr>) (hd_seats h),
       hd_current_bet := 0, hd_min_raise_size := hd_bb h, hd_street_raises := 0\<rparr>"

definition next_street :: "hand \<Rightarrow> hand outcome" where
  "next_street h =
     obind (deal_street_cards (open_street h)) (\<lambda>h.
       let h = add_log ((log_ev ''street'')\<lparr>le_street := Some (STREETS ! hd_street h),
                                         le_board := Some (hd_board h)\<rparr>) h;
           h = h\<lparr>hd_to_act := next_actor (int (hd_button h) + 1) h\<rparr>
       in if hd_to_act h = - 1 then run_out h
          else if hd_heads_up h then
            (case List.find (\<lambda>i. i \<noteq> hd_button h) (live_seats h) of
               Some nb \<Rightarrow> Returns (if can_act h nb then h\<lparr>hd_to_act := int nb\<rparr> else h)
             | None \<Rightarrow> Returns h)
          else Returns h)"

definition settled_seat :: "hand \<Rightarrow> nat \<Rightarrow> bool" where
  "settled_seat h i \<longleftrightarrow> se_acted (hd_seats h ! i) \<and> se_street_commit (hd_seats h ! i) = hd_current_bet h"

definition advance :: "hand \<Rightarrow> hand outcome" where
  "advance h =
     (let live = live_seats h; actors = filter (can_act h) live in
      if length live = 1 then finish h
      else if \<not> list_all (settled_seat h) actors then
        (let h = h\<lparr>hd_to_act := next_actor (hd_to_act h + 1) h\<rparr> in
         if hd_to_act h = - 1 then run_out h else Returns h)
      else if length actors \<le> 1 then run_out h
      else if hd_street h = 3 then finish h
      else next_street h)"

section \<open>The deal\<close>

definition fresh_hand :: "hand_config \<Rightarrow> nat list \<Rightarrow> hand" where
  "fresh_hand cfg deck =
     \<lparr>hd_n = length (cf_seats cfg), hd_button = cf_button cfg, hd_sb = cf_sb cfg, hd_bb = cf_bb cfg,
      hd_ante = cf_ante cfg, hd_seed_hex = cf_seed_hex cfg, hd_deck = deck, hd_deck_pos = 0,
      hd_board = [], hd_street = 0,
      hd_seats = map (\<lambda>s. \<lparr>se_name = sg_name s, se_start_stack = sg_stack s, se_stack = sg_stack s,
         se_hole = None, se_folded = False, se_all_in = False, se_out = (sg_stack s = 0),
         se_street_commit = 0, se_hand_commit = 0, se_can_raise = True, se_acted = False\<rparr>) (cf_seats cfg),
      hd_current_bet = 0, hd_min_raise_size = cf_bb cfg, hd_limit = cf_limit cfg, hd_limit_cap = 4,
      hd_street_raises = (if cf_limit cfg then 1 else 0), hd_to_act = - 1, hd_phase = ''act'',
      hd_log = [], hd_result = None, hd_heads_up = False, hd_sb_seat = 0, hd_bb_seat = 0\<rparr>"

text \<open>One card to each seat that is in, clockwise from the button; \<open>new_hand\<close> does it twice.\<close>

fun deal_round :: "nat list \<Rightarrow> hand \<Rightarrow> hand outcome" where
  "deal_round [] h = Returns h"
| "deal_round (i # is) h =
     (if se_out (hd_seats h ! i) then deal_round is h
      else obind (deal_card h) (\<lambda>(c, h). deal_round is
        (set_seat i (\<lambda>s. s\<lparr>se_hole := Some ((case se_hole s of Some cs \<Rightarrow> cs | None \<Rightarrow> []) @ [c])\<rparr>) h)))"

definition post_blinds :: "hand_config \<Rightarrow> nat list \<Rightarrow> nat \<Rightarrow> nat \<Rightarrow> hand \<Rightarrow> hand" where
  "post_blinds cfg live sb_seat bb_seat h =
     (let h = (if cf_ante cfg > 0 then fold (\<lambda>i. commit i (cf_ante cfg) (Some ''ante'')) live h else h);
          h = commit sb_seat (cf_sb cfg) (Some ''sb'') h;
          h = commit bb_seat (cf_bb cfg) (Some ''bb'') h
      in h\<lparr>hd_current_bet := fold max (map se_street_commit (hd_seats h)) 0,
           hd_min_raise_size := cf_bb cfg\<rparr>)"

definition new_hand :: "hand_config \<Rightarrow> (engine_error + hand) outcome" where
  "new_hand cfg =
     (case shuffled_deck (cf_seed_hex cfg) of
        Inl err \<Rightarrow> Returns (Inl (BadSeed err))
      | Inr deck \<Rightarrow>
          (let h = fresh_hand cfg deck;
               from_button = order (int (cf_button cfg) + 1) h;
               live = filter (\<lambda>i. \<not> se_out (hd_seats h ! i)) from_button;
               heads_up = (length live = 2);
               sb_seat = (if heads_up then cf_button cfg else live ! 0);
               bb_seat = (if heads_up then
                   (case List.find (\<lambda>i. i \<noteq> cf_button cfg) live of Some i \<Rightarrow> i | None \<Rightarrow> live ! 1)
                 else live ! 1)
           in if length live < 2 then Returns (Inl NeedTwoPlayers)
              else if sb_seat \<ge> length (hd_seats h) then Panics
              else obind (deal_round from_button (post_blinds cfg live sb_seat bb_seat h)) (\<lambda>h.
                   obind (deal_round from_button h) (\<lambda>h.
                   let h = h\<lparr>hd_to_act := (if heads_up then int sb_seat else next_actor (int bb_seat + 1) h),
                             hd_heads_up := heads_up, hd_sb_seat := sb_seat, hd_bb_seat := bb_seat\<rparr>;
                       h = add_log ((log_ev ''deal'')\<lparr>le_sb := Some sb_seat, le_bb := Some bb_seat\<rparr>) h
                   in if filter (can_act h) (live_seats h) = []
                      then obind (run_out h) (\<lambda>h. Returns (Inr h))
                      else Returns (Inr h)))))"

section \<open>Actions\<close>

definition legal :: "hand \<Rightarrow> legal_moves option outcome" where
  "legal h =
     (if \<not> in_play h then Returns None
      else if hd_to_act h < 0 \<or> nat (hd_to_act h) \<ge> length (hd_seats h) then Panics
      else
        (let i = nat (hd_to_act h); s = hd_seats h ! i;
             call_amt = min (hd_current_bet h - se_street_commit s) (se_stack s);
             behind = se_street_commit s + se_stack s;
             bet_size = (if hd_street h \<le> 1 then hd_bb h else hd_bb h * 2);
             may_raise = (behind > hd_current_bet h \<and> se_can_raise s \<and>
                          \<not> (hd_limit h \<and> hd_street_raises h \<ge> hd_limit_cap h));
             min_to = (if hd_limit h then min (hd_current_bet h + bet_size) behind
                       else hd_current_bet h + hd_min_raise_size h);
             max_to = (if hd_limit h then (if may_raise then min_to else behind) else behind)
         in Returns (Some
              \<lparr>lg_seat = i,
               lg_actions = [''fold'', if call_amt = 0 then ''check'' else ''call''] @
                 (if may_raise then [if hd_current_bet h = 0 then ''bet'' else ''raise''] else []),
               lg_call_amount = call_amt,
               lg_min_raise_to = (if may_raise \<and> min_to > max_to then max_to else min_to),
               lg_max_raise_to = max_to, lg_current_bet = hd_current_bet h\<rparr>)))"

text \<open>A bet or raise to \<open>amount\<close>: a full raise reopens the betting; an under-raise all-in does not.\<close>

definition raise_to :: "nat \<Rightarrow> nat \<Rightarrow> hand \<Rightarrow> hand" where
  "raise_to i amount h =
     (let raise_size = amount - hd_current_bet h;
          full_raise = (raise_size \<ge> hd_min_raise_size h);
          h = h\<lparr>hd_street_raises := hd_street_raises h + 1\<rparr>;
          h = commit i (amount - se_street_commit (hd_seats h ! i)) None h;
          ev = (if hd_current_bet h = 0 then ''bet'' else ''raise'');
          h = add_log ((log_ev ev)\<lparr>le_seat := Some i, le_to := Some amount\<rparr>) h;
          h = h\<lparr>hd_current_bet := amount\<rparr>
      in if full_raise then
           h\<lparr>hd_min_raise_size := raise_size,
             hd_seats := map (\<lambda>(k, s). if k \<noteq> i then s\<lparr>se_can_raise := True, se_acted := False\<rparr> else s)
                           (enumerate 0 (hd_seats h))\<rparr>
         else
           h\<lparr>hd_seats := map (\<lambda>(k, s). if k \<noteq> i \<and> se_acted s then s\<lparr>se_can_raise := False\<rparr> else s)
                           (enumerate 0 (hd_seats h))\<rparr>)"

definition play_move :: "legal_moves \<Rightarrow> action \<Rightarrow> hand \<Rightarrow> engine_error + hand" where
  "play_move l a h =
     (let i = ac_seat a; e = (\<lambda>ev. (log_ev ev)\<lparr>le_seat := Some i\<rparr>) in
      if ac_action a = ''fold'' then
        Inr (add_log (e ''fold'') (set_seat i (\<lambda>s. s\<lparr>se_folded := True\<rparr>) h))
      else if ac_action a = ''check'' then Inr (add_log (e ''check'') h)
      else if ac_action a = ''call'' then
        Inr (add_log ((e ''call'')\<lparr>le_amount := Some (lg_call_amount l)\<rparr>) (commit i (lg_call_amount l) None h))
      else (case ac_amount a of
              Some x \<Rightarrow>
                if lg_min_raise_to l \<le> x \<and> x \<le> lg_max_raise_to l then Inr (raise_to i x h)
                else Inl (RaiseOutside (Some x) (lg_min_raise_to l) (lg_max_raise_to l))
            | None \<Rightarrow> Inl (RaiseOutside None (lg_min_raise_to l) (lg_max_raise_to l))))"

definition act :: "hand \<Rightarrow> action \<Rightarrow> (engine_error + hand) outcome" where
  "act h a =
     (if \<not> in_play h then Returns (Inl HandOver)
      else if int (ac_seat a) \<noteq> hd_to_act h then Returns (Inl (NotYourTurn (ac_seat a)))
      else obind (legal h) (\<lambda>lo.
        case lo of
          None \<Rightarrow> Returns (Inl HandOver)
        | Some l \<Rightarrow>
            if ac_action a \<notin> set (lg_actions l) then Returns (Inl (IllegalAction (ac_action a) (lg_actions l)))
            else (case play_move l a h of
                    Inl err \<Rightarrow> Returns (Inl err)
                  | Inr h \<Rightarrow> obind (advance (set_seat (ac_seat a) (\<lambda>s. s\<lparr>se_acted := True\<rparr>) h))
                               (\<lambda>h. Returns (Inr h)))))"

section \<open>What a seat sees\<close>

record view_seat =
  vs_name :: string
  vs_stack :: nat
  vs_folded :: bool
  vs_all_in :: bool
  vs_out :: bool
  vs_street_commit :: nat
  vs_hand_commit :: nat
  vs_hole :: "nat list option"

record seat_view_rec =
  sv_seat :: nat
  sv_street :: string
  sv_board :: "nat list"
  sv_phase :: string
  sv_to_act :: int
  sv_current_bet :: nat
  sv_min_raise_to :: "nat option"
  sv_button :: nat
  sv_sb :: nat
  sv_bb :: nat
  sv_hole :: "nat list option"
  sv_pot :: nat
  sv_seats :: "view_seat list"
  sv_result :: "hand_result option"

definition shown :: "hand \<Rightarrow> nat \<Rightarrow> nat \<Rightarrow> bool" where
  "shown h viewer i \<longleftrightarrow> i = viewer \<or>
     (\<not> in_play h \<and> (case hd_result h of Some r \<Rightarrow> hr_showdown r | None \<Rightarrow> False) \<and>
      \<not> se_folded (hd_seats h ! i) \<and> \<not> se_out (hd_seats h ! i))"

definition view_of :: "hand \<Rightarrow> nat \<Rightarrow> nat \<Rightarrow> view_seat" where
  "view_of h viewer i =
     (let s = hd_seats h ! i in
      \<lparr>vs_name = se_name s, vs_stack = se_stack s, vs_folded = se_folded s, vs_all_in = se_all_in s,
       vs_out = se_out s, vs_street_commit = se_street_commit s, vs_hand_commit = se_hand_commit s,
       vs_hole = (if shown h viewer i then se_hole s else None)\<rparr>)"

definition seat_view :: "hand \<Rightarrow> nat \<Rightarrow> seat_view_rec outcome" where
  "seat_view h viewer =
     obind (if in_play h \<and> hd_to_act h = int viewer then legal h else Returns None) (\<lambda>l.
       case get_at STREETS (hd_street h) of
         None \<Rightarrow> Panics
       | Some street \<Rightarrow> Returns
           \<lparr>sv_seat = viewer, sv_street = street, sv_board = hd_board h, sv_phase = hd_phase h,
            sv_to_act = hd_to_act h, sv_current_bet = hd_current_bet h,
            sv_min_raise_to = map_option lg_min_raise_to l, sv_button = hd_button h, sv_sb = hd_sb h,
            sv_bb = hd_bb h,
            sv_hole = Option.bind (get_at (hd_seats h) viewer) se_hole,
            sv_pot = total_commit h,
            sv_seats = map (view_of h viewer) [0..<length (hd_seats h)],
            sv_result = (if in_play h then None else hd_result h)\<rparr>)"

end
