(* ===== verification/Holdem_Play.thy ===== *)
theory Holdem_Play
  imports Holdem
begin

text \<open>
  Chips through the end of a hand: the side pots add up to what was committed, every pot is shared out
  to the last odd chip, and a showdown moves exactly the committed chips back into the stacks.
\<close>

section \<open>Chips\<close>

definition stacks :: "hand \<Rightarrow> nat" where
  "stacks h = sum_list (map se_stack (hd_seats h))"

definition starts :: "hand \<Rightarrow> nat" where
  "starts h = sum_list (map se_start_stack (hd_seats h))"

lemma sum_list_update_le:
  "i < length xs \<Longrightarrow> sum_list (map f (xs[i := y])) + f (xs ! i) = sum_list (map f xs) + (f y :: nat)"
  by (induction xs arbitrary: i) (auto split: nat.split)

lemma set_seat_length [simp]: "length (hd_seats (set_seat i f h)) = length (hd_seats h)"
  by (simp add: set_seat_def)

lemma set_seat_frame [simp]:
  "hd_n (set_seat i f h) = hd_n h" "hd_button (set_seat i f h) = hd_button h"
  "hd_board (set_seat i f h) = hd_board h" "hd_phase (set_seat i f h) = hd_phase h"
  "hd_to_act (set_seat i f h) = hd_to_act h" "hd_street (set_seat i f h) = hd_street h"
  "hd_deck (set_seat i f h) = hd_deck h" "hd_deck_pos (set_seat i f h) = hd_deck_pos h"
  "hd_bb (set_seat i f h) = hd_bb h" "hd_current_bet (set_seat i f h) = hd_current_bet h"
  "hd_min_raise_size (set_seat i f h) = hd_min_raise_size h" "hd_limit (set_seat i f h) = hd_limit h"
  "hd_result (set_seat i f h) = hd_result h" "hd_heads_up (set_seat i f h) = hd_heads_up h"
  "hd_street_raises (set_seat i f h) = hd_street_raises h" "hd_limit_cap (set_seat i f h) = hd_limit_cap h"
  by (simp_all add: set_seat_def)

lemma add_log_frame [simp]:
  "hd_n (add_log e h) = hd_n h" "hd_button (add_log e h) = hd_button h"
  "hd_board (add_log e h) = hd_board h" "hd_phase (add_log e h) = hd_phase h"
  "hd_to_act (add_log e h) = hd_to_act h" "hd_street (add_log e h) = hd_street h"
  "hd_deck (add_log e h) = hd_deck h" "hd_deck_pos (add_log e h) = hd_deck_pos h"
  "hd_bb (add_log e h) = hd_bb h" "hd_current_bet (add_log e h) = hd_current_bet h"
  "hd_min_raise_size (add_log e h) = hd_min_raise_size h" "hd_limit (add_log e h) = hd_limit h"
  "hd_seats (add_log e h) = hd_seats h" "hd_result (add_log e h) = hd_result h"
  "hd_heads_up (add_log e h) = hd_heads_up h"
  "hd_street_raises (add_log e h) = hd_street_raises h" "hd_limit_cap (add_log e h) = hd_limit_cap h"
  by (simp_all add: add_log_def)

lemma seats_only:
  "hd_seats h' = hd_seats h \<Longrightarrow> stacks h' = stacks h"
  "hd_seats h' = hd_seats h \<Longrightarrow> starts h' = starts h"
  "hd_seats h' = hd_seats h \<Longrightarrow> total_commit h' = total_commit h"
  by (simp_all add: stacks_def starts_def total_commit_def)

lemma live_seats_cong: "hd_seats h' = hd_seats h \<Longrightarrow> live_seats h' = live_seats h"
  by (simp add: live_seats_def in_hand_def cong: filter_cong)

lemma stacks_set_seat:
  assumes "i < length (hd_seats h)"
  shows "stacks (set_seat i f h) + se_stack (hd_seats h ! i) = stacks h + se_stack (f (hd_seats h ! i))"
  using sum_list_update_le [OF assms, of se_stack] by (simp add: stacks_def set_seat_def)

lemma commits_set_seat:
  assumes "i < length (hd_seats h)"
  shows "total_commit (set_seat i f h) + se_hand_commit (hd_seats h ! i) =
    total_commit h + se_hand_commit (f (hd_seats h ! i))"
  using sum_list_update_le [OF assms, of se_hand_commit] by (simp add: total_commit_def set_seat_def)

lemma starts_set_seat:
  assumes "i < length (hd_seats h)" and "se_start_stack (f (hd_seats h ! i)) = se_start_stack (hd_seats h ! i)"
  shows "starts (set_seat i f h) = starts h"
  using sum_list_update_le [OF assms(1), of se_start_stack "f (hd_seats h ! i)"] assms(2)
  by (simp add: starts_def set_seat_def)

section \<open>Pots\<close>

lemma slice_pots_le:
  "sorted (prev # levels) \<Longrightarrow>
   sum_list (map fst (slice_pots h live levels prev)) \<le> sum_list (map (\<lambda>s. se_hand_commit s - prev) (hd_seats h))"
proof (induction levels arbitrary: prev)
  case (Cons lv levels)
  let ?a = "sum_list (map (\<lambda>s. min (se_hand_commit s) lv - prev) (hd_seats h))"
  from Cons.prems have "prev \<le> lv" by simp
  then have "?a + sum_list (map (\<lambda>s. se_hand_commit s - lv) (hd_seats h)) \<le>
      sum_list (map (\<lambda>s. se_hand_commit s - prev) (hd_seats h))"
    by (subst sum_list_addf [symmetric]) (rule sum_list_mono, simp)
  with Cons.IH [of lv] Cons.prems show ?case by (auto simp: Let_def)
qed simp

lemma slice_pots_contenders:
  "p \<in> set (slice_pots h live levels prev) \<Longrightarrow> snd p \<noteq> [] \<and> (\<exists>P. snd p = filter P live)"
  by (induction levels arbitrary: prev) (auto simp: Let_def split: if_splits)

lemma remdups_sorted: "sorted xs \<Longrightarrow> sorted (remdups xs)"
  by (rule sorted_remdups)

lemma merge_pots_sum: "sum_list (map fst (foldl merge_pot m ps)) = sum_list (map fst m) + sum_list (map fst ps)"
proof (induction ps arbitrary: m)
  case (Cons p ps)
  have "sum_list (map fst (merge_pot m p)) = sum_list (map fst m) + fst p"
    by (cases m rule: rev_cases) (auto simp: merge_pot_def)
  with Cons show ?case by simp
qed simp

lemma merge_pots_contenders:
  "q \<in> set (foldl merge_pot m ps) \<Longrightarrow> \<exists>p \<in> set m \<union> set ps. snd q = snd p"
proof (induction ps arbitrary: m)
  case (Cons p ps)
  have step: "x \<in> set (merge_pot m p) \<Longrightarrow> \<exists>y \<in> set m \<union> {p}. snd x = snd y" for x
    by (cases m rule: rev_cases) (auto simp: merge_pot_def split: if_splits)
  from Cons.IH [of "merge_pot m p"] Cons.prems obtain y where
    "y \<in> set (merge_pot m p) \<union> set ps" "snd q = snd y" by auto
  with step [of y] show ?case by (cases "y \<in> set ps") auto
qed auto

lemma add_leftover_sum:
  "pots \<noteq> [] \<Longrightarrow> sum_list (map fst (add_leftover k pots)) = sum_list (map fst pots) + k"
  by (cases pots rule: rev_cases) (auto simp: add_leftover_def)

lemma add_leftover_contenders: "q \<in> set (add_leftover k pots) \<Longrightarrow> \<exists>p \<in> set pots. snd q = snd p"
  by (cases pots rule: rev_cases) (auto simp: add_leftover_def split: if_splits)

lemma side_pots_sum:
  assumes "i \<in> set live" and "se_hand_commit (hd_seats h ! i) > 0" and "i < length (hd_seats h)"
  shows "sum_list (map fst (side_pots h live)) = total_commit h"
proof -
  let ?pots = "slice_pots h live (levels_of h live) 0"
  have sorted: "sorted (levels_of h live)"
    by (simp add: levels_of_def sorted_remdups)
  have mem: "se_hand_commit (hd_seats h ! i) \<in> set (levels_of h live)"
    using assms by (auto simp: levels_of_def)
  then obtain lv rest where lv: "levels_of h live = lv # rest" by (cases "levels_of h live") auto
  then have "lv \<in> set (levels_of h live)" by simp
  then obtain j where j: "j \<in> set live" "se_hand_commit (hd_seats h ! j) = lv" "lv > 0"
    by (auto simp: levels_of_def)
  have le: "lv \<le> se_hand_commit (hd_seats h ! i)" using sorted mem lv by auto
  have "min (se_hand_commit (hd_seats h ! i)) lv - 0 \<le>
      sum_list (map (\<lambda>s. min (se_hand_commit s) lv - 0) (hd_seats h))"
    by (rule member_le_sum_list) (use assms(3) in auto)
  with le j(3) have pos: "sum_list (map (\<lambda>s. min (se_hand_commit s) lv - 0) (hd_seats h)) > 0" by linarith
  have "j \<in> set (filter (\<lambda>i. se_hand_commit (hd_seats h ! i) \<ge> lv) live)"
    using j by simp
  then have con: "filter (\<lambda>i. se_hand_commit (hd_seats h ! i) \<ge> lv) live \<noteq> []" by (metis empty_iff empty_set)
  have "\<exists>p R. ?pots = [p] @ R"
    by (simp only: lv slice_pots.simps Let_def con pos not_False_eq_True simp_thms if_True) blast
  then have ne: "?pots \<noteq> []" by force
  have "sum_list (map fst ?pots) \<le> total_commit h"
    using slice_pots_le [of 0 "levels_of h live" h live] sorted by (simp add: total_commit_def)
  then show ?thesis
    by (simp add: side_pots_def Let_def merge_pots_sum add_leftover_sum [OF ne])
qed

lemma side_pots_le: "sum_list (map fst (side_pots h live)) \<le> total_commit h"
proof -
  let ?pots = "slice_pots h live (levels_of h live) 0"
  have "sorted (levels_of h live)"
    by (simp add: levels_of_def sorted_remdups)
  then have "sum_list (map fst ?pots) \<le> total_commit h"
    using slice_pots_le [of 0 "levels_of h live" h live] by (simp add: total_commit_def)
  moreover have "sum_list (map fst (add_leftover k ?pots)) \<le> sum_list (map fst ?pots) + k" for k
    by (cases "?pots = []") (simp_all add: add_leftover_sum, simp add: add_leftover_def)
  from this [of "total_commit h - sum_list (map fst ?pots)"] calculation
  show ?thesis by (simp add: side_pots_def Let_def merge_pots_sum)
qed

lemma side_pots_contenders:
  assumes "q \<in> set (side_pots h live)" shows "snd q \<noteq> [] \<and> (\<exists>P. snd q = filter P live)"
proof -
  let ?pots = "slice_pots h live (levels_of h live) 0"
  have "\<exists>p \<in> set ?pots. snd q = snd p"
    using merge_pots_contenders [OF assms [unfolded side_pots_def Let_def]] add_leftover_contenders
    by (metis Un_iff empty_iff list.set(1))
  with slice_pots_contenders show ?thesis by metis
qed

section \<open>Paying out\<close>

lemma share_out_sum:
  "r \<le> length is \<Longrightarrow> sum_list (map snd (share_out q r is)) = q * length is + r"
  by (induction "is" arbitrary: r) (auto simp: Let_def)

lemma distinct_mset_eq: "\<lbrakk>distinct xs; distinct ys; set xs = set ys\<rbrakk> \<Longrightarrow> mset xs = mset ys"
  by (simp add: set_eq_iff_mset_eq_distinct)

lemma sum_list_concat_map:
  "sum_list (map f (concat (map g xs))) = sum_list (map (\<lambda>x. sum_list (map f (g x))) xs)"
  by (induction xs) simp_all

lemma share_out_seats: "map fst (share_out q r is) = is"
  by (induction "is" arbitrary: r) (simp_all add: Let_def)

text \<open>The seating order from any seat is a permutation of the seats.\<close>

lemma order_perm:
  assumes "0 \<le> start" shows "mset (order start h) = mset [0..<hd_n h]"
proof (cases "hd_n h = 0")
  case False
  let ?f = "\<lambda>k. nat ((start + int k) mod int (hd_n h))"
  have inj: "inj_on ?f {0..<hd_n h}"
  proof (rule inj_onI)
    fix x y assume x: "x \<in> {0..<hd_n h}" "y \<in> {0..<hd_n h}" "?f x = ?f y"
    have "(start + int x) mod int (hd_n h) = (start + int y) mod int (hd_n h)"
      using x(3) False by (simp add: nat_eq_iff)
    then have "int x mod int (hd_n h) = int y mod int (hd_n h)"
      by (metis mod_add_cong add_diff_cancel_left' mod_diff_cong)
    with x(1,2) show "x = y" by simp
  qed
  have "?f ` {0..<hd_n h} \<subseteq> {0..<hd_n h}"
    using False by (auto simp: nat_less_iff)
  then have "?f ` {0..<hd_n h} = {0..<hd_n h}"
    by (intro endo_inj_surj inj) simp_all
  then have "set (order start h) = set [0..<hd_n h]"
    by (simp add: order_def)
  moreover have "distinct (order start h)"
    using inj by (simp add: order_def distinct_map)
  ultimately show ?thesis by (intro distinct_mset_eq) simp_all
qed (simp add: order_def)

lemma winners_of_some: "cs \<noteq> [] \<Longrightarrow> winners_of sc cs \<noteq> []"
proof -
  assume "cs \<noteq> []"
  have "fold max (map sc cs) 0 = Max (set (0 # map sc cs))"
    by (metis Max.set_eq_fold list.simps(15) set_ConsD)
  also have "\<dots> = Max (set (map sc cs))"
    using \<open>cs \<noteq> []\<close> by (auto intro: Max_eqI simp: max_def)
  also have "\<dots> \<in> set (map sc cs)"
    using \<open>cs \<noteq> []\<close> by (intro Max_in) auto
  finally show ?thesis by (auto simp: winners_of_def filter_empty_conv Let_def)
qed

lemma pay_pot_sum:
  assumes "snd p \<noteq> []" and "distinct (snd p)" and "set (snd p) \<subseteq> {0..<hd_n h}"
  shows "sum_list (map snd (pay_pot sc h p)) = fst p"
proof -
  let ?w = "winners_of sc (snd p)" and ?is = "filter (\<lambda>i. i \<in> set (winners_of sc (snd p))) (order (int (hd_button h) + 1) h)"
  have w: "distinct ?w" "set ?w \<subseteq> {0..<hd_n h}" "?w \<noteq> []"
    using assms winners_of_some by (auto simp: winners_of_def Let_def)
  have ord: "mset (order (int (hd_button h) + 1) h) = mset [0..<hd_n h]"
    by (rule order_perm) simp
  have "mset ?is = mset ?w"
  proof (rule distinct_mset_eq)
    show "distinct ?is" using mset_eq_imp_distinct_iff [OF ord] by simp
    show "set ?is = set ?w" using mset_eq_setD [OF ord] w(2) by auto
  qed (rule w(1))
  then have len: "length ?is = length ?w" by (rule mset_eq_length)
  have "fst p - fst p div length ?w * length ?w = fst p mod length ?w"
    by (simp add: minus_div_mult_eq_mod)
  moreover have "fst p mod length ?w \<le> length ?is"
    using w(3) len by (simp add: less_imp_le)
  ultimately show ?thesis
    using share_out_sum [of "fst p mod length ?w" ?is "fst p div length ?w"] len
    by (simp add: pay_pot_def Let_def)
qed

lemma pay_pot_seats:
  "x \<in> set (pay_pot sc h p) \<Longrightarrow> fst x \<in> set (snd p)"
proof -
  assume "x \<in> set (pay_pot sc h p)"
  then have "fst x \<in> set (map fst (pay_pot sc h p))" by simp
  then show ?thesis
    by (auto simp: pay_pot_def Let_def share_out_seats winners_of_def)
qed

lemma credit_frame [simp]:
  "length (hd_seats (credit x h)) = length (hd_seats h)" "hd_n (credit x h) = hd_n h"
  "hd_phase (credit x h) = hd_phase h" "hd_to_act (credit x h) = hd_to_act h"
  by (simp_all add: credit_def)

lemma fold_credit:
  assumes "\<And>x. x \<in> set xs \<Longrightarrow> fst x < length (hd_seats h)"
  shows "stacks (fold credit xs h) = stacks h + sum_list (map snd xs) \<and> starts (fold credit xs h) = starts h \<and>
    length (hd_seats (fold credit xs h)) = length (hd_seats h) \<and> hd_phase (fold credit xs h) = hd_phase h \<and>
    hd_to_act (fold credit xs h) = hd_to_act h"
  using assms
proof (induction xs arbitrary: h)
  case (Cons x xs)
  then have x: "fst x < length (hd_seats h)" by simp
  have "stacks (credit x h) = stacks h + snd x"
    using stacks_set_seat [OF x, of "\<lambda>s. s\<lparr>se_stack := se_stack s + snd x\<rparr>"] by (simp add: credit_def)
  moreover have "starts (credit x h) = starts h"
    unfolding credit_def by (rule starts_set_seat [OF x]) simp
  ultimately show ?case
    using Cons.IH [of "credit x h"] Cons.prems by simp
qed simp

lemma evaluate_returns: "cards \<noteq> [] \<Longrightarrow> \<exists>e. evaluate cards = Returns e"
proof -
  assume "cards \<noteq> []"
  then have "by_rank cards (rank_of (hd cards)) > 0"
    by (cases cards) (simp_all add: by_rank_def)
  then have "(by_rank cards (rank_of (hd cards)), rank_of (hd cards)) \<in> set (groups_of cards)"
    by (auto simp: groups_ranks)
  then show ?thesis by (auto simp: evaluate_def split: option.split list.split)
qed

lemma eval_seats_returns: "hd_board h \<noteq> [] \<Longrightarrow> \<exists>es. eval_seats h is = Returns es"
proof (induction "is")
  case (Cons i "is")
  from Cons obtain es where "eval_seats h is = Returns es" by blast
  moreover obtain e where
    "evaluate ((case se_hole (hd_seats h ! i) of Some cs \<Rightarrow> cs | None \<Rightarrow> []) @ hd_board h) = Returns e"
    using evaluate_returns Cons.prems by (metis append_is_Nil_conv)
  ultimately show ?case by (simp add: obind_def)
qed simp

lemma showdown_pays:
  assumes "hd_board h \<noteq> []" and "hd_n h = length (hd_seats h)"
    and "live = filter P [0..<length (hd_seats h)]"
    and "total_commit h = 0 \<or> (\<exists>i \<in> set live. se_hand_commit (hd_seats h ! i) > 0)"
  shows "\<exists>h'. showdown h live = Returns h' \<and> stacks h' = stacks h + total_commit h \<and> starts h' = starts h \<and>
    hd_phase h' = hd_phase h \<and> hd_to_act h' = hd_to_act h \<and> length (hd_seats h') = length (hd_seats h)"
proof -
  obtain es where es: "eval_seats h live = Returns es"
    using eval_seats_returns [OF assms(1)] by blast
  let ?sc = "\<lambda>i. case map_of es i of Some e \<Rightarrow> el_score e | None \<Rightarrow> 0"
  let ?paid = "concat (map (pay_pot ?sc h) (side_pots h live))"
  have pot: "snd p \<noteq> []" "distinct (snd p)" "set (snd p) \<subseteq> {0..<hd_n h}" if "p \<in> set (side_pots h live)" for p
    using side_pots_contenders [OF that] assms(2,3) by auto
  have "sum_list (map snd ?paid) = sum_list (map (\<lambda>p. sum_list (map snd (pay_pot ?sc h p))) (side_pots h live))"
    by (rule sum_list_concat_map)
  also have "\<dots> = sum_list (map fst (side_pots h live))"
    using pay_pot_sum [OF pot] by (metis (no_types, lifting) map_eq_conv)
  also have "\<dots> = total_commit h"
  proof (cases "total_commit h = 0")
    case True
    with side_pots_le [of h live] show ?thesis by simp
  next
    case False
    with assms(3,4) show ?thesis by (auto intro: side_pots_sum)
  qed
  finally have sum: "sum_list (map snd ?paid) = total_commit h" .
  have "fst x < length (hd_seats h)" if x: "x \<in> set ?paid" for x
  proof -
    obtain p where p: "p \<in> set (side_pots h live)" "x \<in> set (pay_pot ?sc h p)"
      using x unfolding set_concat set_map by blast
    show ?thesis
      using subsetD [OF pot(3) [OF p(1)] pay_pot_seats [OF p(2)]] assms(2) by simp
  qed
  note f = fold_credit [of ?paid, OF this]
  show ?thesis
    unfolding showdown_def es obind_def
    using f sum by (simp add: Let_def stacks_def starts_def)
qed

end
