(* ===== verification/Holdem_Safe.thy ===== *)
theory Holdem_Safe
  imports Holdem_Play
begin

text \<open>
  The invariant of a hand in play and its preservation by every step of the engine: the deal, the
  moves, the streets, the run-out and the end of the hand. The deck serves a table of at most
  twenty-three seats (two cards each and five for the board).
\<close>

section \<open>The invariant of a hand in play\<close>

definition seat_live :: "seat \<Rightarrow> bool" where
  "seat_live s \<longleftrightarrow> \<not> se_out s \<and> \<not> se_folded s"

definition whole_seat :: "seat \<Rightarrow> bool" where
  "whole_seat s \<longleftrightarrow> se_stack s + se_hand_commit s = se_start_stack s"

definition seat_ok :: "nat \<Rightarrow> seat \<Rightarrow> bool" where
  "seat_ok bet s \<longleftrightarrow> whole_seat s \<and> (se_out s \<longleftrightarrow> se_start_stack s = 0) \<and>
     (se_stack s = 0 \<longleftrightarrow> se_all_in s \<or> se_out s) \<and>
     se_street_commit s \<le> se_hand_commit s \<and> se_street_commit s \<le> bet"

definition board_len :: "nat \<Rightarrow> nat" where
  "board_len street = (if street = 0 then 0 else street + 2)"

definition pot_ok :: "seat list \<Rightarrow> bool" where
  "pot_ok ss \<longleftrightarrow> (\<forall>s \<in> set ss. se_hand_commit s = se_street_commit s) \<or>
     (\<forall>s \<in> set ss. seat_live s \<longrightarrow> se_hand_commit s > 0)"

definition table_ok :: "hand \<Rightarrow> bool" where
  "table_ok h \<longleftrightarrow> in_play h \<and> hd_n h = length (hd_seats h) \<and>
     (\<forall>s \<in> set (hd_seats h). seat_ok (hd_current_bet h) s) \<and> pot_ok (hd_seats h) \<and>
     hd_street h \<le> 3 \<and> length (hd_board h) = board_len (hd_street h) \<and>
     hd_deck_pos h + (5 - board_len (hd_street h)) \<le> length (hd_deck h) \<and>
     0 \<le> hd_to_act h \<and> hd_to_act h < int (hd_n h)"

definition play_ok :: "hand \<Rightarrow> bool" where
  "play_ok h \<longleftrightarrow> table_ok h \<and> 2 \<le> length (live_seats h)"

text \<open>How a finished hand relates to the one it ends: every stack is paid and none is made up.\<close>

definition paid_out :: "nat \<Rightarrow> hand \<Rightarrow> bool" where
  "paid_out buy_in h \<longleftrightarrow> \<not> in_play h \<and> starts h = buy_in \<and> stacks h = buy_in \<and> hd_to_act h = - 1"

lemma in_hand_live: "in_hand h i = seat_live (hd_seats h ! i)"
  by (simp add: in_hand_def seat_live_def)

lemma live_seats_members: "i \<in> set (live_seats h) \<longleftrightarrow> i < length (hd_seats h) \<and> seat_live (hd_seats h ! i)"
  by (auto simp: live_seats_def in_hand_live)

lemma whole_sum:
  "\<forall>s \<in> set (hd_seats h). whole_seat s \<Longrightarrow> stacks h + total_commit h = starts h"
proof -
  have "\<forall>s \<in> set ss. whole_seat s \<Longrightarrow>
     sum_list (map se_stack ss) + sum_list (map se_hand_commit ss) = sum_list (map se_start_stack ss)" for ss
    by (induction ss) (auto simp: whole_seat_def)
  then show "\<forall>s \<in> set (hd_seats h). whole_seat s \<Longrightarrow> ?thesis"
    by (simp add: stacks_def total_commit_def starts_def)
qed

lemma total_zero: "total_commit h = 0 \<longleftrightarrow> (\<forall>s \<in> set (hd_seats h). se_hand_commit s = 0)"
  by (auto simp: total_commit_def)

section \<open>The end of a hand\<close>

definition payable :: "hand \<Rightarrow> bool" where
  "payable h \<longleftrightarrow> total_commit h = 0 \<or> (\<exists>i \<in> set (live_seats h). se_hand_commit (hd_seats h ! i) > 0)"

lemma set_seat_nth: "j < length (hd_seats h) \<Longrightarrow>
    hd_seats (set_seat i f h) ! j = (if i = j then f (hd_seats h ! j) else hd_seats h ! j)"
  by (simp add: set_seat_def nth_list_update)

lemma all_set_seat:
  "\<forall>s \<in> set (hd_seats h). P s \<Longrightarrow> P (f (hd_seats h ! i)) \<Longrightarrow> \<forall>s \<in> set (hd_seats (set_seat i f h)). P s"
  by (auto simp: set_seat_def dest: set_update_subset_insert [THEN subsetD])

lemma position_first: "position P xs = Some i \<Longrightarrow> i < length xs \<and> P (xs ! i)"
  by (induction xs arbitrary: i) (auto split: if_splits simp: nth_Cons')

lemma other_members:
  assumes "i < length xs" and "j < length xs" and "i \<noteq> j" and "mset xs = mset (xs ! i # ys)"
  shows "xs ! j \<in> set ys"
proof -
  have "mset (take i xs @ xs ! i # drop (Suc i) xs) = mset (xs ! i # ys)"
    using assms(4) id_take_nth_drop [OF assms(1)] by metis
  then have "mset (take i xs @ drop (Suc i) xs) = mset ys" by simp
  then have eq: "set (take i xs) \<union> set (drop (Suc i) xs) = set ys" by (metis mset_eq_setD set_append)
  show ?thesis
  proof (cases "j < i")
    case True
    then have "take i xs ! j \<in> set (take i xs)" using assms(1,2) by (intro nth_mem) simp
    with eq True show ?thesis by auto
  next
    case False
    then have "drop (Suc i) xs ! (j - Suc i) \<in> set (drop (Suc i) xs)"
      using assms(2,3) by (intro nth_mem) simp
    moreover have "drop (Suc i) xs ! (j - Suc i) = xs ! j" using False assms by simp
    ultimately show ?thesis using eq by auto
  qed
qed

lemma refund_cases:
  obtains "refund h = h"
  | i c0 c1 e where "refund h = add_log e (set_seat i (\<lambda>s. s\<lparr>se_stack := se_stack s + (c0 - c1),
        se_hand_commit := se_hand_commit s - (c0 - c1)\<rparr>) h)"
      "i < length (hd_seats h)" "seat_live (hd_seats h ! i)" "se_hand_commit (hd_seats h ! i) = c0" "c1 < c0"
      "\<And>j. j < length (hd_seats h) \<Longrightarrow> j \<noteq> i \<Longrightarrow> se_hand_commit (hd_seats h ! j) \<le> c1"
proof (cases "\<exists>c0 c1 r. sort_desc (map se_hand_commit (hd_seats h)) = c0 # c1 # r \<and> c0 > c1")
  case False
  then have "refund h = h" by (auto simp: refund_def split: list.split)
  with that(1) show ?thesis by blast
next
  case True
  let ?cs = "map se_hand_commit (hd_seats h)"
  obtain c0 c1 r where s: "sort_desc ?cs = c0 # c1 # r" "c0 > c1" using True by blast
  have "c0 \<in> set (sort_desc ?cs)" by (simp only: s list.set_intros)
  then have ex: "\<exists>s \<in> set (hd_seats h). se_hand_commit s = c0" by auto
  have "\<exists>i. position (\<lambda>s. se_hand_commit s = c0) xs = Some i" if "\<exists>s \<in> set xs. se_hand_commit s = c0" for xs
    using that by (induction xs) auto
  from this [OF ex] obtain i where i: "position (\<lambda>s. se_hand_commit s = c0) (hd_seats h) = Some i" by blast
  note pos = position_first [OF i]
  show ?thesis
  proof (cases "in_hand h i")
    case False
    then have "refund h = h" using s i by (simp add: refund_def Let_def)
    with that(1) show ?thesis by blast
  next
    case True
    have sorted: "sorted (rev (c0 # c1 # r))"
      using s(1) by (metis rev_rev_ident sort_desc_def sorted_sort)
    have m: "mset ?cs = mset (?cs ! i # c1 # r)"
      using s(1) pos by (metis mset_rev mset_sort nth_map sort_desc_def)
    have "se_hand_commit (hd_seats h ! j) \<le> c1" if "j < length (hd_seats h)" "j \<noteq> i" for j
    proof -
      have "?cs ! j \<in> set (c1 # r)"
        by (rule other_members [OF _ _ _ m]) (use pos that in simp_all)
      then show ?thesis using sorted that by (auto simp: sorted_append)
    qed
    moreover have "refund h = add_log ((log_ev ''refund'')\<lparr>le_seat := Some i, le_amount := Some (c0 - c1)\<rparr>)
        (set_seat i (\<lambda>s. s\<lparr>se_stack := se_stack s + (c0 - c1),
           se_hand_commit := se_hand_commit s - (c0 - c1)\<rparr>) h)"
      using s i True by (simp add: refund_def Let_def)
    ultimately show ?thesis
      using that(2) pos True s(2) by (simp add: in_hand_live)
  qed
qed

lemma refund_ok:
  assumes whole: "\<forall>s \<in> set (hd_seats h). whole_seat s"
  shows "\<forall>s \<in> set (hd_seats (refund h)). whole_seat s" and "payable h \<Longrightarrow> payable (refund h)"
    and "live_seats (refund h) = live_seats h" and "starts (refund h) = starts h"
    and "length (hd_seats (refund h)) = length (hd_seats h)" and "hd_n (refund h) = hd_n h"
    and "hd_board (refund h) = hd_board h" and "hd_phase (refund h) = hd_phase h"
    and "hd_to_act (refund h) = hd_to_act h"
proof -
  have "(\<forall>s \<in> set (hd_seats (refund h)). whole_seat s) \<and> (payable h \<longrightarrow> payable (refund h)) \<and>
    live_seats (refund h) = live_seats h \<and> starts (refund h) = starts h"
  proof (cases rule: refund_cases [of h])
    case 1
    with assms show ?thesis by simp
  next
    case (2 i c0 c1 e)
    let ?f = "\<lambda>s. s\<lparr>se_stack := se_stack s + (c0 - c1), se_hand_commit := se_hand_commit s - (c0 - c1)\<rparr>"
    have seats: "hd_seats (refund h) = hd_seats (set_seat i ?f h)" using 2(1) by simp
    have "whole_seat (?f (hd_seats h ! i))"
      using whole nth_mem [OF 2(2)] 2(4,5) by (auto simp: whole_seat_def)
    then have w: "\<forall>s \<in> set (hd_seats (refund h)). whole_seat s"
      unfolding seats using whole by (intro all_set_seat)
    have live: "live_seats (refund h) = live_seats h"
      unfolding live_seats_def in_hand_live seats set_seat_length
      by (rule filter_cong) (auto simp: set_seat_nth seat_live_def)
    have commit: "se_hand_commit (hd_seats (refund h) ! j) = (if j = i then c1 else se_hand_commit (hd_seats h ! j))"
      if "j < length (hd_seats h)" for j
      using that 2(4,5) by (auto simp: seats set_seat_nth)
    have "payable (refund h)"
    proof (cases "c1 = 0")
      case True
      have "total_commit (refund h) = 0"
        unfolding total_zero
      proof
        fix s assume "s \<in> set (hd_seats (refund h))"
        then obtain j where j: "j < length (hd_seats h)" "s = hd_seats (refund h) ! j"
          unfolding seats in_set_conv_nth set_seat_length by blast
        show "se_hand_commit s = 0"
          using commit [OF j(1)] 2(6) [OF j(1)] True j(2) by (cases "j = i") simp_all
      qed
      then show ?thesis by (simp add: payable_def)
    next
      case False
      have "i \<in> set (live_seats (refund h))"
        unfolding live using 2(2,3) by (simp add: live_seats_members)
      then show ?thesis using commit [OF 2(2)] False by (auto simp: payable_def)
    qed
    moreover have "starts (refund h) = starts h"
      using starts_set_seat [OF 2(2), of ?f] by (simp add: seats_only(2) [OF seats])
    ultimately show ?thesis using w live by simp
  qed
  then show "\<forall>s \<in> set (hd_seats (refund h)). whole_seat s" "payable h \<Longrightarrow> payable (refund h)"
    "live_seats (refund h) = live_seats h" "starts (refund h) = starts h" by blast+
  show "length (hd_seats (refund h)) = length (hd_seats h)" "hd_n (refund h) = hd_n h"
    "hd_board (refund h) = hd_board h" "hd_phase (refund h) = hd_phase h" "hd_to_act (refund h) = hd_to_act h"
    by (cases rule: refund_cases [of h]; simp)+
qed

lemma finish_ok:
  assumes whole: "\<forall>s \<in> set (hd_seats h). whole_seat s" and n: "hd_n h = length (hd_seats h)"
    and live: "live_seats h \<noteq> []"
    and pay: "length (live_seats h) = 1 \<or> payable h \<and> hd_board h \<noteq> []"
  shows "\<exists>h'. finish h = Returns h' \<and> paid_out (starts h) h'"
proof -
  define g where "g = h\<lparr>hd_phase := ''done'', hd_to_act := - 1\<rparr>"
  have seats: "hd_seats g = hd_seats h" and fields: "hd_n g = hd_n h" "hd_board g = hd_board h"
    "hd_phase g = ''done''" "hd_to_act g = - 1"
    by (simp_all add: g_def)
  have gw: "\<forall>s \<in> set (hd_seats g). whole_seat s" using whole by (simp add: seats)
  have gl: "live_seats g = live_seats h" by (rule live_seats_cong [OF seats])
  note r = refund_ok [OF gw]
  have sum: "stacks (refund g) + total_commit (refund g) = starts h"
    using whole_sum [OF r(1)] r(4) seats_only(2) [OF seats] by simp
  show ?thesis
  proof (cases "length (live_seats h) = 1")
    case True
    then obtain w where w: "live_seats h = [w]" by (auto simp: length_Suc_conv)
    then have wi: "w < length (hd_seats (refund g))"
      using live_seats_members [of w h] r(5) seats by simp
    let ?f = "\<lambda>s. s\<lparr>se_stack := se_stack s + total_commit (refund g)\<rparr>"
    have "stacks (scoop w (refund g)) = stacks (set_seat w ?f (refund g))"
      "starts (scoop w (refund g)) = starts (set_seat w ?f (refund g))"
      by (rule seats_only; simp add: scoop_def Let_def)+
    moreover have "stacks (set_seat w ?f (refund g)) = stacks (refund g) + total_commit (refund g)"
      using stacks_set_seat [OF wi, of ?f] by simp
    moreover have "starts (set_seat w ?f (refund g)) = starts (refund g)"
      by (rule starts_set_seat [OF wi]) simp
    moreover have "hd_phase (scoop w (refund g)) = ''done''" "hd_to_act (scoop w (refund g)) = - 1"
      using r(8,9) fields by (simp_all add: scoop_def Let_def)
    ultimately have "paid_out (starts h) (scoop w (refund g))"
      using sum r(4) seats_only(2) [OF seats] by (simp add: paid_out_def in_play_def)
    moreover have "finish h = Returns (scoop w (refund g))"
      using w gl by (simp add: finish_def Let_def g_def)
    ultimately show ?thesis by blast
  next
    case False
    with pay have p: "payable h" "hd_board h \<noteq> []" by auto
    have "payable g" using p(1) by (simp add: payable_def gl seats seats_only(3) [OF seats])
    from r(2) [OF this] have "payable (refund g)" .
    then have pay': "total_commit (refund g) = 0 \<or>
        (\<exists>i \<in> set (live_seats h). se_hand_commit (hd_seats (refund g) ! i) > 0)"
      by (simp add: payable_def r(3) gl)
    have b: "hd_board (refund g) \<noteq> []" using p(2) r(7) fields by simp
    have n': "hd_n (refund g) = length (hd_seats (refund g))" using n r(5,6) fields seats by simp
    have lv: "live_seats h = filter (in_hand h) [0..<length (hd_seats (refund g))]"
      using r(5) seats by (simp add: live_seats_def)
    from showdown_pays [OF b n' lv pay'] obtain h' where h': "showdown (refund g) (live_seats h) = Returns h'"
      "stacks h' = stacks (refund g) + total_commit (refund g)" "starts h' = starts (refund g)"
      "hd_phase h' = hd_phase (refund g)" "hd_to_act h' = hd_to_act (refund g)" by blast
    have "paid_out (starts h) h'"
      using h' sum r(4,8,9) fields seats_only(2) [OF seats] by (simp add: paid_out_def in_play_def)
    moreover have "finish h = Returns h'"
      using False h'(1) gl by (simp add: finish_def Let_def g_def)
    ultimately show ?thesis by blast
  qed
qed

section \<open>Streets\<close>

lemma obind_Returns [simp]: "obind (Returns y) f = f y"
  by (simp add: obind_def)

lemma deal_board_ok:
  assumes "hd_deck_pos h < length (hd_deck h)"
  shows "\<exists>c. deal_board h = Returns (h\<lparr>hd_deck_pos := hd_deck_pos h + 1, hd_board := hd_board h @ [c]\<rparr>)"
  using assms
  by (intro exI [of _ "hd_deck h ! hd_deck_pos h"]) (simp add: deal_board_def deal_card_def get_at_def)

lemma deal_street_ok:
  assumes "hd_deck_pos h + (if hd_street h = 1 then 3 else 1) \<le> length (hd_deck h)"
  shows "\<exists>cs. deal_street_cards h =
      Returns (h\<lparr>hd_deck_pos := hd_deck_pos h + length cs, hd_board := hd_board h @ cs\<rparr>) \<and>
    length cs = (if hd_street h = 1 then 3 else 1)"
proof (cases "hd_street h = 1")
  case True
  let ?h1 = "\<lambda>a. h\<lparr>hd_deck_pos := hd_deck_pos h + 1, hd_board := hd_board h @ [a]\<rparr>"
  let ?h2 = "\<lambda>a b. h\<lparr>hd_deck_pos := hd_deck_pos h + 1 + 1, hd_board := (hd_board h @ [a]) @ [b]\<rparr>"
  obtain a where a: "deal_board h = Returns (?h1 a)"
    using deal_board_ok [of h] assms True by auto
  obtain b where b: "deal_board (?h1 a) = Returns (?h2 a b)"
    using deal_board_ok [of "?h1 a"] assms True by auto
  obtain c where c: "deal_board (?h2 a b) =
      Returns (h\<lparr>hd_deck_pos := hd_deck_pos h + 1 + 1 + 1, hd_board := ((hd_board h @ [a]) @ [b]) @ [c]\<rparr>)"
    using deal_board_ok [of "?h2 a b"] assms True by auto
  have "deal_street_cards h =
      Returns (h\<lparr>hd_deck_pos := hd_deck_pos h + length [a, b, c], hd_board := hd_board h @ [a, b, c]\<rparr>)"
    unfolding deal_street_cards_def if_P [OF True] a b c obind_Returns by simp
  with True show ?thesis by (intro exI [of _ "[a, b, c]"]) simp
next
  case False
  then obtain c where "deal_board h =
      Returns (h\<lparr>hd_deck_pos := hd_deck_pos h + 1, hd_board := hd_board h @ [c]\<rparr>)"
    using deal_board_ok [of h] assms by auto
  with False show ?thesis by (intro exI [of _ "[c]"]) (simp add: deal_street_cards_def)
qed

lemma board_len_step:
  "street \<le> 2 \<Longrightarrow> board_len (street + 1) = board_len street + (if street + 1 = 1 then 3 else 1)"
  by (simp add: board_len_def)

lemma run_streets_ok:
  assumes "k = 3 - hd_street h" and "hd_street h \<le> 3" and "length (hd_board h) = board_len (hd_street h)"
    and "hd_deck_pos h + (5 - board_len (hd_street h)) \<le> length (hd_deck h)"
  shows "\<exists>p b. run_streets k h = Returns (h\<lparr>hd_street := 3, hd_deck_pos := p, hd_board := b\<rparr>) \<and> length b = 5"
  using assms
proof (induction k arbitrary: h)
  case 0
  then have "hd_street h = 3" by simp
  with 0 show ?case by (intro exI [of _ "hd_deck_pos h"] exI [of _ "hd_board h"]) (simp add: board_len_def)
next
  case (Suc k)
  let ?g = "h\<lparr>hd_street := hd_street h + 1\<rparr>"
  from Suc.prems have s: "hd_street h \<le> 2" by simp
  have bl: "board_len (hd_street h + 1) \<le> 5" using s by (simp add: board_len_def)
  have room: "hd_deck_pos ?g + (if hd_street ?g = 1 then 3 else 1) \<le> length (hd_deck ?g)"
    using Suc.prems(4) board_len_step [OF s] bl by (auto split: if_splits)
  obtain cs where cs: "deal_street_cards ?g =
      Returns (?g\<lparr>hd_deck_pos := hd_deck_pos ?g + length cs, hd_board := hd_board ?g @ cs\<rparr>)"
    "length cs = (if hd_street ?g = 1 then 3 else 1)"
    using deal_street_ok [OF room] by blast
  let ?d = "?g\<lparr>hd_deck_pos := hd_deck_pos ?g + length cs, hd_board := hd_board ?g @ cs\<rparr>"
  have "\<exists>p b. run_streets k ?d = Returns (?d\<lparr>hd_street := 3, hd_deck_pos := p, hd_board := b\<rparr>) \<and> length b = 5"
  proof (rule Suc.IH)
    show "k = 3 - hd_street ?d" "hd_street ?d \<le> 3" using Suc.prems(1,2) by simp_all
    show "length (hd_board ?d) = board_len (hd_street ?d)"
      using Suc.prems(3) cs(2) board_len_step [OF s] by simp
    show "hd_deck_pos ?d + (5 - board_len (hd_street ?d)) \<le> length (hd_deck ?d)"
      using Suc.prems(4) cs(2) board_len_step [OF s] bl by (simp split: if_splits)
  qed
  moreover have "run_streets (Suc k) h = run_streets k ?d"
    unfolding run_streets.simps cs(1) obind_Returns ..
  ultimately show ?case by simp
qed

text \<open>A hand whose live seats have all settled (or cannot act) can be paid.\<close>

lemma settled_payable:
  assumes ok: "\<forall>s \<in> set (hd_seats h). seat_ok (hd_current_bet h) s" and pot: "pot_ok (hd_seats h)"
    and live: "live_seats h \<noteq> []"
    and settled: "\<forall>i \<in> set (live_seats h). can_act h i \<longrightarrow> se_street_commit (hd_seats h ! i) = hd_current_bet h"
  shows "payable h" and "total_commit h = 0 \<or> (\<forall>s \<in> set (hd_seats h). seat_live s \<longrightarrow> se_hand_commit s > 0)"
proof -
  have "total_commit h = 0 \<or> (\<forall>s \<in> set (hd_seats h). seat_live s \<longrightarrow> se_hand_commit s > 0)"
  proof (cases "\<forall>s \<in> set (hd_seats h). seat_live s \<longrightarrow> se_hand_commit s > 0")
    case False
    then obtain i where i: "i < length (hd_seats h)" "seat_live (hd_seats h ! i)"
      "se_hand_commit (hd_seats h ! i) = 0"
      by (metis gr0I in_set_conv_nth)
    have sok: "seat_ok (hd_current_bet h) (hd_seats h ! i)" using ok i(1) by simp
    have "\<not> se_all_in (hd_seats h ! i)"
      using sok i(2,3) by (auto simp: seat_ok_def whole_seat_def seat_live_def)
    then have "can_act h i" using i(2) by (simp add: can_act_def in_hand_live)
    with settled i sok have "hd_current_bet h = 0"
      by (auto simp: live_seats_members seat_ok_def)
    moreover have "\<forall>s \<in> set (hd_seats h). se_hand_commit s = se_street_commit s"
      using pot False by (auto simp: pot_ok_def)
    ultimately have "total_commit h = 0" using ok by (auto simp: total_zero seat_ok_def)
    then show ?thesis ..
  qed simp
  then show "total_commit h = 0 \<or> (\<forall>s \<in> set (hd_seats h). seat_live s \<longrightarrow> se_hand_commit s > 0)" .
  moreover obtain i where "i \<in> set (live_seats h)" using live by fastforce
  ultimately show "payable h" by (auto simp: payable_def live_seats_members)
qed

lemma run_out_ok:
  assumes "\<forall>s \<in> set (hd_seats h). whole_seat s" and "hd_n h = length (hd_seats h)"
    and "live_seats h \<noteq> []" and "payable h"
    and "hd_street h \<le> 3" and "length (hd_board h) = board_len (hd_street h)"
    and "hd_deck_pos h + (5 - board_len (hd_street h)) \<le> length (hd_deck h)"
  shows "\<exists>h'. run_out h = Returns h' \<and> paid_out (starts h) h'"
proof -
  obtain p b where r: "run_streets (3 - hd_street h) h = Returns (h\<lparr>hd_street := 3, hd_deck_pos := p, hd_board := b\<rparr>)"
    "length b = 5"
    using run_streets_ok [OF refl assms(5-7)] by blast
  let ?g = "add_log ((log_ev ''runout'')\<lparr>le_board := Some b\<rparr>) (h\<lparr>hd_street := 3, hd_deck_pos := p, hd_board := b\<rparr>)"
  have seats: "hd_seats ?g = hd_seats h" by simp
  have live: "live_seats ?g = live_seats h" by (rule live_seats_cong) simp
  have "\<exists>h'. finish ?g = Returns h' \<and> paid_out (starts ?g) h'"
  proof (rule finish_ok)
    show "length (live_seats ?g) = 1 \<or> payable ?g \<and> hd_board ?g \<noteq> []"
      using assms(4) r(2) by (auto simp: payable_def live seats_only(3) [OF seats])
  qed (use assms(1-3) in \<open>simp_all add: live\<close>)
  then show ?thesis
    unfolding run_out_def r obind_def seats_only(2) [OF seats] by simp
qed

section \<open>The next actor\<close>

lemma order_set: "0 \<le> start \<Longrightarrow> set (order start h) = {0..<hd_n h}"
  using order_perm [of start h] by (metis atLeastLessThan_upt mset_eq_setD)

lemma next_actor_cases:
  assumes "0 \<le> start"
  obtains (nobody) "next_actor start h = - 1" "\<forall>i < hd_n h. \<not> can_act h i"
  | (seat) i where "next_actor start h = int i" "i < hd_n h" "can_act h i"
proof (cases "List.find (can_act h) (order start h)")
  case None
  then have "\<forall>i < hd_n h. \<not> can_act h i"
    using order_set [OF assms, of h] by (auto simp: find_None_iff)
  moreover from None have "next_actor start h = - 1" by (simp add: next_actor_def)
  ultimately show ?thesis by (rule nobody [rotated])
next
  case (Some i)
  then have "i \<in> set (order start h)" "can_act h i"
    by (auto simp: find_Some_iff)
  with Some show ?thesis
    using seat [of i] order_set [OF assms, of h] by (auto simp: next_actor_def)
qed

lemma live_seats_open: "live_seats (open_street h) = live_seats h"
  unfolding live_seats_def by (rule filter_cong) (auto simp: open_street_def in_hand_def)

lemma can_act_cong: "hd_seats h' = hd_seats h \<Longrightarrow> can_act h' i = can_act h i"
  by (simp add: can_act_def in_hand_def)

text \<open>What a street that opens keeps: the stacks, the live seats, the blinds.\<close>

definition opened :: "hand \<Rightarrow> hand \<Rightarrow> bool" where
  "opened h h' \<longleftrightarrow> play_ok h' \<and> starts h' = starts h \<and> stacks h' = stacks h \<and>
     live_seats h' = live_seats h \<and> hd_street h' = hd_street h + 1 \<and> hd_bb h' = hd_bb h \<and>
     hd_min_raise_size h' = hd_bb h \<and> can_act h' (nat (hd_to_act h'))"

lemma next_street_ok:
  assumes ok: "table_ok h" and live: "2 \<le> length (live_seats h)" and street: "hd_street h < 3"
    and settled: "\<forall>i \<in> set (live_seats h). can_act h i \<longrightarrow> se_street_commit (hd_seats h ! i) = hd_current_bet h"
  shows "\<exists>h'. next_street h = Returns h' \<and> (paid_out (starts h) h' \<or> opened h h')"
proof -
  let ?o = "open_street h"
  have seats: "hd_seats ?o = map (\<lambda>s. s\<lparr>se_street_commit := 0, se_acted := False, se_can_raise := True\<rparr>) (hd_seats h)"
    by (simp add: open_street_def)
  have sums: "stacks ?o = stacks h" "starts ?o = starts h" "total_commit ?o = total_commit h"
    by (simp_all add: stacks_def starts_def total_commit_def seats comp_def)
  have sok: "\<forall>s \<in> set (hd_seats h). seat_ok (hd_current_bet h) s" and pok: "pot_ok (hd_seats h)"
    using ok by (simp_all add: table_ok_def)
  have ne: "live_seats h \<noteq> []" using live by auto
  note pay = settled_payable [OF sok pok ne settled]
  have osok: "\<forall>s \<in> set (hd_seats ?o). seat_ok 0 s"
    using sok by (auto simp: seats seat_ok_def whole_seat_def)
  have opot: "pot_ok (hd_seats ?o)"
    using pay(2) by (auto simp: pot_ok_def seats seat_live_def total_zero)
  have st: "hd_street h \<le> 2" using street by simp
  have bl: "board_len (hd_street h + 1) \<le> 5" using st by (simp add: board_len_def)
  have of: "hd_street ?o = hd_street h + 1" "hd_deck ?o = hd_deck h" "hd_deck_pos ?o = hd_deck_pos h"
    "hd_board ?o = hd_board h"
    by (simp_all add: open_street_def)
  have deck: "hd_deck_pos h + (5 - board_len (hd_street h)) \<le> length (hd_deck h)"
    "length (hd_board h) = board_len (hd_street h)" using ok by (simp_all add: table_ok_def)
  have room: "hd_deck_pos ?o + (if hd_street ?o = 1 then 3 else 1) \<le> length (hd_deck ?o)"
    using deck(1) board_len_step [OF st] bl unfolding of by (auto split: if_splits)
  obtain cs where cs: "deal_street_cards ?o =
      Returns (?o\<lparr>hd_deck_pos := hd_deck_pos ?o + length cs, hd_board := hd_board ?o @ cs\<rparr>)"
    "length cs = (if hd_street ?o = 1 then 3 else 1)"
    using deal_street_ok [OF room] by blast
  let ?d = "?o\<lparr>hd_deck_pos := hd_deck_pos ?o + length cs, hd_board := hd_board ?o @ cs\<rparr>"
  define g where "g = add_log ((log_ev ''street'')\<lparr>le_street := Some (STREETS ! hd_street ?d),
                                         le_board := Some (hd_board ?d)\<rparr>) ?d"
  define a where "a = next_actor (int (hd_button g) + 1) g"
  define k where "k = g\<lparr>hd_to_act := a\<rparr>"
  have gs: "hd_seats g = hd_seats ?o" by (simp add: g_def)
  have ks: "hd_seats k = hd_seats ?o" by (simp add: k_def gs)
  have gf: "hd_n g = hd_n h" "hd_street g = hd_street h + 1" "hd_board g = hd_board h @ cs"
    "hd_deck g = hd_deck h" "hd_deck_pos g = hd_deck_pos h + length cs" "hd_phase g = hd_phase h"
    "hd_current_bet g = 0" "hd_bb g = hd_bb h" "hd_min_raise_size g = hd_bb h"
    by (simp_all add: g_def open_street_def)
  have kf: "hd_n k = hd_n h" "hd_street k = hd_street h + 1" "hd_board k = hd_board h @ cs"
    "hd_deck k = hd_deck h" "hd_deck_pos k = hd_deck_pos h + length cs" "hd_phase k = hd_phase h"
    "hd_current_bet k = 0" "hd_bb k = hd_bb h" "hd_min_raise_size k = hd_bb h" "hd_to_act k = a"
    by (simp_all add: k_def gf)
  have n: "hd_n h = length (hd_seats k)" using ok by (simp add: table_ok_def ks seats)
  have blen: "length (hd_board h @ cs) = board_len (hd_street h + 1)"
    using deck(2) cs(2) board_len_step [OF st] of by simp
  have dk: "hd_deck_pos h + length cs + (5 - board_len (hd_street h + 1)) \<le> length (hd_deck h)"
    using deck(1) cs(2) board_len_step [OF st] bl unfolding of by (simp split: if_splits)
  have step: "next_street h =
      (if a = - 1 then run_out k
       else if hd_heads_up k then
         (case List.find (\<lambda>i. i \<noteq> hd_button k) (live_seats k) of
            Some nb \<Rightarrow> Returns (if can_act k nb then k\<lparr>hd_to_act := int nb\<rparr> else k)
          | None \<Rightarrow> Returns k)
       else Returns k)"
    unfolding next_street_def cs(1) obind_Returns Let_def g_def [symmetric] a_def [symmetric] k_def [symmetric] kf
    by simp
  have klive: "live_seats k = live_seats h"
    using live_seats_cong [OF ks] live_seats_open by simp
  have whole: "\<forall>s \<in> set (hd_seats k). whole_seat s"
    using osok by (auto simp: ks seat_ok_def)
  have ksum: "stacks k = stacks h" "starts k = starts h" "total_commit k = total_commit h"
    using sums by (simp_all add: seats_only [OF ks])
  have kpay: "payable k"
    using pay(1) by (auto simp: payable_def klive ksum live_seats_members ks seats)
  have actor: "opened h (k\<lparr>hd_to_act := int i\<rparr>)" if i: "i < hd_n h" "can_act k i" for i
  proof -
    let ?k = "k\<lparr>hd_to_act := int i\<rparr>"
    have ss: "hd_seats ?k = hd_seats k" by simp
    have "live_seats ?k = live_seats h" using live_seats_cong [OF ss] klive by simp
    moreover have "table_ok ?k"
      using ok osok opot n blen dk st i(1)
      by (simp add: table_ok_def in_play_def kf ks)
    ultimately show ?thesis
      using live ksum i(2) by (simp add: opened_def play_ok_def seats_only [OF ss] can_act_cong [OF ss] kf)
  qed
  have ga: "can_act g i = can_act k i" for i by (rule can_act_cong) (simp add: gs ks)
  have start: "0 \<le> int (hd_button g) + 1" by simp
  show ?thesis
  proof (cases rule: next_actor_cases [OF start, of g])
    case 1
    note nobody = 1
    have "\<exists>h'. run_out k = Returns h' \<and> paid_out (starts k) h'"
    proof (rule run_out_ok [OF whole])
      show "hd_n k = length (hd_seats k)" using n kf by simp
      show "live_seats k \<noteq> []" using ne klive by simp
      show "payable k" by (rule kpay)
      show "hd_street k \<le> 3" using st kf by simp
      show "length (hd_board k) = board_len (hd_street k)" unfolding kf by (rule blen)
      show "hd_deck_pos k + (5 - board_len (hd_street k)) \<le> length (hd_deck k)" unfolding kf by (rule dk)
    qed
    then show ?thesis using nobody(1) by (auto simp: step a_def [symmetric] ksum)
  next
    case (2 i)
    note seat = 2
    then have a: "a = int i" "a \<noteq> - 1" by (simp_all add: a_def)
    have i: "i < hd_n h" "can_act k i" using seat gf ga by simp_all
    have k: "k = k\<lparr>hd_to_act := int i\<rparr>" using a(1) by (simp add: k_def)
    have "opened h k" using actor [OF i] k by metis
    moreover have "opened h (k\<lparr>hd_to_act := int nb\<rparr>)"
      if "List.find (\<lambda>i. i \<noteq> hd_button k) (live_seats k) = Some nb" "can_act k nb" for nb
    proof (rule actor [OF _ that(2)])
      have "nb \<in> set (live_seats k)" using that(1) by (metis find_Some_iff nth_mem)
      then show "nb < hd_n h" using n by (simp add: live_seats_members)
    qed
    ultimately show ?thesis
      using a(2) by (auto simp: step split: option.split)
  qed
qed

text \<open>The betting goes on: the next seat that can act is asked.\<close>

definition passed_on :: "hand \<Rightarrow> hand \<Rightarrow> bool" where
  "passed_on h h' \<longleftrightarrow> h' = h\<lparr>hd_to_act := next_actor (hd_to_act h + 1) h\<rparr> \<and> play_ok h' \<and>
     can_act h' (nat (hd_to_act h')) \<and> (\<exists>i \<in> set (live_seats h). can_act h i \<and> \<not> settled_seat h i)"

lemma advance_ok:
  assumes ok: "table_ok h" and live: "live_seats h \<noteq> []"
  shows "\<exists>h'. advance h = Returns h' \<and>
    (paid_out (starts h) h' \<or> passed_on h h' \<or>
     opened h h' \<and> (\<forall>i \<in> set (live_seats h). can_act h i \<longrightarrow> settled_seat h i))"
proof -
  have sok: "\<forall>s \<in> set (hd_seats h). seat_ok (hd_current_bet h) s" and pok: "pot_ok (hd_seats h)"
    and n: "hd_n h = length (hd_seats h)"
    and street: "hd_street h \<le> 3" "length (hd_board h) = board_len (hd_street h)"
      "hd_deck_pos h + (5 - board_len (hd_street h)) \<le> length (hd_deck h)"
    and act: "0 \<le> hd_to_act h"
    using ok by (simp_all add: table_ok_def)
  have whole: "\<forall>s \<in> set (hd_seats h). whole_seat s" using sok by (auto simp: seat_ok_def)
  let ?all = "\<forall>i \<in> set (live_seats h). can_act h i \<longrightarrow> settled_seat h i"
  have settled_iff: "list_all (settled_seat h) (filter (can_act h) (live_seats h)) \<longleftrightarrow> ?all"
    by (auto simp: list_all_iff)
  consider (one) "length (live_seats h) = 1"
    | (going) "length (live_seats h) \<noteq> 1" "\<not> ?all"
    | (out) "length (live_seats h) \<noteq> 1" ?all "length (filter (can_act h) (live_seats h)) \<le> 1"
    | (river) "length (live_seats h) \<noteq> 1" ?all "\<not> length (filter (can_act h) (live_seats h)) \<le> 1" "hd_street h = 3"
    | (nxt) "length (live_seats h) \<noteq> 1" ?all "\<not> length (filter (can_act h) (live_seats h)) \<le> 1" "hd_street h \<noteq> 3"
    by blast
  then show ?thesis
  proof cases
    case one
    then have "\<exists>h'. finish h = Returns h' \<and> paid_out (starts h) h'"
      by (intro finish_ok whole n live) simp
    with one show ?thesis by (auto simp: advance_def Let_def)
  next
    case going
    let ?k = "h\<lparr>hd_to_act := next_actor (hd_to_act h + 1) h\<rparr>"
    have ks: "hd_seats ?k = hd_seats h" by simp
    from going obtain i where i: "i \<in> set (live_seats h)" "can_act h i" "\<not> settled_seat h i" by blast
    from act have start: "0 \<le> hd_to_act h + 1" by simp
    show ?thesis
    proof (cases rule: next_actor_cases [OF start, of h])
      case 1
      with i n show ?thesis by (auto simp: live_seats_members)
    next
      case (2 j)
      have "table_ok ?k" using ok 2 by (simp add: table_ok_def in_play_def)
      moreover have "2 \<le> length (live_seats ?k)"
        using going(1) live unfolding live_seats_cong [OF ks] by (cases "live_seats h" rule: remdups_adj.cases) auto
      moreover have "can_act ?k j" using 2(3) by (simp add: can_act_cong [OF ks])
      ultimately have "passed_on h ?k"
        using 2 i by (auto simp: passed_on_def play_ok_def)
      moreover have "advance h = Returns ?k"
        using going(1) settled_iff going(2) 2(1) by (simp add: advance_def Let_def)
      ultimately show ?thesis by blast
    qed
  next
    case out
    note pay = settled_payable [OF sok pok live]
    have "payable h" using out(2) by (intro pay) (simp add: settled_seat_def)
    from run_out_ok [OF whole n live this street] show ?thesis
      using out settled_iff by (auto simp: advance_def Let_def)
  next
    case river
    note pay = settled_payable [OF sok pok live]
    have "payable h" using river(2) by (intro pay) (simp add: settled_seat_def)
    moreover have "hd_board h \<noteq> []" using street(2) river(4) by (auto simp: board_len_def)
    ultimately have "\<exists>h'. finish h = Returns h' \<and> paid_out (starts h) h'"
      by (intro finish_ok whole n live) simp
    with river settled_iff show ?thesis by (auto simp: advance_def Let_def)
  next
    case nxt
    have "\<exists>h'. next_street h = Returns h' \<and> (paid_out (starts h) h' \<or> opened h h')"
    proof (rule next_street_ok [OF ok])
      show "2 \<le> length (live_seats h)" using nxt(3)
        by (metis length_filter_le not_less_eq_eq numeral_2_eq_2 One_nat_def le_trans)
      show "hd_street h < 3" using nxt(4) street(1) by simp
      show "\<forall>i \<in> set (live_seats h). can_act h i \<longrightarrow> se_street_commit (hd_seats h ! i) = hd_current_bet h"
        using nxt(2) by (simp add: settled_seat_def)
    qed
    with nxt settled_iff show ?thesis by (auto simp: advance_def Let_def)
  qed
qed

section \<open>Moves\<close>

text \<open>How a move changes a seat: it pays \<open>p\<close> chips from its stack, and may fold.\<close>

definition seat_step :: "nat \<Rightarrow> seat \<Rightarrow> seat \<Rightarrow> bool" where
  "seat_step p s s' \<longleftrightarrow> se_stack s = se_stack s' + p \<and> se_hand_commit s' = se_hand_commit s + p \<and>
     se_street_commit s' = se_street_commit s + p \<and> se_out s' = se_out s \<and>
     se_start_stack s' = se_start_stack s \<and> (se_folded s \<longrightarrow> se_folded s') \<and>
     (se_stack s' = 0 \<longleftrightarrow> se_all_in s' \<or> se_out s')"

definition same_table :: "hand \<Rightarrow> hand \<Rightarrow> bool" where
  "same_table h g \<longleftrightarrow> hd_n g = hd_n h \<and> hd_street g = hd_street h \<and> hd_board g = hd_board h \<and>
     hd_deck g = hd_deck h \<and> hd_deck_pos g = hd_deck_pos h \<and> hd_to_act g = hd_to_act h \<and>
     hd_phase g = hd_phase h \<and> hd_bb g = hd_bb h \<and> length (hd_seats g) = length (hd_seats h)"

lemma seat_step_ok:
  "\<lbrakk>seat_step p s s'; seat_ok bet s; se_street_commit s' \<le> bet'\<rbrakk> \<Longrightarrow> seat_ok bet' s'"
  by (auto simp: seat_step_def seat_ok_def whole_seat_def)

lemma seat_step_sums:
  assumes "list_all2 (\<lambda>s s'. \<exists>p. seat_step p s s') ss ss'"
  shows "sum_list (map se_start_stack ss') = sum_list (map se_start_stack ss)"
    and "sum_list (map se_stack ss') \<le> sum_list (map se_stack ss)"
    and "pot_ok ss \<Longrightarrow> pot_ok ss'"
proof -
  show "sum_list (map se_start_stack ss') = sum_list (map se_start_stack ss)"
    using assms by (induction rule: list_all2_induct) (auto simp: seat_step_def)
  show "sum_list (map se_stack ss') \<le> sum_list (map se_stack ss)"
    using assms by (induction rule: list_all2_induct) (auto simp: seat_step_def)
  have eq: "\<forall>s \<in> set ss. se_hand_commit s = se_street_commit s \<Longrightarrow>
      \<forall>s \<in> set ss'. se_hand_commit s = se_street_commit s"
    using assms by (induction rule: list_all2_induct) (auto simp: seat_step_def)
  have pos: "\<forall>s \<in> set ss. seat_live s \<longrightarrow> se_hand_commit s > 0 \<Longrightarrow>
      \<forall>s \<in> set ss'. seat_live s \<longrightarrow> se_hand_commit s > 0"
    using assms by (induction rule: list_all2_induct) (auto simp: seat_step_def seat_live_def)
  show "pot_ok ss \<Longrightarrow> pot_ok ss'"
    unfolding pot_ok_def using eq pos by (elim disjE) simp_all
qed

lemma table_step:
  assumes ok: "table_ok h" and same: "same_table h g"
    and step: "list_all2 (\<lambda>s s'. \<exists>p. seat_step p s s') (hd_seats h) (hd_seats g)"
    and bet: "\<forall>s \<in> set (hd_seats g). se_street_commit s \<le> hd_current_bet g"
  shows "table_ok g" and "starts g = starts h" and "stacks g \<le> stacks h"
proof -
  have "\<forall>s \<in> set (hd_seats g). seat_ok (hd_current_bet g) s"
  proof
    fix s' assume s': "s' \<in> set (hd_seats g)"
    then obtain k where k: "k < length (hd_seats g)" "s' = hd_seats g ! k"
      by (auto simp: in_set_conv_nth)
    then obtain p where p: "seat_step p (hd_seats h ! k) s'" "k < length (hd_seats h)"
      using step by (auto simp: list_all2_conv_all_nth)
    have "seat_ok (hd_current_bet h) (hd_seats h ! k)"
      using ok p(2) by (simp add: table_ok_def)
    with p(1) show "seat_ok (hd_current_bet g) s'"
      by (rule seat_step_ok) (use bet s' in blast)
  qed
  moreover have "pot_ok (hd_seats g)"
    using seat_step_sums(3) [OF step] ok by (simp add: table_ok_def)
  ultimately show "table_ok g"
    using ok same by (simp add: table_ok_def same_table_def in_play_def)
  show "starts g = starts h" "stacks g \<le> stacks h"
    using seat_step_sums [OF step] by (simp_all add: starts_def stacks_def)
qed

text \<open>A move that changes one seat.\<close>

lemma one_seat_step:
  assumes ok: "table_ok h" and i: "i < length (hd_seats h)"
    and seats: "hd_seats g = (hd_seats h)[i := s']" and same: "same_table h g"
    and bet: "hd_current_bet g = hd_current_bet h"
    and step: "seat_step p (hd_seats h ! i) s'" and le: "se_street_commit s' \<le> hd_current_bet h"
  shows "table_ok g" and "starts g = starts h" and "stacks g + p = stacks h"
proof -
  have sok: "\<forall>s \<in> set (hd_seats h). seat_ok (hd_current_bet h) s"
    using ok by (simp add: table_ok_def)
  then have keep: "seat_step 0 s s" if "s \<in> set (hd_seats h)" for s
    using that by (auto simp: seat_step_def seat_ok_def)
  have two: "list_all2 (\<lambda>s s'. \<exists>p. seat_step p s s') (hd_seats h) (hd_seats g)"
    unfolding seats list_all2_conv_all_nth
  proof (intro conjI allI impI)
    fix k assume k: "k < length (hd_seats h)"
    show "\<exists>p. seat_step p (hd_seats h ! k) ((hd_seats h)[i := s'] ! k)"
      using k step keep [OF nth_mem [OF k]] by (cases "k = i") auto
  qed simp
  have b: "\<forall>s \<in> set (hd_seats g). se_street_commit s \<le> hd_current_bet g"
  proof
    fix s assume "s \<in> set (hd_seats g)"
    then have "s = s' \<or> s \<in> set (hd_seats h)"
      unfolding seats by (auto dest: set_update_subset_insert [THEN subsetD])
    with sok le show "se_street_commit s \<le> hd_current_bet g"
      unfolding bet by (auto simp: seat_ok_def)
  qed
  show "table_ok g" "starts g = starts h"
    by (rule table_step [OF ok same two b])+
  show "stacks g + p = stacks h"
    using sum_list_update_le [OF i, of se_stack s'] step
    by (simp add: stacks_def seats seat_step_def)
qed

text \<open>The legal envelope of a hand in play: folding, checking or calling, and a raise interval.\<close>

definition raise_word :: "string \<Rightarrow> bool" where
  "raise_word m \<longleftrightarrow> m = ''bet'' \<or> m = ''raise''"

definition to_move :: "hand \<Rightarrow> seat" where
  "to_move h = hd_seats h ! nat (hd_to_act h)"

definition envelope :: "hand \<Rightarrow> legal_moves \<Rightarrow> bool" where
  "envelope h l \<longleftrightarrow> lg_seat l = nat (hd_to_act h) \<and> ''fold'' \<in> set (lg_actions l) \<and>
     lg_call_amount l = min (hd_current_bet h - se_street_commit (to_move h)) (se_stack (to_move h)) \<and>
     (\<forall>m \<in> set (lg_actions l). m = ''fold'' \<or> m = ''check'' \<and> lg_call_amount l = 0 \<or>
        m = ''call'' \<and> lg_call_amount l > 0 \<or> raise_word m) \<and>
     (\<forall>m \<in> set (lg_actions l). raise_word m \<longrightarrow>
        lg_min_raise_to l \<le> lg_max_raise_to l \<and> hd_current_bet h \<le> lg_min_raise_to l \<and>
        lg_max_raise_to l \<le> se_street_commit (to_move h) + se_stack (to_move h) \<and>
        (0 < hd_bb h \<longrightarrow> 0 < hd_min_raise_size h \<longrightarrow> hd_current_bet h < lg_min_raise_to l))"

lemma legal_ok:
  assumes "table_ok h"
  obtains l where "legal h = Returns (Some l)" "envelope h l"
proof -
  have ip: "in_play h" "\<not> (hd_to_act h < 0 \<or> length (hd_seats h) \<le> nat (hd_to_act h))"
    using assms by (auto simp: table_ok_def nat_less_iff)
  define s where "s = to_move h"
  define call where "call = min (hd_current_bet h - se_street_commit s) (se_stack s)"
  define behind where "behind = se_street_commit s + se_stack s"
  define may where "may = (behind > hd_current_bet h \<and> se_can_raise s \<and>
     \<not> (hd_limit h \<and> hd_street_raises h \<ge> hd_limit_cap h))"
  define bs where "bs = (if hd_street h \<le> 1 then hd_bb h else hd_bb h * 2)"
  define mn where "mn = (if hd_limit h then min (hd_current_bet h + bs) behind
     else hd_current_bet h + hd_min_raise_size h)"
  define mx where "mx = (if hd_limit h then (if may then mn else behind) else behind)"
  define l where "l = \<lparr>lg_seat = nat (hd_to_act h),
      lg_actions = [''fold'', if call = 0 then ''check'' else ''call''] @
         (if may then [if hd_current_bet h = 0 then ''bet'' else ''raise''] else []),
      lg_call_amount = call, lg_min_raise_to = (if may \<and> mn > mx then mx else mn),
      lg_max_raise_to = mx, lg_current_bet = hd_current_bet h\<rparr>"
  have "legal h = Returns (Some l)"
    using ip unfolding legal_def l_def call_def mx_def mn_def bs_def may_def behind_def s_def to_move_def Let_def
    by simp
  moreover have "m = ''fold'' \<or> m = ''check'' \<and> lg_call_amount l = 0 \<or>
       m = ''call'' \<and> lg_call_amount l > 0 \<or> raise_word m" if "m \<in> set (lg_actions l)" for m
    using that by (auto simp: l_def raise_word_def split: if_splits)
  moreover have "lg_min_raise_to l \<le> lg_max_raise_to l \<and> hd_current_bet h \<le> lg_min_raise_to l \<and>
       lg_max_raise_to l \<le> behind \<and>
       (0 < hd_bb h \<longrightarrow> 0 < hd_min_raise_size h \<longrightarrow> hd_current_bet h < lg_min_raise_to l)"
    if m: "m \<in> set (lg_actions l)" "raise_word m" for m
  proof -
    have may: "may" "behind > hd_current_bet h"
      using m by (auto simp: l_def raise_word_def may_def split: if_splits)
    have bs: "0 < hd_bb h \<longrightarrow> 0 < bs" by (simp add: bs_def)
    show ?thesis
      using may bs by (cases "hd_limit h") (simp_all add: l_def mx_def mn_def min_def)
  qed
  moreover have "lg_seat l = nat (hd_to_act h)" "''fold'' \<in> set (lg_actions l)" "lg_call_amount l = call"
    by (simp_all add: l_def)
  ultimately show ?thesis
    by (intro that [of l]) (simp_all add: envelope_def call_def behind_def s_def)
qed

text \<open>What a move leaves: a table the betting can go on from, and how far it got.\<close>

definition checked :: "hand \<Rightarrow> hand \<Rightarrow> bool" where
  "checked h g \<longleftrightarrow> (let i = nat (hd_to_act h) in
     hd_seats g = (hd_seats h)[i := (hd_seats h ! i)\<lparr>se_acted := True\<rparr>] \<and>
     hd_current_bet g = hd_current_bet h \<and> se_street_commit (hd_seats h ! i) = hd_current_bet h)"

definition progress :: "hand \<Rightarrow> hand \<Rightarrow> bool" where
  "progress h g \<longleftrightarrow> stacks g < stacks h \<or> length (live_seats g) < length (live_seats h) \<or> checked h g \<or>
     \<not> can_act h (nat (hd_to_act h))"

definition after_move :: "hand \<Rightarrow> hand \<Rightarrow> bool" where
  "after_move h g \<longleftrightarrow> table_ok g \<and> starts g = starts h \<and> stacks g \<le> stacks h \<and> same_table h g \<and>
     live_seats g \<noteq> [] \<and> length (live_seats g) \<le> length (live_seats h) \<and>
     hd_min_raise_size h \<le> hd_min_raise_size g \<and>
     (0 < hd_bb h \<longrightarrow> 0 < hd_min_raise_size h \<longrightarrow> progress h g)"

lemma live_seats_same:
  assumes "length (hd_seats g) = length (hd_seats h)"
    and "\<And>k. k < length (hd_seats h) \<Longrightarrow> seat_live (hd_seats g ! k) = seat_live (hd_seats h ! k)"
  shows "live_seats g = live_seats h"
  unfolding live_seats_def in_hand_live by (rule filter_cong) (use assms in auto)

lemma length_without:
  "distinct xs \<Longrightarrow> length (filter (\<lambda>k. k \<noteq> i) xs) = length xs - (if i \<in> set xs then 1 else 0)"
proof (induction xs)
  case (Cons x xs)
  then show ?case by (cases xs) (auto simp: filter_id_conv)
qed simp

lemma fold_after:
  assumes ok: "play_ok h" and i: "i = nat (hd_to_act h)"
    and g: "g = set_seat i (\<lambda>s. s\<lparr>se_acted := True\<rparr>) (add_log e (set_seat i (\<lambda>s. s\<lparr>se_folded := True\<rparr>) h))"
  shows "after_move h g"
proof -
  have t: "table_ok h" and two: "2 \<le> length (live_seats h)" using ok by (simp_all add: play_ok_def)
  have il: "i < length (hd_seats h)" using t i by (auto simp: table_ok_def nat_less_iff)
  let ?s = "(hd_seats h ! i)\<lparr>se_folded := True, se_acted := True\<rparr>"
  have seats: "hd_seats g = (hd_seats h)[i := ?s]"
    using il by (simp add: g set_seat_def add_log_def)
  have sok: "seat_ok (hd_current_bet h) (hd_seats h ! i)" using t il by (simp add: table_ok_def)
  have same: "same_table h g" by (simp add: g same_table_def)
  have step: "seat_step 0 (hd_seats h ! i) ?s" using sok by (auto simp: seat_step_def seat_ok_def)
  have le: "se_street_commit ?s \<le> hd_current_bet h" using sok by (simp add: seat_ok_def)
  have bet: "hd_current_bet g = hd_current_bet h" by (simp add: g)
  note one = one_seat_step [OF t il seats same bet step le]
  have live: "live_seats g = filter (\<lambda>k. k \<noteq> i) (live_seats h)"
    unfolding live_seats_def in_hand_live filter_filter
    by (rule filter_cong) (use il in \<open>auto simp: seats nth_list_update seat_live_def\<close>)
  have dist: "distinct (live_seats h)" by (simp add: live_seats_def)
  note len = length_without [OF dist, of i, folded live]
  have "can_act h i \<Longrightarrow> i \<in> set (live_seats h)"
    using il by (simp add: live_seats_def can_act_def)
  then have "progress h g" using len two by (auto simp: progress_def i)
  moreover have "live_seats g \<noteq> []" using len two by (auto split: if_splits)
  moreover have "hd_min_raise_size g = hd_min_raise_size h" by (simp add: g)
  ultimately show ?thesis using one same len by (simp add: after_move_def)
qed

lemma check_after:
  assumes ok: "play_ok h" and i: "i = nat (hd_to_act h)"
    and call: "min (hd_current_bet h - se_street_commit (to_move h)) (se_stack (to_move h)) = 0"
    and g: "g = set_seat i (\<lambda>s. s\<lparr>se_acted := True\<rparr>) (add_log e h)"
  shows "after_move h g"
proof -
  have t: "table_ok h" and two: "2 \<le> length (live_seats h)" using ok by (simp_all add: play_ok_def)
  have il: "i < length (hd_seats h)" using t i by (auto simp: table_ok_def nat_less_iff)
  let ?s = "(hd_seats h ! i)\<lparr>se_acted := True\<rparr>"
  have seats: "hd_seats g = (hd_seats h)[i := ?s]"
    by (simp add: g set_seat_def add_log_def)
  have sok: "seat_ok (hd_current_bet h) (hd_seats h ! i)" using t il by (simp add: table_ok_def)
  have same: "same_table h g" by (simp add: g same_table_def)
  have step: "seat_step 0 (hd_seats h ! i) ?s" using sok by (auto simp: seat_step_def seat_ok_def)
  have le: "se_street_commit ?s \<le> hd_current_bet h" using sok by (simp add: seat_ok_def)
  have bet: "hd_current_bet g = hd_current_bet h" by (simp add: g)
  note one = one_seat_step [OF t il seats same bet step le]
  have live: "live_seats g = live_seats h"
    by (rule live_seats_same) (use il in \<open>auto simp: seats nth_list_update seat_live_def\<close>)
  have "se_street_commit (hd_seats h ! i) = hd_current_bet h" if "can_act h i"
    using that call sok i by (auto simp: to_move_def can_act_def in_hand_def seat_ok_def min_def split: if_splits)
  then have "progress h g" using seats bet by (auto simp: progress_def checked_def i)
  moreover have "hd_min_raise_size g = hd_min_raise_size h" by (simp add: g)
  ultimately show ?thesis using one same live two by (auto simp: after_move_def)
qed

lemma commit_seat_step:
  "\<lbrakk>seat_ok bet s; p = min a (se_stack s)\<rbrakk> \<Longrightarrow> seat_step p s (commit_seat a s)"
  by (auto simp: seat_step_def seat_ok_def commit_seat_def Let_def)

lemma commit_seat_frame:
  "se_street_commit (commit_seat a s) = se_street_commit s + min a (se_stack s)"
  "seat_live (commit_seat a s) = seat_live s"
  by (simp_all add: commit_seat_def Let_def seat_live_def)

lemma call_after:
  assumes ok: "play_ok h" and i: "i = nat (hd_to_act h)"
    and c: "c = min (hd_current_bet h - se_street_commit (to_move h)) (se_stack (to_move h))" "c > 0"
    and g: "g = set_seat i (\<lambda>s. s\<lparr>se_acted := True\<rparr>) (add_log e (commit i c None h))"
  shows "after_move h g"
proof -
  have t: "table_ok h" and two: "2 \<le> length (live_seats h)" using ok by (simp_all add: play_ok_def)
  have il: "i < length (hd_seats h)" using t i by (auto simp: table_ok_def nat_less_iff)
  let ?s = "(commit_seat c (hd_seats h ! i))\<lparr>se_acted := True\<rparr>"
  have seats: "hd_seats g = (hd_seats h)[i := ?s]"
    using il by (simp add: g set_seat_def add_log_def commit_def Let_def)
  have sok: "seat_ok (hd_current_bet h) (hd_seats h ! i)" using t il by (simp add: table_ok_def)
  have same: "same_table h g" by (simp add: g same_table_def commit_def Let_def)
  have cm: "min c (se_stack (hd_seats h ! i)) = c" using c(1) i by (simp add: to_move_def)
  have step: "seat_step c (hd_seats h ! i) ?s"
    using commit_seat_step [OF sok, of c c] cm by (simp add: seat_step_def)
  have "c \<le> hd_current_bet h - se_street_commit (hd_seats h ! i)" using c(1) i by (simp add: to_move_def)
  moreover have "se_street_commit (hd_seats h ! i) \<le> hd_current_bet h" using sok by (simp add: seat_ok_def)
  ultimately have le: "se_street_commit ?s \<le> hd_current_bet h"
    using cm by (simp add: commit_seat_frame)
  have bet: "hd_current_bet g = hd_current_bet h" by (simp add: g commit_def Let_def)
  note one = one_seat_step [OF t il seats same bet step le]
  have live: "live_seats g = live_seats h"
    by (rule live_seats_same)
      (use il commit_seat_frame(2) [of c] in \<open>auto simp: seats nth_list_update seat_live_def\<close>)
  have "progress h g" using one(3) c(2) by (auto simp: progress_def)
  moreover have "hd_min_raise_size g = hd_min_raise_size h" by (simp add: g commit_def Let_def)
  ultimately show ?thesis using one same live two by (auto simp: after_move_def)
qed

lemma raise_after:
  assumes ok: "play_ok h" and i: "i = nat (hd_to_act h)"
    and lo: "hd_current_bet h \<le> x" and hi: "x \<le> se_street_commit (to_move h) + se_stack (to_move h)"
    and gt: "0 < hd_bb h \<Longrightarrow> 0 < hd_min_raise_size h \<Longrightarrow> hd_current_bet h < x"
    and g: "g = set_seat i (\<lambda>s. s\<lparr>se_acted := True\<rparr>) (raise_to i x h)"
  shows "after_move h g"
proof -
  have t: "table_ok h" and two: "2 \<le> length (live_seats h)" using ok by (simp_all add: play_ok_def)
  have il: "i < length (hd_seats h)" using t i by (auto simp: table_ok_def nat_less_iff)
  define s where "s = hd_seats h ! i"
  define p where "p = x - se_street_commit s"
  let ?s = "commit_seat p s"
  have sok: "seat_ok (hd_current_bet h) s" using t il by (simp add: table_ok_def s_def)
  have all_ok: "\<And>k. k < length (hd_seats h) \<Longrightarrow> seat_ok (hd_current_bet h) (hd_seats h ! k)"
    using t by (simp add: table_ok_def)
  have ps: "p \<le> se_stack s" "se_street_commit s + p = x"
    using hi lo sok i by (simp_all add: p_def s_def to_move_def seat_ok_def)
  have same: "same_table h g"
    by (simp add: g raise_to_def same_table_def commit_def Let_def)
  have bet: "hd_current_bet g = x"
    by (simp add: g raise_to_def commit_def Let_def)
  have mr: "hd_min_raise_size h \<le> hd_min_raise_size g"
    by (simp add: g raise_to_def commit_def Let_def)
  have nth: "\<exists>s'. hd_seats g ! k = s' \<and> seat_step (if k = i then p else 0) (hd_seats h ! k) s' \<and>
      seat_live s' = seat_live (hd_seats h ! k)" if k: "k < length (hd_seats h)" for k
  proof (cases "k = i")
    case True
    then have "hd_seats g ! k = ?s\<lparr>se_acted := True\<rparr>"
      using k by (simp add: g raise_to_def commit_def Let_def set_seat_def add_log_def
          nth_enumerate_eq s_def p_def)
    moreover have "seat_step p s ?s" using commit_seat_step [OF sok, of p p] ps(1) by simp
    ultimately show ?thesis
      using True commit_seat_frame(2) [of p s] by (simp add: seat_step_def seat_live_def s_def)
  next
    case False
    let ?t = "hd_seats h ! k"
    have "hd_seats g ! k = ?t\<lparr>se_can_raise := True, se_acted := False\<rparr> \<or>
        hd_seats g ! k = ?t\<lparr>se_can_raise := False\<rparr> \<or> hd_seats g ! k = ?t"
      using k False by (simp add: g raise_to_def commit_def Let_def set_seat_def add_log_def
          nth_enumerate_eq)
    with all_ok [OF k] False show ?thesis
      by (auto simp: seat_step_def seat_live_def seat_ok_def)
  qed
  have len: "length (hd_seats g) = length (hd_seats h)" using same by (simp add: same_table_def)
  have two2: "list_all2 (\<lambda>s s'. \<exists>p. seat_step p s s') (hd_seats h) (hd_seats g)"
    unfolding list_all2_conv_all_nth len
  proof (intro conjI allI impI)
    fix k assume "k < length (hd_seats h)"
    from nth [OF this] show "\<exists>p. seat_step p (hd_seats h ! k) (hd_seats g ! k)" by blast
  qed simp
  have b: "\<forall>s \<in> set (hd_seats g). se_street_commit s \<le> hd_current_bet g"
  proof
    fix s' assume "s' \<in> set (hd_seats g)"
    then obtain k where k: "k < length (hd_seats h)" "s' = hd_seats g ! k"
      unfolding in_set_conv_nth len by blast
    have "seat_step (if k = i then p else 0) (hd_seats h ! k) s'" using nth [OF k(1)] k(2) by blast
    with all_ok [OF k(1)] lo ps(2) show "se_street_commit s' \<le> hd_current_bet g"
      unfolding bet by (cases "k = i") (auto simp: seat_step_def seat_ok_def s_def)
  qed
  note step = table_step [OF t same two2 b]
  have live: "live_seats g = live_seats h"
    by (rule live_seats_same [OF len]) (use nth in blast)
  have "progress h g" if "0 < hd_bb h" "0 < hd_min_raise_size h"
  proof -
    have p0: "p > 0" using gt [OF that] sok by (simp add: p_def seat_ok_def)
    have "stacks g < stacks h"
    proof -
      have "sum_list (map se_stack ss') < sum_list (map se_stack ss)"
        if "list_all2 (\<lambda>s s'. \<exists>p. seat_step p s s') ss ss'" "j < length ss" "se_stack (ss' ! j) < se_stack (ss ! j)"
        for ss ss' j
        using that
      proof (induction arbitrary: j rule: list_all2_induct)
        case (Cons x xs y ys)
        have le: "se_stack y \<le> se_stack x" using Cons(1) by (auto simp: seat_step_def)
        have "sum_list (map se_stack ys) \<le> sum_list (map se_stack xs)" by (rule seat_step_sums [OF Cons(2)])
        with le Cons.prems Cons.IH show ?case by (cases j) (auto intro: add_less_le_mono add_le_less_mono)
      qed simp
      from this [OF two2 il] nth [OF il] p0 show ?thesis
        by (auto simp: stacks_def seat_step_def)
    qed
    then show ?thesis by (simp add: progress_def)
  qed
  then show ?thesis using step same live two mr by (auto simp: after_move_def)
qed

lemma move_ok:
  assumes ok: "play_ok h" and l: "legal h = Returns (Some l)" and turn: "int (ac_seat a) = hd_to_act h"
    and m: "ac_action a \<in> set (lg_actions l)" and g: "play_move l a h = Inr g"
  shows "after_move h (set_seat (ac_seat a) (\<lambda>s. s\<lparr>se_acted := True\<rparr>) g)"
proof -
  have t: "table_ok h" using ok by (simp add: play_ok_def)
  have i: "ac_seat a = nat (hd_to_act h)" using turn by simp
  have env: "envelope h l" by (rule legal_ok [OF t]) (use l in simp)
  have l': "lg_call_amount l = min (hd_current_bet h - se_street_commit (to_move h)) (se_stack (to_move h))"
    "ac_action a = ''fold'' \<or> ac_action a = ''check'' \<and> lg_call_amount l = 0 \<or>
     ac_action a = ''call'' \<and> lg_call_amount l > 0 \<or> raise_word (ac_action a)"
    using env m unfolding envelope_def by blast+
  consider "ac_action a = ''fold''" | "ac_action a = ''check''" "lg_call_amount l = 0"
    | "ac_action a = ''call''" "lg_call_amount l > 0" | "raise_word (ac_action a)"
    using l'(2) by metis
  then show ?thesis
  proof cases
    case 1
    with g have g': "g = add_log ((log_ev ''fold'')\<lparr>le_seat := Some (ac_seat a)\<rparr>)
        (set_seat (ac_seat a) (\<lambda>s. s\<lparr>se_folded := True\<rparr>) h)"
      by (simp add: play_move_def Let_def)
    show ?thesis unfolding g' by (rule fold_after [OF ok i refl])
  next
    case 2
    with g have g': "g = add_log ((log_ev ''check'')\<lparr>le_seat := Some (ac_seat a)\<rparr>) h"
      by (simp add: play_move_def Let_def)
    show ?thesis unfolding g' by (rule check_after [OF ok i _ refl]) (use l'(1) 2 in simp)
  next
    case 3
    with g have g': "g = add_log ((log_ev ''call'')\<lparr>le_seat := Some (ac_seat a), le_amount := Some (lg_call_amount l)\<rparr>)
        (commit (ac_seat a) (lg_call_amount l) None h)"
      by (simp add: play_move_def Let_def)
    show ?thesis unfolding g' by (rule call_after [OF ok i l'(1) 3(2) refl])
  next
    case 4
    then have "ac_action a \<noteq> ''fold''" "ac_action a \<noteq> ''check''" "ac_action a \<noteq> ''call''"
      by (auto simp: raise_word_def)
    with g obtain x where x: "g = raise_to (ac_seat a) x h" "lg_min_raise_to l \<le> x" "x \<le> lg_max_raise_to l"
      by (auto simp: play_move_def Let_def split: option.splits if_splits)
    have r: "hd_current_bet h \<le> lg_min_raise_to l" "lg_max_raise_to l \<le> se_street_commit (to_move h) + se_stack (to_move h)"
      "0 < hd_bb h \<Longrightarrow> 0 < hd_min_raise_size h \<Longrightarrow> hd_current_bet h < lg_min_raise_to l"
      using env m 4 unfolding envelope_def by blast+
    show ?thesis unfolding x(1)
      using r x(2,3) by (intro raise_after [OF ok i _ _ _ refl]) auto
  qed
qed

lemma move_accepted:
  assumes "\<And>x. raise_word (ac_action a) \<Longrightarrow> \<exists>x. ac_amount a = Some x \<and> lg_min_raise_to l \<le> x \<and> x \<le> lg_max_raise_to l"
    and "ac_action a = ''fold'' \<or> ac_action a = ''check'' \<or> ac_action a = ''call'' \<or> raise_word (ac_action a)"
  shows "\<exists>g. play_move l a h = Inr g"
  using assms by (auto simp: play_move_def Let_def raise_word_def)

text \<open>How an accepted action changes the hand: a move, then the betting moves on.\<close>

definition stepped :: "hand \<Rightarrow> hand \<Rightarrow> bool" where
  "stepped h h' \<longleftrightarrow> (\<exists>g. after_move h g \<and>
    (paid_out (starts g) h' \<or> passed_on g h' \<or>
     opened g h' \<and> (\<forall>i \<in> set (live_seats g). can_act g i \<longrightarrow> settled_seat g i)))"

lemma act_cases:
  assumes ok: "play_ok h"
  shows "(\<exists>e. act h a = Returns (Inl e)) \<or> (\<exists>h'. act h a = Returns (Inr h') \<and> stepped h h')"
proof (cases "int (ac_seat a) = hd_to_act h")
  case turn: True
  have t: "table_ok h" and ip: "in_play h" using ok by (simp_all add: play_ok_def table_ok_def)
  obtain l where l: "legal h = Returns (Some l)" by (rule legal_ok [OF t])
  show ?thesis
  proof (cases "ac_action a \<in> set (lg_actions l)")
    case m: True
    show ?thesis
    proof (cases "play_move l a h")
      case (Inl e)
      with ip turn l m show ?thesis by (simp add: act_def)
    next
      case (Inr g)
      let ?g = "set_seat (ac_seat a) (\<lambda>s. s\<lparr>se_acted := True\<rparr>) g"
      have am: "after_move h ?g" by (rule move_ok [OF ok l turn m Inr])
      then have "table_ok ?g" "live_seats ?g \<noteq> []" by (simp_all add: after_move_def)
      from advance_ok [OF this] obtain h' where h': "advance ?g = Returns h'"
        "paid_out (starts ?g) h' \<or> passed_on ?g h' \<or>
         opened ?g h' \<and> (\<forall>i \<in> set (live_seats ?g). can_act ?g i \<longrightarrow> settled_seat ?g i)" by blast
      have "act h a = Returns (Inr h')" using ip turn l m Inr h'(1) by (simp add: act_def)
      with am h'(2) show ?thesis unfolding stepped_def by blast
    qed
  next
    case False
    with ip turn l show ?thesis by (simp add: act_def)
  qed
next
  case False
  then show ?thesis by (simp add: act_def)
qed

lemma stepped_ok:
  assumes "stepped h h'"
  shows "starts h' = starts h" and "play_ok h' \<or> paid_out (starts h) h'"
proof -
  obtain g where am: "after_move h g" and c: "paid_out (starts g) h' \<or> passed_on g h' \<or> opened g h'"
    using assms by (auto simp: stepped_def)
  have s: "starts g = starts h" using am by (simp add: after_move_def)
  from c have "starts h' = starts h \<and> (play_ok h' \<or> paid_out (starts h) h')"
  proof (elim disjE)
    assume p: "passed_on g h'"
    then have "hd_seats h' = hd_seats g" "play_ok h'" by (auto simp: passed_on_def)
    with seats_only(2) [OF this(1)] s show ?thesis by simp
  qed (auto simp: paid_out_def opened_def s)
  then show "starts h' = starts h" "play_ok h' \<or> paid_out (starts h) h'" by blast+
qed

section \<open>The deal\<close>

definition buy_in :: "hand_config \<Rightarrow> nat" where
  "buy_in cfg = sum_list (map sg_stack (cf_seats cfg))"

text \<open>The tables the deck can serve: the button is a seat, and two cards each leave a board.\<close>

definition table_size_ok :: "hand_config \<Rightarrow> bool" where
  "table_size_ok cfg \<longleftrightarrow> cf_button cfg < length (cf_seats cfg) \<and> length (cf_seats cfg) \<le> 23"

definition blind_seat :: "seat \<Rightarrow> bool" where
  "blind_seat s \<longleftrightarrow> seat_ok (se_street_commit s) s \<and> se_hand_commit s = se_street_commit s \<and> \<not> se_folded s"

text \<open>What posting keeps.\<close>

definition posted :: "hand \<Rightarrow> hand \<Rightarrow> bool" where
  "posted h g \<longleftrightarrow> same_table h g \<and> hd_min_raise_size g = hd_min_raise_size h \<and> starts g = starts h \<and>
     (\<forall>k < length (hd_seats h). se_out (hd_seats g ! k) = se_out (hd_seats h ! k)) \<and>
     ((\<forall>s \<in> set (hd_seats h). blind_seat s) \<longrightarrow> (\<forall>s \<in> set (hd_seats g). blind_seat s))"

lemma posted_refl: "posted h h"
  by (simp add: posted_def same_table_def)

lemma posted_trans: "\<lbrakk>posted h g; posted g k\<rbrakk> \<Longrightarrow> posted h k"
  by (auto simp: posted_def same_table_def)

lemma commit_posted: "posted h (commit i a why h)"
proof -
  have seats: "hd_seats (commit i a why h) = (hd_seats h)[i := commit_seat a (hd_seats h ! i)]"
    by (simp add: commit_def Let_def set_seat_def split: option.split)
  have keep: "se_start_stack (commit_seat a s) = se_start_stack s" "se_out (commit_seat a s) = se_out s" for s
    by (simp_all add: commit_seat_def Let_def)
  have blind: "blind_seat (commit_seat a s)" if "blind_seat s" for s
    using that by (auto simp: blind_seat_def seat_ok_def whole_seat_def commit_seat_def Let_def)
  have "starts (commit i a why h) = starts h"
  proof (cases "i < length (hd_seats h)")
    case True
    from sum_list_update_le [OF True, of se_start_stack "commit_seat a (hd_seats h ! i)"]
    show ?thesis by (simp add: starts_def seats keep)
  qed (simp add: starts_def seats list_update_beyond)
  moreover have "same_table h (commit i a why h)" "hd_min_raise_size (commit i a why h) = hd_min_raise_size h"
    by (simp_all add: same_table_def seats) (simp_all add: commit_def Let_def split: option.split)
  moreover have "blind_seat s" if b: "\<forall>s \<in> set (hd_seats h). blind_seat s" and s: "s \<in> set (hd_seats (commit i a why h))" for s
  proof (cases "i < length (hd_seats h)")
    case True
    then have "s = commit_seat a (hd_seats h ! i) \<or> s \<in> set (hd_seats h)"
      using s unfolding seats by (auto dest: set_update_subset_insert [THEN subsetD])
    then show ?thesis using b blind True by auto
  next
    case False
    then show ?thesis using b s by (simp add: seats list_update_beyond)
  qed
  moreover have "se_out (hd_seats (commit i a why h) ! k) = se_out (hd_seats h ! k)" if "k < length (hd_seats h)" for k
    using that by (cases "k = i") (simp_all add: seats keep)
  ultimately show ?thesis unfolding posted_def by blast
qed

lemma antes_posted: "posted h (fold (\<lambda>i. commit i a why) is h)"
proof (induction "is" arbitrary: h)
  case (Cons i "is")
  show ?case using posted_trans [OF commit_posted Cons.IH] by simp
qed (simp add: posted_refl)

definition strip :: "seat \<Rightarrow> seat" where
  "strip s = s\<lparr>se_hole := None\<rparr>"

lemma deal_round_ok:
  assumes "hd_deck_pos h + length is \<le> length (hd_deck h)"
  shows "\<exists>p ss. deal_round is h = Returns (h\<lparr>hd_deck_pos := p, hd_seats := ss\<rparr>) \<and>
    p \<le> hd_deck_pos h + length is \<and> map strip ss = map strip (hd_seats h)"
  using assms
proof (induction "is" arbitrary: h)
  case Nil
  then show ?case by (intro exI [of _ "hd_deck_pos h"] exI [of _ "hd_seats h"]) simp
next
  case (Cons i "is")
  show ?case
  proof (cases "se_out (hd_seats h ! i)")
    case True
    from Cons.IH [of h] Cons.prems obtain p ss where
      "deal_round is h = Returns (h\<lparr>hd_deck_pos := p, hd_seats := ss\<rparr>)"
      "p \<le> hd_deck_pos h + length is" "map strip ss = map strip (hd_seats h)" by auto
    with True show ?thesis by (intro exI [of _ p] exI [of _ ss]) simp
  next
    case False
    define c where "c = hd_deck h ! hd_deck_pos h"
    have dc: "deal_card h = Returns (c, h\<lparr>hd_deck_pos := hd_deck_pos h + 1\<rparr>)"
      using Cons.prems by (simp add: deal_card_def get_at_def c_def)
    let ?f = "\<lambda>s. s\<lparr>se_hole := Some ((case se_hole s of Some cs \<Rightarrow> cs | None \<Rightarrow> []) @ [c])\<rparr>"
    let ?g = "set_seat i ?f (h\<lparr>hd_deck_pos := hd_deck_pos h + 1\<rparr>)"
    obtain p ss where ih: "deal_round is ?g = Returns (?g\<lparr>hd_deck_pos := p, hd_seats := ss\<rparr>)"
      "p \<le> hd_deck_pos ?g + length is" "map strip ss = map strip (hd_seats ?g)"
      using Cons.IH [of ?g] Cons.prems by auto
    have "map strip (hd_seats ?g) = map strip (hd_seats h)"
      by (rule nth_equalityI) (auto simp: set_seat_nth strip_def)
    moreover have "deal_round (i # is) h = deal_round is ?g"
      using False by (simp add: dc)
    moreover have "?g\<lparr>hd_deck_pos := p, hd_seats := ss\<rparr> = h\<lparr>hd_deck_pos := p, hd_seats := ss\<rparr>"
      by (simp add: set_seat_def)
    ultimately show ?thesis using ih by (intro exI [of _ p] exI [of _ ss]) simp
  qed
qed

text \<open>Dealing hole cards changes nothing a move looks at.\<close>

lemma strip_same:
  assumes "map strip ss = map strip ss'"
  shows "length ss = length ss'" and "k < length ss' \<Longrightarrow> strip (ss ! k) = strip (ss' ! k)"
  using assms by (metis length_map, metis length_map nth_map)

lemma strip_fields:
  assumes "strip s = strip s'"
  shows "blind_seat s = blind_seat s'" "se_street_commit s = se_street_commit s'" "se_out s = se_out s'"
    "se_start_stack s = se_start_stack s'"
proof -
  have "seat.truncate s = seat.truncate s \<and> se_name (strip s) = se_name (strip s') \<and>
    se_start_stack (strip s) = se_start_stack (strip s') \<and> se_stack (strip s) = se_stack (strip s') \<and>
    se_folded (strip s) = se_folded (strip s') \<and> se_all_in (strip s) = se_all_in (strip s') \<and>
    se_out (strip s) = se_out (strip s') \<and> se_street_commit (strip s) = se_street_commit (strip s') \<and>
    se_hand_commit (strip s) = se_hand_commit (strip s')"
    by (simp add: assms)
  then have f: "se_start_stack s = se_start_stack s'" "se_stack s = se_stack s'" "se_folded s = se_folded s'"
    "se_all_in s = se_all_in s'" "se_out s = se_out s'" "se_street_commit s = se_street_commit s'"
    "se_hand_commit s = se_hand_commit s'"
    by (simp_all add: strip_def)
  show "blind_seat s = blind_seat s'" by (simp add: blind_seat_def seat_ok_def whole_seat_def f)
  show "se_street_commit s = se_street_commit s'" "se_out s = se_out s'" "se_start_stack s = se_start_stack s'"
    by (rule f)+
qed

lemma fold_max_upper: "x \<in> set xs \<Longrightarrow> x \<le> fold max xs (0 :: nat)"
proof -
  assume "x \<in> set xs"
  then have "x \<le> Max (set (0 # xs))" by simp
  also have "\<dots> = fold max xs 0" by (rule Max.set_eq_fold)
  finally show ?thesis .
qed

lemma deck_length:
  assumes "shuffled_deck s = Inr deck" shows "length deck = 52"
proof -
  obtain r where r: "deck = shuffle_down 52 r [0..<52]"
    using assms by (auto simp: shuffled_deck_def split: sum.splits)
  have "mset deck = mset [0..<52]" unfolding r by (rule shuffle_down_mset) simp
  from mset_eq_length [OF this] show ?thesis by simp
qed

text \<open>The blinds: what the table looks like before the cards.\<close>

lemma post_blinds_ok:
  assumes "\<forall>s \<in> set (hd_seats h). blind_seat s" and g: "g = post_blinds cfg live sb bb h"
  shows "same_table h g" and "hd_min_raise_size g = cf_bb cfg" and "starts g = starts h"
    and "\<And>k. k < length (hd_seats h) \<Longrightarrow> se_out (hd_seats g ! k) = se_out (hd_seats h ! k)"
    and "\<forall>s \<in> set (hd_seats g). blind_seat s \<and> se_street_commit s \<le> hd_current_bet g"
proof -
  define h1 where "h1 = (if cf_ante cfg > 0 then fold (\<lambda>i. commit i (cf_ante cfg) (Some ''ante'')) live h else h)"
  define h2 where "h2 = commit bb (cf_bb cfg) (Some ''bb'') (commit sb (cf_sb cfg) (Some ''sb'') h1)"
  have "posted h h1" using antes_posted posted_refl by (simp add: h1_def)
  then have p: "posted h h2" unfolding h2_def by (intro posted_trans [OF _ commit_posted])
  have g': "g = h2\<lparr>hd_current_bet := fold max (map se_street_commit (hd_seats h2)) 0, hd_min_raise_size := cf_bb cfg\<rparr>"
    unfolding g post_blinds_def Let_def h1_def h2_def ..
  have seats: "hd_seats g = hd_seats h2" by (simp add: g')
  show "same_table h g" using p by (simp add: posted_def same_table_def g')
  show "hd_min_raise_size g = cf_bb cfg" by (simp add: g')
  show "starts g = starts h" using p by (simp add: posted_def seats_only(2) [OF seats])
  show "se_out (hd_seats g ! k) = se_out (hd_seats h ! k)" if "k < length (hd_seats h)" for k
    using p that by (simp add: posted_def seats)
  have "\<forall>s \<in> set (hd_seats h2). se_street_commit s \<le> fold max (map se_street_commit (hd_seats h2)) 0"
    by (auto intro: fold_max_upper)
  then show "\<forall>s \<in> set (hd_seats g). blind_seat s \<and> se_street_commit s \<le> hd_current_bet g"
    using p assms(1) by (simp add: posted_def g')
qed

text \<open>A hand as it is dealt: before the first action, or run out when nobody can act.\<close>

definition dealt :: "hand_config \<Rightarrow> hand \<Rightarrow> bool" where
  "dealt cfg h \<longleftrightarrow> starts h = buy_in cfg \<and>
     (play_ok h \<and> hd_bb h = cf_bb cfg \<and> hd_min_raise_size h = cf_bb cfg \<or> paid_out (buy_in cfg) h)"

lemma new_hand_ok:
  assumes size: "table_size_ok cfg"
  shows "(\<exists>e. new_hand cfg = Returns (Inl e)) \<or> (\<exists>h. new_hand cfg = Returns (Inr h) \<and> dealt cfg h)"
proof (cases "shuffled_deck (cf_seed_hex cfg)")
  case (Inl e)
  then show ?thesis by (simp add: new_hand_def)
next
  case (Inr deck)
  define h0 where "h0 = fresh_hand cfg deck"
  define fb where "fb = order (int (cf_button cfg) + 1) h0"
  define live where "live = filter (\<lambda>i. \<not> se_out (hd_seats h0 ! i)) fb"
  define hu where "hu = (length live = 2)"
  define sb where "sb = (if hu then cf_button cfg else live ! 0)"
  define bb where "bb = (if hu then
     (case List.find (\<lambda>i. i \<noteq> cf_button cfg) live of Some i \<Rightarrow> i | None \<Rightarrow> live ! 1) else live ! 1)"
  define h1 where "h1 = post_blinds cfg live sb bb h0"
  let ?n = "length (cf_seats cfg)"
  have nh: "new_hand cfg = (if length live < 2 then Returns (Inl NeedTwoPlayers)
       else if sb \<ge> length (hd_seats h0) then Panics
       else obind (deal_round fb h1) (\<lambda>h. obind (deal_round fb h) (\<lambda>h.
         let h = h\<lparr>hd_to_act := (if hu then int sb else next_actor (int bb + 1) h),
                   hd_heads_up := hu, hd_sb_seat := sb, hd_bb_seat := bb\<rparr>;
             h = add_log ((log_ev ''deal'')\<lparr>le_sb := Some sb, le_bb := Some bb\<rparr>) h
         in if filter (can_act h) (live_seats h) = []
            then obind (run_out h) (\<lambda>h. Returns (Inr h)) else Returns (Inr h))))"
    unfolding new_hand_def Inr sum.case Let_def h0_def [symmetric] fb_def [symmetric] live_def [symmetric]
      hu_def [symmetric] sb_def [symmetric] bb_def [symmetric] h1_def [symmetric] ..
  have f0: "hd_n h0 = ?n" "length (hd_seats h0) = ?n" "hd_deck h0 = deck" "hd_deck_pos h0 = 0"
    "hd_board h0 = []" "hd_street h0 = 0" "hd_phase h0 = ''act''" "hd_bb h0 = cf_bb cfg"
    by (simp_all add: h0_def fresh_hand_def)
  have blind0: "\<forall>s \<in> set (hd_seats h0). blind_seat s"
    by (auto simp: h0_def fresh_hand_def blind_seat_def seat_ok_def whole_seat_def)
  have starts0: "starts h0 = buy_in cfg"
    by (simp add: starts_def buy_in_def h0_def fresh_hand_def comp_def)
  note pb = post_blinds_ok [OF blind0 h1_def]
  have f1: "hd_n h1 = ?n" "length (hd_seats h1) = ?n" "hd_deck h1 = deck" "hd_deck_pos h1 = 0"
    "hd_board h1 = []" "hd_street h1 = 0" "hd_phase h1 = ''act''" "hd_bb h1 = cf_bb cfg"
    using pb(1) f0 by (simp_all add: same_table_def)
  have setfb: "set fb = {0..<?n}" using order_set [of "int (cf_button cfg) + 1" h0] by (simp add: fb_def f0)
  have lenfb: "length fb = ?n" by (simp add: fb_def order_def f0)
  have d52: "length deck = 52" by (rule deck_length [OF Inr])
  have n23: "?n \<le> 23" "cf_button cfg < ?n" using size by (simp_all add: table_size_ok_def)
  show ?thesis
  proof (cases "length live < 2")
    case True
    then show ?thesis by (simp add: nh)
  next
    case False
    have lv: "set live \<subseteq> {0..<?n}" unfolding live_def setfb [symmetric] by (rule filter_is_subset)
    have "live ! 0 \<in> set live" using False by (intro nth_mem) linarith
    with lv have "live ! 0 < ?n" by (metis atLeastLessThan_iff subsetD)
    then have sbn: "sb < ?n" using n23(2) by (simp add: sb_def)
    obtain p1 s1 where d1: "deal_round fb h1 = Returns (h1\<lparr>hd_deck_pos := p1, hd_seats := s1\<rparr>)"
      "p1 \<le> ?n" "map strip s1 = map strip (hd_seats h1)"
      using deal_round_ok [of h1 fb] lenfb f1 d52 n23 by auto
    let ?h2 = "h1\<lparr>hd_deck_pos := p1, hd_seats := s1\<rparr>"
    obtain p2 s2 where d2: "deal_round fb ?h2 = Returns (?h2\<lparr>hd_deck_pos := p2, hd_seats := s2\<rparr>)"
      "p2 \<le> p1 + ?n" "map strip s2 = map strip s1"
      using deal_round_ok [of ?h2 fb] lenfb f1 d52 n23 d1(2) by auto
    let ?h3 = "?h2\<lparr>hd_deck_pos := p2, hd_seats := s2\<rparr>"
    define a where "a = (if hu then int sb else next_actor (int bb + 1) ?h3)"
    define h where "h = add_log ((log_ev ''deal'')\<lparr>le_sb := Some sb, le_bb := Some bb\<rparr>)
       (?h3\<lparr>hd_to_act := a, hd_heads_up := hu, hd_sb_seat := sb, hd_bb_seat := bb\<rparr>)"
    have nh': "new_hand cfg = (if filter (can_act h) (live_seats h) = []
            then obind (run_out h) (\<lambda>h. Returns (Inr h)) else Returns (Inr h))"
      using False sbn unfolding nh d1(1) d2(1) obind_Returns Let_def h_def a_def f0 by simp
    have hs: "hd_seats h = s2" and hf: "hd_n h = ?n" "hd_deck h = deck" "hd_deck_pos h = p2"
      "hd_board h = []" "hd_street h = 0" "hd_phase h = ''act''" "hd_bb h = cf_bb cfg"
      "hd_current_bet h = hd_current_bet h1" "hd_min_raise_size h = cf_bb cfg" "hd_to_act h = a"
      using f1 pb(2) by (simp_all add: h_def)
    have st: "map strip s2 = map strip (hd_seats h1)" using d1(3) d2(3) by simp
    have len2: "length s2 = ?n" using strip_same(1) [OF st] f1 by simp
    have blind: "blind_seat s \<and> se_street_commit s \<le> hd_current_bet h1" if s: "s \<in> set s2" for s
    proof -
      obtain k where k: "k < length s2" "s = s2 ! k" using s by (auto simp: in_set_conv_nth)
      have "k < length (hd_seats h1)" using k(1) len2 f1 by simp
      note e = strip_fields [OF strip_same(2) [OF st this]]
      have "hd_seats h1 ! k \<in> set (hd_seats h1)" by (rule nth_mem) fact
      with pb(5) have "blind_seat (hd_seats h1 ! k) \<and> se_street_commit (hd_seats h1 ! k) \<le> hd_current_bet h1" ..
      then show ?thesis unfolding k(2) e .
    qed
    have sok: "\<forall>s \<in> set (hd_seats h). seat_ok (hd_current_bet h) s"
      using blind by (auto simp: hs hf blind_seat_def seat_ok_def)
    have pok: "pot_ok (hd_seats h)" using blind by (auto simp: pot_ok_def hs blind_seat_def)
    have whole: "\<forall>s \<in> set (hd_seats h). whole_seat s" using sok by (auto simp: seat_ok_def)
    have "starts h = starts h1"
      unfolding starts_def hs using arg_cong [OF st, of "\<lambda>xs. sum_list (map se_start_stack xs)"]
      by (simp add: comp_def strip_def)
    then have starts: "starts h = buy_in cfg" using pb(3) starts0 by simp
    have "live_seats h = filter (\<lambda>i. \<not> se_out (hd_seats h0 ! i)) [0..<?n]"
      unfolding live_seats_def hs len2
    proof (rule filter_cong [OF refl])
      fix i assume "i \<in> set [0..<?n]"
      then have i: "i < ?n" by simp
      have "\<not> se_folded (s2 ! i)" using blind [of "s2 ! i"] i len2 by (simp add: blind_seat_def)
      moreover have "se_out (s2 ! i) = se_out (hd_seats h0 ! i)"
        using strip_fields(3) [OF strip_same(2) [OF st]] pb(4) i f0 f1 by simp
      ultimately show "in_hand h i = (\<not> se_out (hd_seats h0 ! i))" by (simp add: in_hand_def hs)
    qed
    moreover have "mset live = mset (filter (\<lambda>i. \<not> se_out (hd_seats h0 ! i)) [0..<?n])"
      using order_perm [of "int (cf_button cfg) + 1" h0] by (simp add: live_def fb_def f0 del: mset_upt)
    ultimately have ll: "length (live_seats h) = length live" by (metis mset_eq_length)
    then have two: "2 \<le> length (live_seats h)" using False by simp
    then have ne: "live_seats h \<noteq> []" by auto
    have room: "hd_deck_pos h + (5 - board_len (hd_street h)) \<le> length (hd_deck h)"
      using d1(2) d2(2) n23 d52 by (simp add: hf board_len_def)
    have nlen: "hd_n h = length (hd_seats h)" by (simp add: hf hs len2)
    show ?thesis
    proof (cases "filter (can_act h) (live_seats h) = []")
      case True
      then have "\<forall>i \<in> set (live_seats h). can_act h i \<longrightarrow> se_street_commit (hd_seats h ! i) = hd_current_bet h"
        by (auto simp: filter_empty_conv)
      note pay = settled_payable(1) [OF sok pok ne this]
      have "\<exists>h'. run_out h = Returns h' \<and> paid_out (starts h) h'"
        by (rule run_out_ok [OF whole nlen ne pay _ _ room]) (simp_all add: hf board_len_def)
      then show ?thesis using True by (auto simp: nh' dealt_def starts paid_out_def)
    next
      case act: False
      then obtain i where i: "i \<in> set (live_seats h)" "can_act h i"
        unfolding filter_empty_conv by blast
      have "i < ?n" using i(1) by (simp add: live_seats_members hs len2)
      have "0 \<le> a \<and> a < int ?n"
      proof (cases hu)
        case False
        have pos: "0 \<le> int bb + 1" by simp
        show ?thesis
        proof (cases rule: next_actor_cases [OF pos, of ?h3])
          case 1
          have "can_act ?h3 i" using i(2) can_act_cong [of h ?h3 i] hs by simp
          with 1 \<open>i < ?n\<close> f1 show ?thesis by simp
        next
          case (2 j)
          then show ?thesis using False f1 by (simp add: a_def)
        qed
      qed (use sbn in \<open>simp add: a_def\<close>)
      then have "table_ok h"
        using sok pok nlen room by (simp add: table_ok_def in_play_def hf board_len_def)
      with two act show ?thesis by (simp add: nh' dealt_def play_ok_def starts hf)
    qed
  qed
qed

end
