(* ===== verification/Poker_Record.thy ===== *)
theory Poker_Record
  imports Holdem_End Events
begin

text \<open>
  The published record of a hand (\<open>nostr-bbs-poker/src/record.rs\<close> and the types of \<open>rules.rs\<close>), the
  stakes of a table, what a finished heads-up hand owes, and the memo that ties a payment to its hand
  (\<open>rules.rs\<close>). The record is a projection of the final hand; \<open>Poker_Verify\<close> replays it.
\<close>

section \<open>The record\<close>

datatype variant = HoldemLimit | HoldemNoLimit

datatype street = Flop | Turn | River

datatype act_kind = Fold | Check | Call | Bet | Raise

text \<open>An entry of the action log: a seat's action with its total (\<open>to\<close>) and amount, or a street marker.\<close>

datatype hand_action = Act nat act_kind "nat option" "nat option" | Street street

record hand_seat =
  hs_name :: string
  hs_start_stack :: nat
  hs_hole :: "string list option"
  hs_agent :: "json option"

record record_result =
  rr_showdown :: bool
  rr_pot :: nat
  rr_winners :: "winner list"

record hand_record =
  rc_context :: "string option"
  rc_kind :: string
  rc_v :: nat
  rc_variant :: variant
  rc_seed :: string
  rc_sb :: nat
  rc_bb :: nat
  rc_ante :: nat
  rc_button :: nat
  rc_seats :: "hand_seat list"
  rc_board :: "string list"
  rc_actions :: "hand_action list"
  rc_result :: record_result

definition CONTEXT :: string where
  "CONTEXT = ''https://librepoker.org/context.jsonld''"

definition act_of_ev :: "string \<Rightarrow> act_kind option" where
  "act_of_ev ev =
     (if ev = ''fold'' then Some Fold else if ev = ''check'' then Some Check
      else if ev = ''call'' then Some Call else if ev = ''bet'' then Some Bet
      else if ev = ''raise'' then Some Raise else None)"

definition street_of :: "string option \<Rightarrow> street option" where
  "street_of s =
     (if s = Some ''flop'' then Some Flop else if s = Some ''turn'' then Some Turn
      else if s = Some ''river'' then Some River else None)"

text \<open>One log entry: an action, a street marker, or one of the engine's own bookkeeping entries.\<close>

definition record_entry :: "log_entry \<Rightarrow> hand_action option" where
  "record_entry e =
     (case act_of_ev (le_ev e) of
        Some a \<Rightarrow> Some (Act (case le_seat e of Some i \<Rightarrow> i | None \<Rightarrow> 0) a (le_to e) (le_amount e))
      | None \<Rightarrow> if le_ev e = ''street'' then map_option Street (street_of (le_street e)) else None)"

definition record_seat :: "string list option \<Rightarrow> nat \<Rightarrow> seat \<Rightarrow> hand_seat" where
  "record_seat names i s =
     \<lparr>hs_name = (case Option.bind names (\<lambda>n. get_at n i) of Some n \<Rightarrow> n | None \<Rightarrow> se_name s),
      hs_start_stack = se_start_stack s, hs_hole = map_option (map card_code) (se_hole s),
      hs_agent = None\<rparr>"

definition record_of :: "hand \<Rightarrow> string list option \<Rightarrow> hand_record option" where
  "record_of h names =
     (case hd_result h of
        None \<Rightarrow> None
      | Some r \<Rightarrow> Some
          \<lparr>rc_context = Some CONTEXT, rc_kind = ''Hand'', rc_v = 0,
           rc_variant = (if hd_limit h then HoldemLimit else HoldemNoLimit),
           rc_seed = hd_seed_hex h, rc_sb = hd_sb h, rc_bb = hd_bb h, rc_ante = hd_ante h,
           rc_button = hd_button h,
           rc_seats = map (\<lambda>(i, s). record_seat names i s) (enumerate 0 (hd_seats h)),
           rc_board = map card_code (hd_board h),
           rc_actions = List.map_filter record_entry (hd_log h),
           rc_result = \<lparr>rr_showdown = hr_showdown r, rr_pot = sum_list (map po_amount (hr_pots r)),
                        rr_winners = hr_winners r\<rparr>\<rparr>)"

section \<open>Stakes and settlement\<close>

definition STAKES_BB :: "nat list" where "STAKES_BB = [2, 10, 20, 100, 200]"

record stakes =
  sk_bb :: nat
  sk_sb :: nat
  sk_buyin :: nat
  sk_label :: string

definition stakes_of :: "nat \<Rightarrow> nat \<Rightarrow> stakes option" where
  "stakes_of bb buyin_bb =
     (if bb = 0 \<or> bb mod 2 \<noteq> 0 \<or> buyin_bb = 0 then None
      else if buyin_bb * bb < 2 ^ 64 then
        Some \<lparr>sk_bb = bb, sk_sb = bb div 2, sk_buyin = buyin_bb * bb,
              sk_label = dec_str (bb div 2) @ ''/'' @ dec_str bb\<rparr>
      else None)"

text \<open>The loop of \<open>stakes_table\<close>: a size already in the table is skipped.\<close>

definition add_stakes :: "nat \<Rightarrow> nat \<Rightarrow> stakes list \<Rightarrow> stakes list" where
  "add_stakes buyin_bb bb table =
     (if list_ex (\<lambda>s. sk_bb s = bb) table then table
      else case stakes_of bb buyin_bb of Some s \<Rightarrow> table @ [s] | None \<Rightarrow> table)"

definition stakes_table :: "nat list \<Rightarrow> nat \<Rightarrow> stakes list" where
  "stakes_table stakes_bb buyin_bb = fold (add_stakes buyin_bb) stakes_bb []"

datatype side = Hero | Citizen

record settlement_rec =
  st_from :: side
  st_to :: side
  st_amount :: nat

datatype poker_error =
    HandNotOver
  | ExceedsBuyin int nat
  | BadStakes string
  | Canonical string

definition settlement :: "bool \<Rightarrow> nat \<Rightarrow> nat \<Rightarrow> poker_error + settlement_rec option" where
  "settlement hand_over hero_stack_after buyin =
     (if \<not> hand_over then Inl HandNotOver
      else if buyin = 0 then Inl (BadStakes ''the buy-in is zero'')
      else
        (let delta = int hero_stack_after - int buyin in
         if nat (abs delta) > buyin then Inl (ExceedsBuyin delta buyin)
         else
           (let amount = nat (abs delta) in
            Inr (if delta = 0 then None
                 else if delta > 0 then Some \<lparr>st_from = Citizen, st_to = Hero, st_amount = amount\<rparr>
                 else Some \<lparr>st_from = Hero, st_to = Citizen, st_amount = amount\<rparr>))))"

definition HAND_PREFIX :: string where "HAND_PREFIX = ''hand:''"

definition hand_memo :: "string \<Rightarrow> string" where
  "hand_memo root = HAND_PREFIX @ root"

definition lower_hex64 :: "string \<Rightarrow> bool" where
  "lower_hex64 s \<longleftrightarrow> length s = 64 \<and>
     list_all (\<lambda>b. (48 \<le> code_of b \<and> code_of b \<le> 57) \<or> (97 \<le> code_of b \<and> code_of b \<le> 102)) s"

definition parse_hand_memo :: "string \<Rightarrow> string option" where
  "parse_hand_memo memo =
     Option.bind (strip_prefix HAND_PREFIX memo) (\<lambda>root. if lower_hex64 root then Some root else None)"

lemma parse_hand_memo_iff: "parse_hand_memo m = Some r \<longleftrightarrow> m = hand_memo r \<and> lower_hex64 r"
  by (auto simp: parse_hand_memo_def hand_memo_def strip_prefix_Some_iff bind_eq_Some_conv split: if_splits)

end
