(* ===== verification/Poker_Trace.thy ===== *)
theory Poker_Trace
  imports Poker_Record
begin

text \<open>
  What every step of the engine keeps or writes: the configuration a hand was dealt from can be read
  off the hand at any time, and the public entries of its log are the actions taken and the streets
  dealt between them.
\<close>

section \<open>The configuration of a hand\<close>

definition seat_id :: "seat \<Rightarrow> seat_config" where
  "seat_id s = \<lparr>sg_name = se_name s, sg_stack = se_start_stack s\<rparr>"

definition config_of :: "hand \<Rightarrow> hand_config" where
  "config_of h = \<lparr>cf_seats = map seat_id (hd_seats h), cf_button = hd_button h, cf_sb = hd_sb h,
     cf_bb = hd_bb h, cf_ante = hd_ante h, cf_seed_hex = hd_seed_hex h, cf_limit = hd_limit h\<rparr>"

definition entries :: "hand \<Rightarrow> hand_action list" where
  "entries h = List.map_filter record_entry (hd_log h)"

text \<open>A step that writes no public entry.\<close>

definition quiet :: "hand \<Rightarrow> hand \<Rightarrow> bool" where
  "quiet h g \<longleftrightarrow> config_of g = config_of h \<and> entries g = entries h"

lemma quiet_refl [simp]: "quiet h h"
  by (simp add: quiet_def)

lemma quiet_trans: "quiet h g \<Longrightarrow> quiet g k \<Longrightarrow> quiet h k"
  by (simp add: quiet_def)

lemma quiet_frame:
  assumes "hd_seats g = hd_seats h" "hd_button g = hd_button h" "hd_sb g = hd_sb h" "hd_bb g = hd_bb h"
    "hd_ante g = hd_ante h" "hd_seed_hex g = hd_seed_hex h" "hd_limit g = hd_limit h" "hd_log g = hd_log h"
  shows "quiet h g"
  using assms by (simp add: quiet_def config_of_def entries_def)

lemma map_set_same: "f (xs ! i) = y \<Longrightarrow> (map f xs)[i := y] = map f xs"
  by (cases "i < length xs") (auto simp: list_update_beyond intro: nth_equalityI simp: nth_list_update)

lemma set_seat_config: "(\<And>s. seat_id (f s) = seat_id s) \<Longrightarrow> config_of (set_seat i f h) = config_of h"
  by (simp add: config_of_def set_seat_def map_update map_set_same)

lemma set_seat_quiet: "(\<And>s. seat_id (f s) = seat_id s) \<Longrightarrow> quiet h (set_seat i f h)"
  by (simp add: quiet_def set_seat_config) (simp add: entries_def set_seat_def)

lemma add_log_config [simp]: "config_of (add_log e h) = config_of h"
  by (simp add: config_of_def add_log_def)

lemma add_log_in_play [simp]: "in_play (add_log e h) = in_play h"
  by (simp add: in_play_def)

lemma add_log_entries: "entries (add_log e h) = entries h @ (case record_entry e of Some a \<Rightarrow> [a] | None \<Rightarrow> [])"
  by (simp add: entries_def add_log_def map_filter_def split: option.split)

lemma add_log_quiet: "record_entry e = None \<Longrightarrow> quiet h (add_log e h)"
  by (simp add: quiet_def add_log_entries)

text \<open>The engine's own bookkeeping entries are not recorded.\<close>

lemma bookkeeping:
  "act_of_ev ev = None \<Longrightarrow> ev \<noteq> ''street'' \<Longrightarrow> le_ev e = ev \<Longrightarrow> record_entry e = None"
  by (simp add: record_entry_def)

section \<open>The steps\<close>

lemma deal_board_quiet: "deal_board h = Returns g \<Longrightarrow> quiet h g"
  by (auto simp: deal_board_def deal_card_def obind_def split: option.splits intro!: quiet_frame)

lemma obind_Returns_iff: "obind x f = Returns z \<longleftrightarrow> (\<exists>y. x = Returns y \<and> f y = Returns z)"
  by (cases x) (simp_all add: obind_def)

lemma deal_street_quiet:
  assumes "deal_street_cards h = Returns g" shows "quiet h g"
proof (cases "hd_street h = 1")
  case True
  then obtain a b where "deal_board h = Returns a" "deal_board a = Returns b" "deal_board b = Returns g"
    using assms by (auto simp: deal_street_cards_def obind_Returns_iff)
  then show ?thesis using quiet_trans deal_board_quiet by metis
next
  case False
  with assms show ?thesis by (auto simp: deal_street_cards_def intro: deal_board_quiet)
qed

lemma deal_street_frame:
  assumes "deal_street_cards h = Returns g"
  shows "hd_street g = hd_street h" "hd_phase g = hd_phase h" "hd_result g = hd_result h"
proof -
  have one: "hd_street g = hd_street h \<and> hd_phase g = hd_phase h \<and> hd_result g = hd_result h"
    if "deal_board h = Returns g" for h g
    using that by (auto simp: deal_board_def deal_card_def obind_def split: option.splits)
  show "hd_street g = hd_street h" "hd_phase g = hd_phase h" "hd_result g = hd_result h"
    using assms by (auto simp: deal_street_cards_def obind_Returns_iff split: if_splits dest!: one)
qed

lemma refund_quiet: "quiet h (refund h)"
proof (cases rule: refund_cases [of h])
  case 1
  then show ?thesis by simp
next
  case (2 i c0 c1 e)
  have "hd_log (refund h) = hd_log h \<or> (\<exists>e. hd_log (refund h) = hd_log h @ [e] \<and> le_ev e = ''refund'')"
    by (auto simp: refund_def add_log_def set_seat_def log_ev_def Let_def split: list.splits)
  then have "entries (refund h) = entries h"
    by (auto simp: entries_def map_filter_def record_entry_def act_of_ev_def)
  moreover have "config_of (refund h) = config_of h"
    unfolding 2(1) by (simp add: set_seat_config seat_id_def)
  ultimately show ?thesis by (simp add: quiet_def)
qed

lemma scoop_quiet: "quiet h (scoop w h)"
proof -
  have "quiet h (set_seat w (\<lambda>s. s\<lparr>se_stack := se_stack s + total_commit h\<rparr>) h)"
    by (rule set_seat_quiet) (simp add: seat_id_def)
  then show ?thesis
    by (simp add: scoop_def Let_def quiet_def add_log_entries record_entry_def act_of_ev_def log_ev_def)
      (simp add: config_of_def entries_def)
qed

lemma fold_credit_quiet: "quiet h (fold credit xs h)"
proof (induction xs arbitrary: h)
  case (Cons x xs)
  have "quiet h (credit x h)"
    unfolding credit_def by (rule set_seat_quiet) (simp add: seat_id_def)
  with Cons.IH [of "credit x h"] show ?case by (auto intro: quiet_trans)
qed simp

lemma showdown_quiet:
  assumes "showdown h live = Returns g" shows "quiet h g" and "hd_result g \<noteq> None"
proof -
  obtain paid r e where g: "g = (add_log e (fold credit paid h))\<lparr>hd_result := Some r\<rparr>" "record_entry e = None"
    using assms by (auto simp: showdown_def obind_Returns_iff Let_def record_entry_def act_of_ev_def log_ev_def)
  have "quiet h (fold credit paid h)" by (rule fold_credit_quiet)
  then show "quiet h g"
    unfolding g(1) by (simp add: quiet_def config_of_def entries_def add_log_def map_filter_def g(2))
  show "hd_result g \<noteq> None" by (simp add: g(1))
qed

lemma finish_quiet:
  assumes "finish h = Returns g" shows "quiet h g" and "hd_result g \<noteq> None"
proof -
  let ?h = "h\<lparr>hd_phase := ''done'', hd_to_act := - 1\<rparr>"
  have "quiet h ?h" by (rule quiet_frame) simp_all
  then have q: "quiet h (refund ?h)" using refund_quiet by (rule quiet_trans)
  show "quiet h g" "hd_result g \<noteq> None"
    using assms quiet_trans [OF q scoop_quiet] quiet_trans [OF q showdown_quiet(1)] showdown_quiet(2)
    by (auto simp: finish_def Let_def scoop_def split: if_splits)
qed

lemma run_streets_quiet: "run_streets k h = Returns g \<Longrightarrow> quiet h g \<and> hd_street g = hd_street h + k"
proof (induction k arbitrary: h)
  case (Suc k)
  let ?h = "h\<lparr>hd_street := hd_street h + 1\<rparr>"
  obtain d where d: "deal_street_cards ?h = Returns d" "run_streets k d = Returns g"
    using Suc.prems by (auto simp: obind_Returns_iff)
  have "quiet h ?h" by (rule quiet_frame) simp_all
  with Suc.IH [OF d(2)] deal_street_quiet [OF d(1)] deal_street_frame(1) [OF d(1)] show ?case
    by (auto intro: quiet_trans)
qed simp

lemma run_out_quiet:
  assumes "run_out h = Returns g" shows "quiet h g" and "hd_result g \<noteq> None"
proof -
  obtain d where d: "run_streets (3 - hd_street h) h = Returns d"
    "finish (add_log ((log_ev ''runout'')\<lparr>le_board := Some (hd_board d)\<rparr>) d) = Returns g"
    using assms by (auto simp: run_out_def obind_Returns_iff)
  have "quiet d (add_log ((log_ev ''runout'')\<lparr>le_board := Some (hd_board d)\<rparr>) d)"
    by (rule add_log_quiet) (simp add: record_entry_def act_of_ev_def log_ev_def)
  with run_streets_quiet [OF d(1)] finish_quiet(1) [OF d(2)] show "quiet h g" by (auto intro: quiet_trans)
  show "hd_result g \<noteq> None" by (rule finish_quiet(2) [OF d(2)])
qed

lemma refund_street: "hd_street (refund h) = hd_street h"
  by (cases rule: refund_cases [of h]) simp_all

lemma credits_street: "hd_street (fold credit xs h) = hd_street h"
  by (induction xs arbitrary: h) (simp_all add: credit_def)

lemma finish_street: "finish h = Returns g \<Longrightarrow> hd_street g = hd_street h"
  by (auto simp: finish_def Let_def scoop_def showdown_def obind_Returns_iff refund_street credits_street
      split: if_splits)

lemma run_out_street: "run_out h = Returns g \<Longrightarrow> hd_street h \<le> hd_street g"
  by (auto simp: run_out_def obind_Returns_iff dest!: finish_street run_streets_quiet)

text \<open>The street a marker announces.\<close>

fun street_no :: "street \<Rightarrow> nat" where
  "street_no Flop = 1"
| "street_no Turn = 2"
| "street_no River = 3"

text \<open>A step of the betting: at most one marker, for the street it deals, and a result when it ends.\<close>

definition betting_step :: "hand \<Rightarrow> hand \<Rightarrow> bool" where
  "betting_step h g \<longleftrightarrow> config_of g = config_of h \<and> (in_play g \<or> hd_result g \<noteq> None) \<and>
     (entries g = entries h \<and> (in_play g \<longrightarrow> hd_street g = hd_street h) \<or>
      (\<exists>s. entries g = entries h @ [Street s] \<and> street_no s = hd_street h + 1 \<and>
         street_no s \<le> hd_street g \<and> (in_play g \<longrightarrow> hd_street g = street_no s)))"

lemma finish_step: "finish h = Returns g \<Longrightarrow> betting_step h g"
  using finish_quiet [of h g] finish_street [of h g] by (simp add: betting_step_def quiet_def)

lemma finish_over: "finish h = Returns g \<Longrightarrow> \<not> in_play g"
proof -
  have phase: "hd_phase (fold credit xs h) = hd_phase h" for xs h
    by (induction xs arbitrary: h) simp_all
  have "hd_phase (refund h) = hd_phase h" for h
    by (cases rule: refund_cases [of h]) simp_all
  then show "finish h = Returns g \<Longrightarrow> \<not> in_play g"
    by (auto simp: finish_def Let_def scoop_def showdown_def obind_Returns_iff in_play_def phase split: if_splits)
qed

lemma run_out_over: "run_out h = Returns g \<Longrightarrow> \<not> in_play g"
  by (auto simp: run_out_def obind_Returns_iff dest: finish_over)

lemma run_out_step: "run_out h = Returns g \<Longrightarrow> betting_step h g"
  using run_out_quiet [of h g] run_out_over [of h g] by (simp add: betting_step_def quiet_def)

lemma next_street_step:
  assumes g: "next_street h = Returns g" and "hd_street h < 3" and ip: "in_play h"
  shows "betting_step h g"
proof -
  obtain d where d: "deal_street_cards (open_street h) = Returns d" using g by (auto simp: next_street_def obind_Returns_iff)
  note fr = deal_street_frame [OF d]
  have "config_of (open_street h) = config_of h" "entries (open_street h) = entries h"
    by (simp_all add: open_street_def config_of_def entries_def comp_def seat_id_def)
  then have qd: "config_of d = config_of h" "entries d = entries h"
    using deal_street_quiet [OF d] by (simp_all add: quiet_def)
  have st: "hd_street d = hd_street h + 1" "in_play d"
    using fr ip by (simp_all add: open_street_def in_play_def)
  obtain s where s: "street_of (Some (STREETS ! hd_street d)) = Some s" "street_no s = hd_street h + 1"
  proof -
    have "hd_street h = 0 \<or> hd_street h = 1 \<or> hd_street h = 2" using assms(2) by linarith
    then show ?thesis
      using that [of Flop] that [of Turn] that [of River] st(1)
      by (auto simp: STREETS_def street_of_def numeral_2_eq_2 numeral_3_eq_3)
  qed
  define e where "e = (log_ev ''street'')\<lparr>le_street := Some (STREETS ! hd_street d), le_board := Some (hd_board d)\<rparr>"
  have re: "record_entry e = Some (Street s)"
    using s(1) by (simp add: e_def record_entry_def act_of_ev_def log_ev_def)
  define k where "k = (add_log e d)\<lparr>hd_to_act := next_actor (int (hd_button (add_log e d)) + 1) (add_log e d)\<rparr>"
  have al: "config_of (add_log e d) = config_of h" "entries (add_log e d) = entries h @ [Street s]"
    "hd_street (add_log e d) = street_no s" "in_play (add_log e d)"
    using qd st(1) s(2) by (simp_all add: add_log_entries re st(2))
  have to_act: "config_of (d'\<lparr>hd_to_act := x\<rparr>) = config_of d'" "entries (d'\<lparr>hd_to_act := x\<rparr>) = entries d'"
    "hd_street (d'\<lparr>hd_to_act := x\<rparr>) = hd_street d'" "in_play (d'\<lparr>hd_to_act := x\<rparr>) = in_play d'" for d' x
    by (simp_all add: config_of_def entries_def in_play_def)
  have k: "config_of k = config_of h \<and> entries k = entries h @ [Street s] \<and> hd_street k = street_no s \<and> in_play k"
    unfolding k_def to_act al(1-3) by (simp add: st(2))
  have dk: "config_of d' = config_of h \<and> entries d' = entries h @ [Street s] \<and> hd_street d' = street_no s \<and> in_play d'"
    if "d' = k\<lparr>hd_to_act := x\<rparr>" for d' x
    unfolding that to_act by (rule k)
  have "run_out k = Returns g \<or> g = k \<or> (\<exists>x. g = k\<lparr>hd_to_act := x\<rparr>)"
    using g unfolding next_street_def d obind_Returns Let_def e_def [symmetric] k_def [symmetric]
    by (auto split: if_splits option.splits)
  then show ?thesis
  proof (elim disjE exE)
    assume r: "run_out k = Returns g"
    have "config_of g = config_of h \<and> entries g = entries h @ [Street s]"
      using run_out_quiet(1) [OF r] k by (simp add: quiet_def)
    then show ?thesis
      using run_out_quiet(2) [OF r] run_out_over [OF r] run_out_street [OF r] k s(2) by (simp add: betting_step_def)
  next
    assume "g = k"
    with k s(2) show ?thesis by (simp add: betting_step_def)
  next
    fix x assume "g = k\<lparr>hd_to_act := x\<rparr>"
    from dk [OF this] s(2) show ?thesis by (simp add: betting_step_def)
  qed
qed

lemma advance_step:
  assumes g: "advance h = Returns g" and "hd_street h \<le> 3" and ip: "in_play h"
  shows "betting_step h g"
proof -
  have "finish h = Returns g \<or> run_out h = Returns g \<or> hd_street h < 3 \<and> next_street h = Returns g \<or>
      (\<exists>x. g = h\<lparr>hd_to_act := x\<rparr>) \<or> (\<exists>x. run_out (h\<lparr>hd_to_act := x\<rparr>) = Returns g)"
    using g assms(2) by (auto simp: advance_def Let_def split: if_splits)
  moreover have q: "config_of (h\<lparr>hd_to_act := x\<rparr>) = config_of h" "entries (h\<lparr>hd_to_act := x\<rparr>) = entries h"
    "hd_street (h\<lparr>hd_to_act := x\<rparr>) = hd_street h" "in_play (h\<lparr>hd_to_act := x\<rparr>)" for x
    using ip by (simp_all add: config_of_def entries_def in_play_def)
  ultimately show ?thesis
    using finish_step run_out_step next_street_step ip
  proof (elim disjE exE conjE)
    fix x assume "run_out (h\<lparr>hd_to_act := x\<rparr>) = Returns g"
    from run_out_step [OF this] q show ?thesis by (simp add: betting_step_def)
  qed (auto simp: betting_step_def q)
qed

end
