(* ===== verification/Poker_Verify.thy ===== *)
theory Poker_Verify
  imports Poker_Trace
begin

text \<open>
  The fair deal and its verification (\<open>nostr-bbs-poker/src/fair.rs\<close>, \<open>verify.rs\<close>): a member who holds
  the commitment shown before the deal, the secret revealed after it and the published record replays
  the hand and accepts it exactly when it was dealt from the committed seed, played by the rules, and
  the house played by the book. \<open>sha\<close> is SHA-256 in lowercase hexadecimal; \<open>decide\<close> is the house bot.
\<close>

section \<open>Commitments\<close>

type_synonym digest = "string \<Rightarrow> string"

definition commit_to :: "digest \<Rightarrow> string \<Rightarrow> string" where
  "commit_to sha hex64 = sha hex64"

definition check_commit :: "digest \<Rightarrow> string \<Rightarrow> string \<Rightarrow> bool" where
  "check_commit sha secret commitment \<longleftrightarrow> lower_hex64 secret \<and> commit_to sha secret = commitment"

definition seed_of_many :: "digest \<Rightarrow> string \<Rightarrow> string list \<Rightarrow> string" where
  "seed_of_many sha secret nonces = sha (secret @ concat nonces)"

definition bot_seed :: "digest \<Rightarrow> string \<Rightarrow> nat \<Rightarrow> string" where
  "bot_seed sha seed step = sha (seed @ '':bot:'' @ dec_str step)"

section \<open>The engine a verifier replays with\<close>

record engine =
  en_new_hand :: "hand_config \<Rightarrow> (engine_error + hand) outcome"
  en_legal :: "hand \<Rightarrow> (engine_error + legal_moves option) outcome"
  en_act :: "hand \<Rightarrow> action \<Rightarrow> (engine_error + hand) outcome"
  en_seat_view :: "hand \<Rightarrow> nat \<Rightarrow> (engine_error + seat_view_rec) outcome"
  en_bot_decide :: "hand \<Rightarrow> nat \<Rightarrow> string \<Rightarrow> string \<Rightarrow> (engine_error + action) outcome"

type_synonym bot = "seat_view_rec \<Rightarrow> legal_moves \<Rightarrow> string \<Rightarrow> rng \<Rightarrow> action outcome"

definition rust_engine :: "bot \<Rightarrow> engine" where
  "rust_engine decide =
     \<lparr>en_new_hand = new_hand,
      en_legal = (\<lambda>h. obind (legal h) (\<lambda>l. Returns (Inr l))),
      en_act = act,
      en_seat_view = (\<lambda>h seat. obind (seat_view h seat) (\<lambda>v. Returns (Inr v))),
      en_bot_decide = (\<lambda>h seat profile seed_hex. obind (legal h) (\<lambda>lo.
        case lo of
          None \<Rightarrow> Returns (Inl HandOver)
        | Some l \<Rightarrow> obind (seat_view h seat) (\<lambda>view.
            case from_seed seed_hex of
              Inl e \<Rightarrow> Returns (Inl (BadSeed e))
            | Inr rng \<Rightarrow> obind (decide view l profile rng) (\<lambda>a. Returns (Inr a)))))\<rparr>"

section \<open>Verification\<close>

record claim =
  cl_commit :: string
  cl_secret :: string
  cl_nonces :: "string list"
  cl_seed :: string
  cl_record :: hand_record
  cl_house_seat :: "nat option"
  cl_profile :: string

datatype refusal = Marker | AlreadyOver | NoMarker | Refused engine_error

datatype verify_error =
    Commitment
  | SeedMismatch
  | RecordSeed
  | EngineFailed engine_error
  | ActionRefused nat refusal
  | HousePlay nat string string
  | Unfinished
  | Mismatch string

definition describe :: "action \<Rightarrow> string" where
  "describe a = (case ac_amount a of Some n \<Rightarrow> ac_action a @ '' '' @ dec_str n | None \<Rightarrow> ac_action a)"

fun act_name :: "act_kind \<Rightarrow> string" where
  "act_name Fold = ''fold''"
| "act_name Check = ''check''"
| "act_name Call = ''call''"
| "act_name Bet = ''bet''"
| "act_name Raise = ''raise''"

definition recorded_action :: "nat \<Rightarrow> act_kind \<Rightarrow> nat option \<Rightarrow> action" where
  "recorded_action seat k to =
     \<lparr>ac_seat = seat, ac_action = act_name k, ac_amount = (if k = Bet \<or> k = Raise then to else None)\<rparr>"

text \<open>The house seat must have played what the bot decides under the derived seed.\<close>

definition house_check :: "digest \<Rightarrow> engine \<Rightarrow> claim \<Rightarrow> nat \<Rightarrow> action \<Rightarrow> hand \<Rightarrow> verify_error option outcome" where
  "house_check sha eng cl index a h =
     (if cl_house_seat cl \<noteq> Some (ac_seat a) then Returns None
      else obind (en_bot_decide eng h (ac_seat a) (cl_profile cl) (bot_seed sha (cl_seed cl) (length (hd_log h))))
        (\<lambda>r. case r of
               Inl e \<Rightarrow> Returns (Some (EngineFailed e))
             | Inr expected \<Rightarrow> Returns (if expected \<noteq> a then Some (HousePlay index (describe a) (describe expected)) else None)))"

fun replay ::
  "digest \<Rightarrow> engine \<Rightarrow> claim \<Rightarrow> nat \<Rightarrow> nat \<Rightarrow> hand_action list \<Rightarrow> hand \<Rightarrow> (verify_error + hand) outcome"
where
  "replay sha eng cl index expected_street [] h = Returns (Inr h)"
| "replay sha eng cl index expected_street (Street s # es) h =
     (let want = street_no s in
      if hd_street h < want \<or> want \<noteq> expected_street + 1 then Returns (Inl (ActionRefused index Marker))
      else replay sha eng cl (index + 1) want es h)"
| "replay sha eng cl index expected_street (Act seat k to amount # es) h =
     (if \<not> in_play h then Returns (Inl (ActionRefused index AlreadyOver))
      else if hd_street h \<noteq> expected_street then Returns (Inl (ActionRefused index NoMarker))
      else
        (let a = recorded_action seat k to in
         obind (house_check sha eng cl index a h) (\<lambda>bad.
           case bad of
             Some e \<Rightarrow> Returns (Inl e)
           | None \<Rightarrow> obind (en_act eng h a) (\<lambda>r.
               case r of
                 Inl why \<Rightarrow> Returns (Inl (ActionRefused index (Refused why)))
               | Inr h' \<Rightarrow> replay sha eng cl (index + 1) expected_street es h'))))"

definition record_config :: "hand_record \<Rightarrow> hand_config" where
  "record_config r =
     \<lparr>cf_seats = map (\<lambda>s. \<lparr>sg_name = hs_name s, sg_stack = hs_start_stack s\<rparr>) (rc_seats r),
      cf_button = rc_button r, cf_sb = rc_sb r, cf_bb = rc_bb r, cf_ante = rc_ante r,
      cf_seed_hex = rc_seed r, cf_limit = (rc_variant r = HoldemLimit)\<rparr>"

definition unnamed :: "hand_seat \<Rightarrow> hand_seat" where
  "unnamed s = s\<lparr>hs_name := []\<rparr>"

text \<open>The comparison of the replayed hand's record with the published one, names aside.\<close>

definition compare_records :: "hand_record \<Rightarrow> hand_record \<Rightarrow> string option" where
  "compare_records a b =
     (if map unnamed (rc_seats a) \<noteq> map unnamed (rc_seats b) then Some ''hole cards or start stacks''
      else if rc_board a \<noteq> rc_board b then Some ''board''
      else if rc_result a \<noteq> rc_result b then Some ''result''
      else if rc_actions a \<noteq> rc_actions b then Some ''actions''
      else None)"

definition verify :: "digest \<Rightarrow> engine \<Rightarrow> claim \<Rightarrow> (verify_error + hand) outcome" where
  "verify sha eng cl =
     (if \<not> check_commit sha (cl_secret cl) (cl_commit cl) then Returns (Inl Commitment)
      else if seed_of_many sha (cl_secret cl) (cl_nonces cl) \<noteq> cl_seed cl then Returns (Inl SeedMismatch)
      else
        (let r = cl_record cl in
         if rc_seed r \<noteq> cl_seed cl then Returns (Inl RecordSeed)
         else obind (en_new_hand eng (record_config r)) (\<lambda>dealt.
           case dealt of
             Inl e \<Rightarrow> Returns (Inl (EngineFailed e))
           | Inr h0 \<Rightarrow> obind (replay sha eng cl 0 0 (rc_actions r) h0) (\<lambda>played.
               case played of
                 Inl e \<Rightarrow> Returns (Inl e)
               | Inr h \<Rightarrow>
                   if in_play h then Returns (Inl Unfinished)
                   else (case record_of h None of
                           None \<Rightarrow> Returns (Inl Unfinished)
                         | Some rep \<Rightarrow>
                             (case compare_records rep r of
                                Some what \<Rightarrow> Returns (Inl (Mismatch what))
                              | None \<Rightarrow> Returns (Inr h)))))))"

section \<open>Hands played by the rules and the book\<close>

text \<open>An action as the record writes it: an amount belongs to a bet or a raise alone.\<close>

definition written :: "action \<Rightarrow> action" where
  "written a = a\<lparr>ac_amount := (if raise_word (ac_action a) then ac_amount a else None)\<rparr>"

inductive fair_play ::
  "digest \<Rightarrow> bot \<Rightarrow> nat option \<Rightarrow> string \<Rightarrow> hand_config \<Rightarrow> hand \<Rightarrow> bool"
for sha decide house profile cfg where
  fair_deal: "new_hand cfg = Returns (Inr h) \<Longrightarrow> fair_play sha decide house profile cfg h"
| fair_act: "\<lbrakk>fair_play sha decide house profile cfg h; act h a = Returns (Inr h');
     house = Some (ac_seat a) \<Longrightarrow>
       en_bot_decide (rust_engine decide) h (ac_seat a) profile
         (bot_seed sha (cf_seed_hex cfg) (length (hd_log h))) = Returns (Inr (written a))\<rbrakk>
   \<Longrightarrow> fair_play sha decide house profile cfg h'"

lemma fair_play_reach: "fair_play sha decide house profile cfg h \<Longrightarrow> reach cfg h"
  by (induction rule: fair_play.induct) (auto intro: reach.intros)

text \<open>Only the action's seat, word and, for a raise, amount matter to the engine.\<close>

lemma act_written:
  assumes "act h a = Returns (Inr h')" and "table_ok h"
  shows "act h (written a) = Returns (Inr h')"
proof -
  obtain l where l: "legal h = Returns (Some l)" "envelope h l" by (rule legal_ok [OF assms(2)])
  have m: "ac_action a \<in> set (lg_actions l)"
    using assms(1) l(1) by (auto simp: act_def split: if_splits)
  then have "ac_action a = ''fold'' \<or> ac_action a = ''check'' \<or> ac_action a = ''call'' \<or> raise_word (ac_action a)"
    using l(2) unfolding envelope_def by metis
  then have pm: "play_move l (written a) h = play_move l a h"
    by (auto simp: play_move_def written_def raise_word_def Let_def)
  have "ac_seat (written a) = ac_seat a" "ac_action (written a) = ac_action a"
    by (simp_all add: written_def)
  note wr = this
  have "act h (written a) = act h a"
    unfolding act_def wr pm l(1) obind_Returns option.case ..
  with assms(1) show ?thesis by simp
qed

section \<open>The log of an action\<close>

lemma legal_actions:
  assumes "legal h = Returns (Some l)"
  shows "\<exists>c may. lg_actions l = [''fold'', if c then ''check'' else ''call''] @
    (if may then [if hd_current_bet h = 0 then ''bet'' else ''raise''] else [])"
proof -
  have ok: "\<not> \<not> in_play h" "\<not> (hd_to_act h < 0 \<or> nat (hd_to_act h) \<ge> length (hd_seats h))"
    using assms by (auto simp only: legal_def outcome.distinct outcome.inject option.distinct split: if_split_asm)
  from assms [unfolded legal_def if_not_P [OF ok(1)] if_not_P [OF ok(2)] Let_def outcome.inject option.inject, symmetric]
  show ?thesis by (simp only: legal_moves.simps) blast
qed

lemma legal_raise_word:
  assumes "legal h = Returns (Some l)" and "m \<in> set (lg_actions l)" and "raise_word m"
  shows "m = (if hd_current_bet h = 0 then ''bet'' else ''raise'')"
proof -
  obtain c may where "lg_actions l = [''fold'', if c then ''check'' else ''call''] @
    (if may then [if hd_current_bet h = 0 then ''bet'' else ''raise''] else [])"
    using legal_actions [OF assms(1)] by blast
  with assms(2,3) show ?thesis by (cases c; cases may) (auto simp: raise_word_def)
qed

text \<open>An action's entry after the seats have moved.\<close>

lemma logged_move:
  assumes "quiet h m" and "record_entry e = Some x" and "hd_street m = hd_street h" and "hd_phase m = hd_phase h"
  shows "entries (add_log e m) = entries h @ [x] \<and> config_of (add_log e m) = config_of h \<and>
    hd_street (add_log e m) = hd_street h \<and> in_play (add_log e m) = in_play h"
  using assms by (simp add: quiet_def add_log_entries in_play_def)

lemma commit_quiet: "quiet h (commit i c None h)"
  by (simp add: commit_def Let_def) (rule set_seat_quiet, simp add: seat_id_def commit_seat_def Let_def)

lemma commit_frame [simp]:
  "hd_current_bet (commit i a None h) = hd_current_bet h" "hd_street (commit i a None h) = hd_street h"
  "hd_phase (commit i a None h) = hd_phase h" "hd_min_raise_size (commit i a None h) = hd_min_raise_size h"
  by (simp_all add: commit_def Let_def)

lemma raise_logged:
  assumes "in_play h"
  shows "entries (raise_to i x h) = entries h @
      [Act i (if hd_current_bet h = 0 then Bet else Raise) (Some x) None] \<and>
    config_of (raise_to i x h) = config_of h \<and> hd_street (raise_to i x h) = hd_street h \<and> in_play (raise_to i x h)"
proof -
  let ?h = "h\<lparr>hd_street_raises := hd_street_raises h + 1\<rparr>"
  let ?m = "commit i (x - se_street_commit (hd_seats h ! i)) None ?h"
  let ?e = "(log_ev (if hd_current_bet h = 0 then ''bet'' else ''raise''))\<lparr>le_seat := Some i, le_to := Some x\<rparr>"
  have "quiet h ?h" by (rule quiet_frame) simp_all
  then have q: "quiet h ?m" using commit_quiet by (rule quiet_trans)
  have fr: "hd_street ?m = hd_street h" "hd_phase ?m = hd_phase h" "hd_current_bet ?m = hd_current_bet h"
    by simp_all
  have "record_entry ?e = Some (Act i (if hd_current_bet h = 0 then Bet else Raise) (Some x) None)"
    by (simp add: record_entry_def act_of_ev_def log_ev_def)
  note lg = logged_move [OF q this fr(1,2)]
  have seats: "map seat_id (map (\<lambda>(k, s). if P k s then f s else s) (enumerate 0 ss)) = map seat_id ss"
    if "\<And>s. seat_id (f s) = seat_id s" for P f ss
    by (rule nth_equalityI) (simp_all add: nth_enumerate_eq that)
  define g where "g = (add_log ?e ?m)\<lparr>hd_current_bet := x\<rparr>"
  have r: "raise_to i x h = (if hd_min_raise_size h \<le> x - hd_current_bet h
      then g\<lparr>hd_min_raise_size := x - hd_current_bet h,
             hd_seats := map (\<lambda>(k, s). if k \<noteq> i then s\<lparr>se_can_raise := True, se_acted := False\<rparr> else s)
                           (enumerate 0 (hd_seats g))\<rparr>
      else g\<lparr>hd_seats := map (\<lambda>(k, s). if k \<noteq> i \<and> se_acted s then s\<lparr>se_can_raise := False\<rparr> else s)
                           (enumerate 0 (hd_seats g))\<rparr>)"
    by (simp add: raise_to_def Let_def g_def fr)
  have g: "entries g = entries (add_log ?e ?m)" "config_of g = config_of (add_log ?e ?m)"
    "hd_street g = hd_street (add_log ?e ?m)" "in_play g = in_play (add_log ?e ?m)"
    by (simp_all add: g_def entries_def config_of_def in_play_def)
  have up: "entries (g\<lparr>hd_seats := ss\<rparr>) = entries g" "entries (g\<lparr>hd_min_raise_size := z, hd_seats := ss\<rparr>) = entries g"
    "map seat_id ss = map seat_id (hd_seats g) \<Longrightarrow> config_of (g\<lparr>hd_seats := ss\<rparr>) = config_of g"
    "map seat_id ss = map seat_id (hd_seats g) \<Longrightarrow>
       config_of (g\<lparr>hd_min_raise_size := z, hd_seats := ss\<rparr>) = config_of g" for ss z
    by (simp_all add: entries_def config_of_def)
  have c1: "config_of (g\<lparr>hd_min_raise_size := x - hd_current_bet h,
      hd_seats := map (\<lambda>(k, s). if k \<noteq> i then s\<lparr>se_can_raise := True, se_acted := False\<rparr> else s)
                    (enumerate 0 (hd_seats g))\<rparr>) = config_of g"
    by (rule up(4), rule seats) (simp add: seat_id_def)
  have c2: "config_of (g\<lparr>hd_seats := map (\<lambda>(k, s). if k \<noteq> i \<and> se_acted s then s\<lparr>se_can_raise := False\<rparr> else s)
                    (enumerate 0 (hd_seats g))\<rparr>) = config_of g"
    by (rule up(3), rule seats) (simp add: seat_id_def)
  have c: "config_of (raise_to i x h) = config_of g"
    unfolding r by (cases "hd_min_raise_size h \<le> x - hd_current_bet h") (simp_all only: if_True if_False c1 c2)
  have e: "entries (raise_to i x h) = entries g" "hd_street (raise_to i x h) = hd_street g"
    "in_play (raise_to i x h) = in_play g"
    unfolding r by (simp_all add: up in_play_def)
  show ?thesis using c e g lg assms by simp
qed

lemma act_logged:
  assumes a: "act h a = Returns (Inr g)" and street: "hd_street h \<le> 3" and t: "table_ok h"
  shows "\<exists>k to amount m. in_play h \<and> recorded_action (ac_seat a) k to = written a \<and>
    entries m = entries h @ [Act (ac_seat a) k to amount] \<and> config_of m = config_of h \<and>
    hd_street m = hd_street h \<and> in_play m \<and> betting_step m g"
proof -
  obtain l where l: "legal h = Returns (Some l)" "envelope h l" by (rule legal_ok [OF t])
  have ip: "in_play h" and turn: "int (ac_seat a) = hd_to_act h" and m: "ac_action a \<in> set (lg_actions l)"
    using a l(1) by (auto simp: act_def split: if_splits)
  obtain g0 where g0: "play_move l a h = Inr g0"
    "advance (set_seat (ac_seat a) (\<lambda>s. s\<lparr>se_acted := True\<rparr>) g0) = Returns g"
    using a l(1) ip turn m by (auto simp: act_def obind_Returns_iff split: sum.splits)
  let ?m = "set_seat (ac_seat a) (\<lambda>s. s\<lparr>se_acted := True\<rparr>) g0"
  have q: "quiet g0 ?m" by (rule set_seat_quiet) (simp add: seat_id_def)
  have logged: "\<exists>k to amount. recorded_action (ac_seat a) k to = written a \<and>
      entries g0 = entries h @ [Act (ac_seat a) k to amount] \<and> config_of g0 = config_of h \<and>
      hd_street g0 = hd_street h \<and> in_play g0"
  proof -
    have env: "ac_action a = ''fold'' \<or> ac_action a = ''check'' \<or> ac_action a = ''call'' \<or> raise_word (ac_action a)"
      using l(2) m unfolding envelope_def by metis
    have not_raise: "recorded_action (ac_seat a) k None = written a"
      if "ac_action a = act_name k" "k \<noteq> Bet" "k \<noteq> Raise" for k
      using that by (cases k) (simp_all add: recorded_action_def written_def raise_word_def)
    from env show ?thesis
    proof (elim disjE)
      assume f: "ac_action a = ''fold''"
      let ?s = "set_seat (ac_seat a) (\<lambda>s. s\<lparr>se_folded := True\<rparr>) h"
      have "quiet h ?s" by (rule set_seat_quiet) (simp add: seat_id_def)
      from logged_move [OF this, of "(log_ev ''fold'')\<lparr>le_seat := Some (ac_seat a)\<rparr>" "Act (ac_seat a) Fold None None"]
      show ?thesis using g0(1) f ip not_raise [of Fold]
        by (auto simp: play_move_def Let_def record_entry_def act_of_ev_def log_ev_def)
    next
      assume f: "ac_action a = ''check''"
      from logged_move [OF quiet_refl, of "(log_ev ''check'')\<lparr>le_seat := Some (ac_seat a)\<rparr>" "Act (ac_seat a) Check None None" h]
      show ?thesis using g0(1) f ip not_raise [of Check]
        by (auto simp: play_move_def Let_def record_entry_def act_of_ev_def log_ev_def)
    next
      assume f: "ac_action a = ''call''"
      from logged_move [OF commit_quiet, of "(log_ev ''call'')\<lparr>le_seat := Some (ac_seat a), le_amount := Some (lg_call_amount l)\<rparr>"
          "Act (ac_seat a) Call None (Some (lg_call_amount l))" "ac_seat a" "lg_call_amount l" h]
      show ?thesis using g0(1) f ip not_raise [of Call]
        by (auto simp: play_move_def Let_def record_entry_def act_of_ev_def log_ev_def commit_def)
    next
      assume rw: "raise_word (ac_action a)"
      then have ne: "ac_action a \<noteq> ''fold''" "ac_action a \<noteq> ''check''" "ac_action a \<noteq> ''call''"
        by (auto simp: raise_word_def)
      then obtain x where x: "ac_amount a = Some x" "g0 = raise_to (ac_seat a) x h"
        using g0(1) by (auto simp: play_move_def Let_def split: option.splits if_splits)
      have name: "ac_action a = act_name (if hd_current_bet h = 0 then Bet else Raise)"
        using legal_raise_word [OF l(1) m rw] by simp
      have "recorded_action (ac_seat a) (if hd_current_bet h = 0 then Bet else Raise) (Some x) = written a"
        using x(1) rw name by (simp add: recorded_action_def written_def)
      then show ?thesis using raise_logged [OF ip, of "ac_seat a" x] x(2) by blast
    qed
  qed
  then obtain k to amount where k: "recorded_action (ac_seat a) k to = written a"
      "entries g0 = entries h @ [Act (ac_seat a) k to amount]" "config_of g0 = config_of h"
      "hd_street g0 = hd_street h" "in_play g0" by blast
  have m': "entries ?m = entries h @ [Act (ac_seat a) k to amount]" "config_of ?m = config_of h"
    "hd_street ?m = hd_street h" "in_play ?m"
    using q k by (simp_all add: quiet_def in_play_def)
  have "betting_step ?m g" using g0(2) m'(3,4) street by (intro advance_step) simp_all
  then show ?thesis using ip k(1) m' by blast
qed

section \<open>The log of a deal\<close>

text \<open>Nothing public happens, and the play is where it was.\<close>

definition still :: "hand \<Rightarrow> hand \<Rightarrow> bool" where
  "still h g \<longleftrightarrow> quiet h g \<and> hd_street g = hd_street h \<and> hd_phase g = hd_phase h"

lemma still_trans: "still h g \<Longrightarrow> still g k \<Longrightarrow> still h k"
  using quiet_trans by (auto simp: still_def)

lemma post_still:
  assumes "act_of_ev ev = None" and "ev \<noteq> ''street''"
  shows "still h (commit i a (Some ev) h)"
proof -
  let ?e = "(log_ev ev)\<lparr>le_seat := Some i, le_amount := Some (min a (se_stack (hd_seats h ! i)))\<rparr>"
  have "commit i a (Some ev) h = add_log ?e (commit i a None h)"
    by (simp add: commit_def Let_def)
  moreover have "quiet (commit i a None h) (add_log ?e (commit i a None h))"
    using assms by (intro add_log_quiet) (simp add: record_entry_def log_ev_def)
  ultimately show ?thesis
    using quiet_trans [OF commit_quiet] by (simp add: still_def)
qed

lemma antes_still: "still h (fold (\<lambda>i. commit i a (Some ''ante'')) is h)"
proof (induction "is" arbitrary: h)
  case (Cons i "is")
  have "still h (commit i a (Some ''ante'') h)" by (rule post_still) (simp_all add: act_of_ev_def)
  with Cons.IH show ?case by (auto intro: still_trans)
qed (simp add: still_def)

lemma post_blinds_still: "still h (post_blinds cfg live sb bb h)"
proof -
  define h1 where "h1 = (if cf_ante cfg > 0 then fold (\<lambda>i. commit i (cf_ante cfg) (Some ''ante'')) live h else h)"
  define h2 where "h2 = commit bb (cf_bb cfg) (Some ''bb'') (commit sb (cf_sb cfg) (Some ''sb'') h1)"
  have "still h h1" using antes_still by (simp add: h1_def still_def)
  moreover have "still h1 (commit sb (cf_sb cfg) (Some ''sb'') h1)"
    by (rule post_still) (simp_all add: act_of_ev_def)
  moreover have "still (commit sb (cf_sb cfg) (Some ''sb'') h1) h2"
    unfolding h2_def by (rule post_still) (simp_all add: act_of_ev_def)
  ultimately have "still h h2" by (metis still_trans)
  then show ?thesis
    by (simp add: post_blinds_def Let_def h1_def [symmetric] h2_def [symmetric])
      (simp add: still_def quiet_def config_of_def entries_def)
qed

lemma deal_round_still: "deal_round is h = Returns g \<Longrightarrow> still h g"
proof (induction "is" arbitrary: h)
  case (Cons i "is")
  show ?case
  proof (cases "se_out (hd_seats h ! i)")
    case True
    with Cons show ?thesis by simp
  next
    case False
    then obtain c d where d: "deal_card h = Returns (c, d)"
      "deal_round is (set_seat i (\<lambda>s. s\<lparr>se_hole := Some ((case se_hole s of Some cs \<Rightarrow> cs | None \<Rightarrow> []) @ [c])\<rparr>) d)
         = Returns g"
      using Cons.prems by (auto simp: obind_Returns_iff)
    have s1: "still h d" using d(1) by (auto simp: deal_card_def still_def split: option.splits intro: quiet_frame)
    have s2: "still d (set_seat i (\<lambda>s. s\<lparr>se_hole := Some ((case se_hole s of Some cs \<Rightarrow> cs | None \<Rightarrow> []) @ [c])\<rparr>) d)"
      by (simp add: still_def set_seat_quiet seat_id_def)
    show ?thesis by (rule still_trans [OF s1 still_trans [OF s2 Cons.IH [OF d(2)]]])
  qed
qed (simp add: still_def)

lemma new_hand_logged:
  assumes "new_hand cfg = Returns (Inr h)"
  shows "config_of h = cfg" and "entries h = []" and "in_play h \<Longrightarrow> hd_street h = 0"
    and "in_play h \<or> hd_result h \<noteq> None"
proof -
  obtain deck where deck: "shuffled_deck (cf_seed_hex cfg) = Inr deck"
    using assms by (auto simp: new_hand_def split: sum.splits)
  define h0 where "h0 = fresh_hand cfg deck"
  define fb where "fb = order (int (cf_button cfg) + 1) h0"
  define live where "live = filter (\<lambda>i. \<not> se_out (hd_seats h0 ! i)) fb"
  define hu where "hu = (length live = 2)"
  define sb where "sb = (if hu then cf_button cfg else live ! 0)"
  define bb where "bb = (if hu then
     (case List.find (\<lambda>i. i \<noteq> cf_button cfg) live of Some i \<Rightarrow> i | None \<Rightarrow> live ! 1) else live ! 1)"
  define h1 where "h1 = post_blinds cfg live sb bb h0"
  define fin where "fin = (\<lambda>h. add_log ((log_ev ''deal'')\<lparr>le_sb := Some sb, le_bb := Some bb\<rparr>)
      (h\<lparr>hd_to_act := (if hu then int sb else next_actor (int bb + 1) h),
         hd_heads_up := hu, hd_sb_seat := sb, hd_bb_seat := bb\<rparr>))"
  have nh: "new_hand cfg = (if length live < 2 then Returns (Inl NeedTwoPlayers)
       else if sb \<ge> length (hd_seats h0) then Panics
       else obind (deal_round fb h1) (\<lambda>h. obind (deal_round fb h) (\<lambda>h.
         if filter (can_act (fin h)) (live_seats (fin h)) = []
         then obind (run_out (fin h)) (\<lambda>h. Returns (Inr h)) else Returns (Inr (fin h)))))"
    unfolding new_hand_def deck sum.case Let_def h0_def [symmetric] fb_def [symmetric] live_def [symmetric]
      hu_def [symmetric] sb_def [symmetric] bb_def [symmetric] h1_def [symmetric] fin_def ..
  have no1: "\<not> length live < 2" and no2: "\<not> sb \<ge> length (hd_seats h0)"
    using assms unfolding nh by (auto split: if_split_asm)
  obtain d1 d2 where d: "deal_round fb h1 = Returns d1" "deal_round fb d1 = Returns d2"
    "(if filter (can_act (fin d2)) (live_seats (fin d2)) = []
      then obind (run_out (fin d2)) (\<lambda>h. Returns (Inr h)) else Returns (Inr (fin d2))) =
     (Returns (Inr h) :: (engine_error + hand) outcome)"
    using assms unfolding nh if_not_P [OF no1] if_not_P [OF no2] obind_Returns_iff
    by blast
  define m where "m = fin d2"
  have m: "m = h \<or> run_out m = Returns h"
    using d(3) unfolding m_def by (auto simp: obind_Returns_iff split: if_split_asm)
  have fin: "still d2 m"
    by (simp add: m_def fin_def still_def quiet_def add_log_entries record_entry_def act_of_ev_def log_ev_def)
      (simp add: config_of_def entries_def)
  have eta: "\<lparr>sg_name = sg_name x, sg_stack = sg_stack x\<rparr> = x" for x :: seat_config by simp
  have "map (\<lambda>x. \<lparr>sg_name = sg_name x, sg_stack = sg_stack x\<rparr>) (cf_seats cfg) = cf_seats cfg"
    unfolding eta by simp
  then have cfg: "config_of (fresh_hand cfg deck) = cfg"
    by (cases cfg) (simp add: fresh_hand_def config_of_def comp_def seat_id_def)
  have f: "entries (fresh_hand cfg deck) = []"
    "hd_street (fresh_hand cfg deck) = 0" "in_play (fresh_hand cfg deck)"
    by (simp_all add: fresh_hand_def entries_def in_play_def map_filter_def)
  have "still h0 h1" unfolding h1_def by (rule post_blinds_still)
  from still_trans [OF this still_trans [OF deal_round_still [OF d(1)] still_trans [OF deal_round_still [OF d(2)] fin]]]
  have "still (fresh_hand cfg deck) m" unfolding h0_def .
  then have mm: "config_of m = cfg" "entries m = []" "hd_street m = 0" "in_play m"
    using f cfg by (simp_all add: still_def quiet_def in_play_def)
  show "config_of h = cfg" "entries h = []" "in_play h \<Longrightarrow> hd_street h = 0" "in_play h \<or> hd_result h \<noteq> None"
    using m mm run_out_quiet [of m h] run_out_over [of m h] by (auto simp: quiet_def)
qed

section \<open>The verifier accepts exactly the fair hands\<close>

lemma obind_sum_iff:
  "obind x (\<lambda>r. case r of Inl e \<Rightarrow> f e | Inr v \<Rightarrow> g v) = Returns z \<longleftrightarrow>
   (\<exists>e. x = Returns (Inl e) \<and> f e = Returns z) \<or> (\<exists>v. x = Returns (Inr v) \<and> g v = Returns z)"
proof (cases x)
  case (Returns r)
  then show ?thesis by (cases r) simp_all
qed (simp_all add: obind_def)

lemma obind_option_iff:
  "obind x (\<lambda>r. case r of Some e \<Rightarrow> f e | None \<Rightarrow> g) = Returns z \<longleftrightarrow>
   (\<exists>e. x = Returns (Some e) \<and> f e = Returns z) \<or> (x = Returns None \<and> g = Returns z)"
proof (cases x)
  case (Returns r)
  then show ?thesis by (cases r) simp_all
qed (simp_all add: obind_def)

lemma recorded_written: "written (recorded_action seat k to) = recorded_action seat k to"
  by (cases k) (simp_all add: written_def recorded_action_def raise_word_def)

lemma house_check_None:
  assumes "house_check sha (rust_engine decide) cl index a h = Returns None" and "cl_house_seat cl = Some (ac_seat a)"
  shows "en_bot_decide (rust_engine decide) h (ac_seat a) (cl_profile cl)
      (bot_seed sha (cl_seed cl) (length (hd_log h))) = Returns (Inr a)"
  using assms by (auto simp: house_check_def obind_sum_iff split: if_split_asm)

lemma rust_act [simp]: "en_act (rust_engine decide) = act" "en_new_hand (rust_engine decide) = new_hand"
  by (simp_all add: rust_engine_def)

lemma replay_fair:
  "\<lbrakk>replay sha (rust_engine decide) cl index e es h = Returns (Inr h'); cl_seed cl = cf_seed_hex cfg;
    fair_play sha decide (cl_house_seat cl) (cl_profile cl) cfg h\<rbrakk>
   \<Longrightarrow> fair_play sha decide (cl_house_seat cl) (cl_profile cl) cfg h'"
proof (induction sha "rust_engine decide" cl index e es h rule: replay.induct)
  case (3 sha cl index e seat k to amount es h)
  let ?a = "recorded_action seat k to"
  from 3(2) have c: "in_play h" "hd_street h = e" by (auto simp: Let_def split: if_split_asm)
  obtain g where g: "house_check sha (rust_engine decide) cl index ?a h = Returns None" "act h ?a = Returns (Inr g)"
    "replay sha (rust_engine decide) cl (index + 1) e es g = Returns (Inr h')"
    using 3(2) c by (auto simp: Let_def obind_option_iff obind_sum_iff)
  have "fair_play sha decide (cl_house_seat cl) (cl_profile cl) cfg g"
  proof (rule fair_act [OF 3(4) g(2)])
    assume "cl_house_seat cl = Some (ac_seat ?a)"
    from house_check_None [OF g(1) this] 3(3)
    show "en_bot_decide (rust_engine decide) h (ac_seat ?a) (cl_profile cl)
        (bot_seed sha (cf_seed_hex cfg) (length (hd_log h))) = Returns (Inr (written ?a))"
      by (simp add: recorded_written)
  qed
  then show ?case using 3(1) c g 3(3) by (auto simp: Let_def)
qed (auto simp: Let_def split: if_split_asm)

lemma replay_entries:
  assumes "fair_play sha decide (cl_house_seat cl) (cl_profile cl) cfg h" and size: "table_size_ok cfg"
    and seed: "cl_seed cl = cf_seed_hex cfg" and h0: "new_hand cfg = Returns (Inr h0)"
  shows "\<exists>e. (in_play h \<longrightarrow> e = hd_street h) \<and>
    (\<forall>es. replay sha (rust_engine decide) cl 0 0 (entries h @ es) h0 =
      replay sha (rust_engine decide) cl (length (entries h)) e es h)"
  using assms(1)
proof induction
  case (fair_deal h)
  then have "h = h0" using h0 by simp
  with new_hand_logged [OF fair_deal] show ?case by (intro exI [of _ 0]) simp
next
  case (fair_act h a h')
  let ?eng = "rust_engine decide"
  have ip: "in_play h" using fair_act(2) by (auto simp: act_def split: if_splits)
  have t: "play_ok h" by (rule reach_in_play [OF fair_play_reach [OF fair_act(1)] size ip])
  then have t: "table_ok h" and st: "hd_street h \<le> 3" by (simp_all add: play_ok_def table_ok_def)
  obtain k to amount m where l: "recorded_action (ac_seat a) k to = written a"
    "entries m = entries h @ [Act (ac_seat a) k to amount]" "hd_street m = hd_street h" "in_play m"
    "betting_step m h'"
    using act_logged [OF fair_act(2) st t] by blast
  obtain e where e: "e = hd_street h" "\<And>es. replay sha ?eng cl 0 0 (entries h @ es) h0 =
      replay sha ?eng cl (length (entries h)) e es h"
    using fair_act.IH ip by blast
  have hc: "house_check sha ?eng cl i (written a) h = Returns None" for i
    using fair_act(3) seed by (simp add: house_check_def written_def)
  have one: "replay sha ?eng cl (length (entries h)) e (Act (ac_seat a) k to amount # es) h =
      replay sha ?eng cl (length (entries m)) e es h'" for es
    using ip e(1) hc act_written [OF fair_act(2) t] by (simp add: Let_def l(1,2))
  from l(5) consider "entries h' = entries m" "in_play h' \<longrightarrow> hd_street h' = hd_street m"
    | s where "entries h' = entries m @ [Street s]" "street_no s = hd_street m + 1" "street_no s \<le> hd_street h'"
        "in_play h' \<longrightarrow> hd_street h' = street_no s"
    unfolding betting_step_def by blast
  then show ?case
  proof cases
    case 1
    then show ?thesis using e one l(2,3) by (intro exI [of _ e]) simp
  next
    case 2
    then have "replay sha ?eng cl (length (entries m)) e (Street s # es) h' =
        replay sha ?eng cl (length (entries h')) (street_no s) es h'" for es
      using e(1) l(3) by (simp add: Let_def)
    then show ?thesis using 2 e one l(2) by (intro exI [of _ "street_no s"]) simp
  qed
qed

text \<open>The claim is the one made for a hand the deal and the rules allow.\<close>

definition fair_claim :: "digest \<Rightarrow> bot \<Rightarrow> claim \<Rightarrow> hand \<Rightarrow> bool" where
  "fair_claim sha decide cl h \<longleftrightarrow>
     check_commit sha (cl_secret cl) (cl_commit cl) \<and>
     seed_of_many sha (cl_secret cl) (cl_nonces cl) = cl_seed cl \<and> rc_seed (cl_record cl) = cl_seed cl \<and>
     fair_play sha decide (cl_house_seat cl) (cl_profile cl) (record_config (cl_record cl)) h \<and>
     \<not> in_play h \<and> (\<exists>rep. record_of h None = Some rep \<and> compare_records rep (cl_record cl) = None)"

lemma verify_sound:
  assumes v: "verify sha (rust_engine decide) cl = Returns (Inr h)"
  shows "fair_claim sha decide cl h"
proof -
  let ?cfg = "record_config (cl_record cl)"
  have c: "check_commit sha (cl_secret cl) (cl_commit cl)"
    "seed_of_many sha (cl_secret cl) (cl_nonces cl) = cl_seed cl" "rc_seed (cl_record cl) = cl_seed cl"
    using v by (auto simp: verify_def Let_def split: if_split_asm)
  obtain h0 where h0: "new_hand ?cfg = Returns (Inr h0)"
    "replay sha (rust_engine decide) cl 0 0 (rc_actions (cl_record cl)) h0 = Returns (Inr h)"
    and fin: "\<not> in_play h" "\<exists>rep. record_of h None = Some rep \<and> compare_records rep (cl_record cl) = None"
    using v c by (auto simp: verify_def Let_def obind_sum_iff split: if_split_asm option.split_asm)
  have seed: "cl_seed cl = cf_seed_hex ?cfg" using c(3) by (simp add: record_config_def)
  have "fair_play sha decide (cl_house_seat cl) (cl_profile cl) ?cfg h"
    by (rule replay_fair [OF h0(2) seed fair_deal [OF h0(1)]])
  with c fin show ?thesis by (auto simp: fair_claim_def)
qed

lemma verify_complete:
  assumes size: "table_size_ok (record_config (cl_record cl))" and f: "fair_claim sha decide cl h"
  shows "verify sha (rust_engine decide) cl = Returns (Inr h)"
proof -
  let ?cfg = "record_config (cl_record cl)"
  note f = f [unfolded fair_claim_def]
  have fp: "fair_play sha decide (cl_house_seat cl) (cl_profile cl) ?cfg h" using f by blast
  have "\<exists>h0. new_hand ?cfg = Returns (Inr h0)"
    using fp by (induction) auto
  then obtain h0 where h0: "new_hand ?cfg = Returns (Inr h0)" by blast
  obtain rep where rep: "record_of h None = Some rep" "compare_records rep (cl_record cl) = None" using f by blast
  have "rc_actions rep = entries h"
    using rep(1) by (auto simp: record_of_def entries_def split: option.splits)
  then have acts: "rc_actions (cl_record cl) = entries h"
    using rep(2) by (auto simp: compare_records_def split: if_split_asm)
  have seed: "cl_seed cl = cf_seed_hex ?cfg" using f by (simp add: record_config_def)
  obtain e where "\<And>es. replay sha (rust_engine decide) cl 0 0 (entries h @ es) h0 =
      replay sha (rust_engine decide) cl (length (entries h)) e es h"
    using replay_entries [OF fp size seed h0] by blast
  from this [of "[]"] have "replay sha (rust_engine decide) cl 0 0 (rc_actions (cl_record cl)) h0 = Returns (Inr h)"
    by (simp add: acts)
  then show ?thesis using f h0 rep by (simp add: verify_def Let_def)
qed

end
