(* ===== verification/Poker_Honest.thy ===== *)
theory Poker_Honest
  imports Poker_Verify
begin

text \<open>
  What the verifier and the settlement promise: the records they accept, the honest hand that passes
  them, and the payment a finished heads-up hand owes.
\<close>

section \<open>The published record determines its configuration\<close>

lemma record_of_config:
  assumes "record_of h None = Some r"
  shows "record_config r = config_of h" and "rc_seed r = hd_seed_hex h"
proof -
  have names: "map (\<lambda>s. \<lparr>sg_name = hs_name s, sg_stack = hs_start_stack s\<rparr>)
      (map (\<lambda>(i, s). record_seat None i s) (enumerate k ss)) = map seat_id ss" for ss k
    by (induction ss arbitrary: k) (simp_all add: record_seat_def seat_id_def)
  have limit: "((if b then HoldemLimit else HoldemNoLimit) = HoldemLimit) = b" for b by simp
  show "record_config r = config_of h" "rc_seed r = hd_seed_hex h"
    using assms by (auto simp: record_of_def record_config_def config_of_def names limit simp del: map_map
      split: option.splits)
qed

lemma fair_play_config:
  assumes "fair_play sha decide house profile cfg h" and "table_size_ok cfg"
  shows "config_of h = cfg \<and> (in_play h \<or> hd_result h \<noteq> None)"
  using assms(1)
proof induction
  case (fair_deal h)
  then show ?case using new_hand_logged [of cfg h] by blast
next
  case (fair_act h a h')
  have ip: "in_play h" using fair_act(2) by (auto simp: act_def split: if_splits)
  have "play_ok h" by (rule reach_in_play [OF fair_play_reach [OF fair_act(1)] assms(2) ip])
  then have t: "table_ok h" "hd_street h \<le> 3" by (simp_all add: play_ok_def table_ok_def)
  obtain m where "config_of m = config_of h" "betting_step m h'"
    using act_logged [OF fair_act(2) t(2,1)] by blast
  then show ?case using fair_act.IH by (simp add: betting_step_def)
qed

lemma reach_fair: "reach cfg h \<Longrightarrow> fair_play sha decide None profile cfg h"
  by (induction rule: reach.induct) (auto intro: fair_deal fair_act)

lemma reach_config: "reach cfg h \<Longrightarrow> table_size_ok cfg \<Longrightarrow> config_of h = cfg"
  using fair_play_config [OF reach_fair [of cfg h undefined undefined undefined]] by blast

text \<open>The verifier without a house seat looks at the deal and the actions alone.\<close>

lemma replay_dealt_only:
  "replay sha eng cl i e es h = Returns (Inr h') \<Longrightarrow>
   cl_house_seat cl' = None \<Longrightarrow> replay sha eng cl' i e es h = Returns (Inr h')"
  by (induction sha eng cl i e es h rule: replay.induct)
    (auto simp: Let_def house_check_def obind_option_iff obind_sum_iff split: if_split_asm)


lemma replay_outcome:
  assumes "verify sha (rust_engine decide) cl = Returns (Inr h)"
    and "verify sha' (rust_engine decide') cl' = Returns (Inr h')"
    and "record_config (cl_record cl) = record_config (cl_record cl')"
    and "rc_actions (cl_record cl) = rc_actions (cl_record cl')"
  shows "h = h'"
proof -
  have dealt: "\<exists>h0. new_hand (record_config (cl_record cl)) = Returns (Inr h0) \<and>
      replay sha (rust_engine decide) (cl\<lparr>cl_house_seat := None\<rparr>) 0 0 (rc_actions (cl_record cl)) h0 = Returns (Inr h)"
    if v: "verify sha (rust_engine decide) cl = Returns (Inr h)" for sha decide cl h
  proof -
    obtain h0 where "new_hand (record_config (cl_record cl)) = Returns (Inr h0)"
      "replay sha (rust_engine decide) cl 0 0 (rc_actions (cl_record cl)) h0 = Returns (Inr h)"
      using v by (auto simp: verify_def Let_def obind_sum_iff split: if_split_asm option.split_asm)
    with replay_dealt_only [OF this(2), of "cl\<lparr>cl_house_seat := None\<rparr>"] show ?thesis by auto
  qed
  have no_house: "replay sha (rust_engine decide) (cl\<lparr>cl_house_seat := None\<rparr>) i e es g = replay sha' (rust_engine decide') (cl'\<lparr>cl_house_seat := None\<rparr>) i e es g"
    for i e es g
  proof (induction es arbitrary: i e g)
    case (Cons x es)
    then show ?case by (cases x) (auto simp: Let_def house_check_def obind_def split: outcome.splits sum.splits)
  qed simp
  obtain h0 where "new_hand (record_config (cl_record cl)) = Returns (Inr h0)"
    "replay sha (rust_engine decide) (cl\<lparr>cl_house_seat := None\<rparr>) 0 0 (rc_actions (cl_record cl)) h0 = Returns (Inr h)"
    using dealt [OF assms(1)] by blast
  moreover obtain h0' where "new_hand (record_config (cl_record cl)) = Returns (Inr h0')"
    "replay sha' (rust_engine decide') (cl'\<lparr>cl_house_seat := None\<rparr>) 0 0 (rc_actions (cl_record cl)) h0' = Returns (Inr h')"
    using dealt [OF assms(2)] assms(3,4) by auto
  ultimately show ?thesis using no_house by simp
qed

text \<open>An amount on an action that is no raise is lost in the record, so the verifier rejects the play.\<close>

lemma amounted_call_refused:
  assumes "cl_house_seat cl = Some seat"
    and "en_bot_decide (rust_engine decide) h seat (cl_profile cl) (bot_seed sha (cl_seed cl) (length (hd_log h)))
      = Returns (Inr d)"
    and "\<not> raise_word (ac_action d)" and "ac_amount d \<noteq> None"
  shows "house_check sha (rust_engine decide) cl index (recorded_action seat k to) h \<noteq> Returns None"
proof -
  have "d \<noteq> recorded_action seat k to"
    using assms(3,4) by (cases k) (auto simp: recorded_action_def raise_word_def)
  then show ?thesis using assms(1,2) by (simp add: house_check_def recorded_action_def)
qed

section \<open>A finished duel\<close>

definition fold_first :: action where
  "fold_first = \<lparr>ac_seat = 0, ac_action = ''fold'', ac_amount = None\<rparr>"

text \<open>The duel with equal stacks, as the house deals it.\<close>

definition even_duel :: hand_config where
  "even_duel = duel\<lparr>cf_seats := [\<lparr>sg_name = ''ann'', sg_stack = 40\<rparr>, \<lparr>sg_name = ''bob'', sg_stack = 40\<rparr>]\<rparr>"

lemmas fold_run = Let_def duel_def even_duel_def fresh_hand_def order_def post_blinds_def commit_def fold_first_def
  set_seat_def commit_seat_def add_log_def deal_card_def get_at_def in_play_def live_seats_def can_act_def in_hand_def
  act_def legal_def legal_moves.simps play_move_def advance_def finish_def refund_def scoop_def sort_desc_def position.simps

lemma folded_over: "new_hand cfg = Returns (Inr h) \<and> act h a = Returns (Inr g) \<and> \<not> in_play g \<Longrightarrow>
    \<exists>h. reach cfg h \<and> \<not> in_play h"
  by (auto intro: reach_deal reach_act)

lemma duel_folded: "\<exists>h. reach duel h \<and> \<not> in_play h"
proof -
  obtain deck where d: "shuffled_deck (cf_seed_hex duel) = Inr deck" using duel_deck by blast
  have len: "length deck = 52" by (rule deck_length [OF d])
  have "\<exists>h g. new_hand duel = Returns (Inr h) \<and> act h fold_first = Returns (Inr g) \<and> \<not> in_play g"
    unfolding new_hand_def d by (simp add: len fold_run)
  then show ?thesis using folded_over by blast
qed

lemma even_duel_folded: "\<exists>h. reach even_duel h \<and> \<not> in_play h"
proof -
  obtain deck where d: "shuffled_deck (cf_seed_hex even_duel) = Inr deck"
    using duel_deck by (auto simp: even_duel_def)
  have len: "length deck = 52" by (rule deck_length [OF d])
  have "\<exists>h g. new_hand even_duel = Returns (Inr h) \<and> act h fold_first = Returns (Inr g) \<and> \<not> in_play g"
    unfolding new_hand_def d by (simp add: len fold_run)
  then show ?thesis using folded_over by blast
qed

text \<open>A bot that always folds.\<close>

definition folding_bot :: bot where
  "folding_bot view l profile rng = Returns \<lparr>ac_seat = lg_seat l, ac_action = ''fold'', ac_amount = None\<rparr>"

text \<open>A digest that gives the duel's seed, and the claim for a hand of the duel between two members.\<close>

definition duel_digest :: digest where
  "duel_digest text = replicate 64 (CHR ''a'')"

definition duel_claim :: "hand_record \<Rightarrow> claim" where
  "duel_claim r = \<lparr>cl_commit = replicate 64 (CHR ''a''), cl_secret = replicate 64 (CHR ''b''), cl_nonces = [],
     cl_seed = cf_seed_hex duel, cl_record = r, cl_house_seat = None, cl_profile = ''tag''\<rparr>"

lemma lower_hex64_b: "lower_hex64 (replicate 64 (CHR ''b''))"
  by (simp add: lower_hex64_def list_all_iff code_of_def)

lemma compare_records_refl [simp]: "compare_records r r = None"
  by (simp add: compare_records_def)

lemma duel_fair: "\<exists>h r. record_config r = duel \<and> fair_claim duel_digest decide (duel_claim r) h"
proof -
  obtain h where h: "reach duel h" "\<not> in_play h" using duel_folded by blast
  from h(1) have f: "fair_play duel_digest decide None ''tag'' duel h" by (rule reach_fair)
  then have c: "config_of h = duel" "hd_result h \<noteq> None"
    using fair_play_config [OF f duel_size(1)] h(2) by auto
  then obtain r where r: "record_of h None = Some r" by (auto simp: record_of_def)
  note rc = record_of_config [OF r]
  have "rc_seed r = cf_seed_hex duel" using rc(2) c(1) by (metis config_of_def hand_config.select_convs(6))
  then have "fair_claim duel_digest decide (duel_claim r) h"
    using f h(2) r rc(1) c(1) lower_hex64_b
    by (simp add: fair_claim_def duel_claim_def check_commit_def commit_to_def duel_digest_def seed_of_many_def duel_def)
  with rc(1) c(1) show ?thesis by auto
qed

section \<open>The guarantees\<close>

text \<open>C35. The verifier is exact: it accepts a claim, with the final hand it replayed, precisely when the
  secret opens the commitment, secret and nonces fix the seed, and the record is that of a finished hand
  dealt from that seed, played by legal actions, in which every action of the house seat is the one its
  bot decides under the seed derived at that step.\<close>

theorem verify_iff:
  assumes "table_size_ok (record_config (cl_record cl))"
  shows "verify sha (rust_engine decide) cl = Returns (Inr h) \<longleftrightarrow> fair_claim sha decide cl h"
  using verify_sound verify_complete [OF assms] by blast

lemma verify_iff_witness:
  "\<exists>h r. record_config r = duel \<and> fair_claim duel_digest folding_bot (duel_claim r) h \<and>
     verify duel_digest (rust_engine folding_bot) (duel_claim r) = Returns (Inr h)"
proof -
  obtain h r where r: "record_config r = duel" "fair_claim duel_digest folding_bot (duel_claim r) h"
    using duel_fair by blast
  then have "table_size_ok (record_config (cl_record (duel_claim r)))"
    using duel_size(1) by (simp add: duel_claim_def)
  from verify_iff [OF this] r show ?thesis by blast
qed



text \<open>C38. The outcome cannot be forged: two claims the verifier accepts that name the same deal and the same
  actions, whatever secrets, houses and bots they cite, end in the same hand, with the same board, hole
  cards, start stacks and result.\<close>

theorem verified_outcome_unique:
  assumes "verify sha (rust_engine decide) cl = Returns (Inr h)"
    and "verify sha' (rust_engine decide') cl' = Returns (Inr h')"
    and "record_config (cl_record cl) = record_config (cl_record cl')"
    and "rc_actions (cl_record cl) = rc_actions (cl_record cl')"
  shows "h = h' \<and> rc_result (cl_record cl) = rc_result (cl_record cl') \<and>
    rc_board (cl_record cl) = rc_board (cl_record cl') \<and>
    map unnamed (rc_seats (cl_record cl)) = map unnamed (rc_seats (cl_record cl'))"
proof -
  have h: "h = h'" by (rule replay_outcome [OF assms])
  have "\<exists>rep. record_of h None = Some rep \<and> compare_records rep (cl_record cl) = None"
    "\<exists>rep. record_of h None = Some rep \<and> compare_records rep (cl_record cl') = None"
    using verify_sound [OF assms(1)] verify_sound [OF assms(2)] h by (auto simp: fair_claim_def)
  then show ?thesis using h by (auto simp: compare_records_def split: if_split_asm)
qed

lemma verified_outcome_unique_witness:
  "\<exists>h h' r. verify duel_digest (rust_engine folding_bot) (duel_claim r) = Returns (Inr h) \<and>
     verify duel_digest (rust_engine folding_bot) (duel_claim (r\<lparr>rc_context := None\<rparr>)) = Returns (Inr h') \<and> h = h'"
proof -
  obtain h r where r: "record_config r = duel" "fair_claim duel_digest folding_bot (duel_claim r) h"
    using duel_fair by blast
  have c: "record_config (r\<lparr>rc_context := None\<rparr>) = record_config r"
    "compare_records rep (r\<lparr>rc_context := None\<rparr>) = compare_records rep r" for rep
    by (simp_all add: record_config_def compare_records_def)
  have "fair_claim duel_digest folding_bot (duel_claim (r\<lparr>rc_context := None\<rparr>)) h"
    using r by (simp add: fair_claim_def duel_claim_def c)
  with r have v: "verify duel_digest (rust_engine folding_bot) (duel_claim r) = Returns (Inr h)"
    "verify duel_digest (rust_engine folding_bot) (duel_claim (r\<lparr>rc_context := None\<rparr>)) = Returns (Inr h)"
    using duel_size(1) by (auto intro!: verify_complete simp: duel_claim_def c)
  obtain h' where v': "verify duel_digest (rust_engine folding_bot) (duel_claim (r\<lparr>rc_context := None\<rparr>)) = Returns (Inr h')"
    using v(2) by blast
  from verified_outcome_unique [OF v(1) v'] have "h = h'" by (simp add: duel_claim_def c)
  with v(1) v' show ?thesis by blast
qed

section \<open>What a heads-up hand owes\<close>

text \<open>C37. A finished heads-up hand can always be settled: with both seats starting on the buy-in, the
  settlement read off the hero's final stack is never refused, and its one payment, at most the buy-in,
  is exactly what the payer lost and the payee won; nothing is owed when both kept their buy-in.\<close>

theorem settlement_pays_the_difference:
  assumes "cf_seats cfg = [a, b]" and "sg_stack a = buyin" and "sg_stack b = buyin" and "0 < buyin"
    and "table_size_ok cfg" and "reach cfg h" and "\<not> in_play h"
  shows "\<exists>hero citizen. hd_seats h = [hero, citizen] \<and>
    (settlement True (se_stack hero) buyin = Inr None \<and> se_stack hero = buyin \<and> se_stack citizen = buyin \<or>
     (\<exists>won. 0 < won \<and> won \<le> buyin \<and>
       (settlement True (se_stack hero) buyin = Inr (Some \<lparr>st_from = Citizen, st_to = Hero, st_amount = won\<rparr>) \<and>
          se_stack hero = buyin + won \<and> se_stack citizen = buyin - won \<or>
        settlement True (se_stack hero) buyin = Inr (Some \<lparr>st_from = Hero, st_to = Citizen, st_amount = won\<rparr>) \<and>
          se_stack hero = buyin - won \<and> se_stack citizen = buyin + won)))"
proof -
  have "map seat_id (hd_seats h) = cf_seats cfg"
    using reach_config [OF assms(6,5)] by (metis config_of_def hand_config.select_convs(1))
  then have "length (hd_seats h) = 2" by (metis assms(1) length_map length_Cons list.size(3) numeral_2_eq_2)
  then obtain hero citizen where hc: "hd_seats h = [hero, citizen]"
    by (auto simp: length_Suc_conv numeral_2_eq_2)
  have "stacks h = buy_in cfg" using reach_ok [OF assms(6,5)] assms(7) by (auto simp: paid_out_def play_ok_def table_ok_def)
  then have sum: "se_stack hero + se_stack citizen = 2 * buyin"
    using hc assms(1-3) by (simp add: stacks_def buy_in_def)
  consider "se_stack hero = buyin" | "buyin < se_stack hero" | "se_stack hero < buyin" by linarith
  then show ?thesis
  proof cases
    case 1
    then show ?thesis using hc sum assms(4) by (simp add: settlement_def Let_def)
  next
    case 2
    then show ?thesis using hc sum assms(4)
      by (simp add: settlement_def Let_def) arith
  next
    case 3
    then show ?thesis using hc sum assms(4)
      by (simp add: settlement_def Let_def) arith
  qed
qed

lemma settlement_pays_the_difference_witness:
  "\<exists>h hero citizen. reach even_duel h \<and> \<not> in_play h \<and> hd_seats h = [hero, citizen] \<and>
     (\<exists>s. settlement True (se_stack hero) 40 = Inr s)"
proof -
  obtain h where h: "reach even_duel h" "\<not> in_play h" using even_duel_folded by blast
  have "table_size_ok even_duel" by (simp add: table_size_ok_def even_duel_def duel_def)
  from settlement_pays_the_difference [OF _ _ _ _ this h, of _ _ 40] h
  show ?thesis by (fastforce simp: even_duel_def)
qed

end
