(* ===== verification/Spec2Isabelle.thy ===== *)
theory Spec2Isabelle
  imports Application Sweep Pay_Routes Gate_Safety Poker_Honest
begin

text \<open>
  A verification development of the nostr-rust-forum workspace: a Nostr forum whose server side is a
  relay in a Cloudflare Worker (a Durable Object in front of a D1 database), a pod worker with a ledger
  of sats, an auth worker, and a library of domain rules the workers and clients share. The
  development models the parts that decide something: who may write, read, decide, pay or play, and
  what the tables hold afterwards.

  \<^bold>\<open>Conventions.\<close> A Rust \<open>String\<close> is the list of its UTF-8 bytes; byte slicing is modelled with its
  panic (\<open>outcome\<close>: \<open>Panics\<close> or \<open>Returns\<close>). \<open>u64\<close> values are natural numbers unless the width
  matters (the wire format bounds them by \<open>2 ^ 64\<close>); the 32-bit lanes of the shuffle are words; an
  \<open>f64\<close> is the rational it denotes, rounded explicitly to 53 bits (\<open>Trust\<close>). An error is a
  constructor of the code's error type on the left of a sum. A SQL table is the list of its rows and
  each statement a function on them, named after the code's constant; a call of the database may be
  delivered, lost on the way, or delivered with its reply lost (\<open>net\<close>), so every caller is modelled
  with the faults it can see. Third-party code (signature checks, base64, JSON numbers, the chain
  explorer, hashes) is a field of a host record or an argument.

  \<^bold>\<open>Foundations.\<close>
  \<^item> \<open>Prelude\<close>: bytes, UTF-8, slices, \<open>outcome\<close>, list access. \<open>Machine\<close>: the locales a stateful
    component interprets (\<open>step_machine\<close>: a relation every step respects; \<open>invariant_machine\<close>: an
    invariant every step keeps), with the consequence for a whole run.
  \<^item> \<open>Events\<close>: events, tags and JSON values (\<open>nostr-bbs-core/src/event.rs\<close>).

  \<^bold>\<open>Governance.\<close>
  \<^item> \<open>Governance\<close>: risk tiers, task properties, the receipt ladder (\<open>nostr-bbs-core/src/governance.rs\<close>).
    The effective tier never falls below what the panel, the action or the properties ask for.
  \<^item> \<open>Broker\<close>: the case aggregate of the module \<open>broker\<close>: claims, decisions, supersession, share
    transitions, the orchestrator and the stored snapshot; its history is an append-only log
    (\<open>case_log\<close>, an interpretation of \<open>step_machine\<close>).
  \<^item> \<open>Ontology\<close>: the ontology profile (\<open>ontology_governance.rs\<close>) and its civil-day arithmetic.
  \<^item> \<open>Boundary\<close>: what \<open>relay_do/nip_handlers.rs\<close> derives and plans before it touches its tables:
    panel policy, calibration sample, request boundary, response, supersession and appeal plans.
  \<^item> \<open>Receipts\<close>, \<open>Receipt_Store\<close>: the governance tables and the conditional batches of
    \<open>relay_do/receipts.rs\<close>; the locale \<open>receipt_store\<close> states what a caller may rely on when calls are
    lost and is interpreted on the code's statements. \<open>Projection\<close>: the projections of governance
    events; a replayed response has one effect. \<open>Application\<close>: the receipts endpoint of the auth
    worker (\<open>governance_api.rs\<close>) and the consequences that span several calls.

  \<^bold>\<open>The relay.\<close>
  \<^item> \<open>Filters\<close>, \<open>Storage\<close>: the filter compiled to SQL and matched in memory (\<open>filter.rs\<close>), the events
    table with its tag index, replaceable storage, deletion, creators and profiles, the stored read
    (\<open>storage.rs\<close>). A stored read and a live match select the same events.
  \<^item> \<open>Access\<close>: zones and cohorts (\<open>zone_config.rs\<close>, \<open>trust.rs\<close>), NIP-42, sealed and encrypted
    content, free/busy calendars, \<open>authorize_event\<close> and \<open>broadcast_to\<close>.
  \<^item> \<open>Trust\<close>, \<open>Sweep\<close>: trust levels, demotion and the paged nightly sweep (\<open>trust_sweep.rs\<close>). The
    sweep recurses on the rows of the table that are still ahead of its cursor.
  \<^item> \<open>Caches\<close>, \<open>Moderation\<close>: rate limits, memos and activity counters; the moderation log and the
    state resolved from it (\<open>mod_cache.rs\<close>, \<open>moderation.rs\<close>).
  \<^item> \<open>Event_Gate\<close>: \<open>handle_event\<close> from the first gate to the last projection; the run either
    finishes or traps, and what a trap leaves behind is part of the model. \<open>Gate_Safety\<close>: what
    the composition guarantees.

  \<^bold>\<open>Sats.\<close> \<open>Ledger\<close>: the statements and batches of \<open>nostr-bbs-pod-worker/src/pay_ledger.rs\<close>;
  \<open>Pay_Routes\<close>: the signed routes over them. A hold is released in one of three ways that share the
  locale \<open>hold_release\<close>; the ledger invariant is an \<open>invariant_machine\<close>. Sums are natural numbers or
  integers as the statements compute them in SQLite.

  \<^bold>\<open>Poker.\<close> All of \<open>nostr-bbs-poker/src/engine.rs\<close>, and \<open>record.rs\<close>,
  \<open>rules.rs\<close>, \<open>fair.rs\<close> and \<open>verify.rs\<close> beside it.
  \<^item> \<open>Cards\<close>: cards, the seeded xorshift shuffle, the evaluator and spoken names.
  \<^item> \<open>Holdem\<close>: the hand: the deal, the legal envelope, the action step, streets, side pots, showdown
    and the seat view. Chips are natural numbers: the sums of the code stay exact while the buy-ins
    sum below \<open>2 ^ 64\<close>. \<open>run_streets\<close> takes as many turns as streets are left.
  \<^item> \<open>Holdem_Play\<close>, \<open>Holdem_Safe\<close>, \<open>Holdem_End\<close>: pots and payouts, the invariant of a hand in play,
    and the guarantees over reachable hands (an interpretation of \<open>invariant_machine\<close>), for tables
    of at most twenty-three seats, which is what 52 cards can serve. Termination is by a lexicographic
    measure: in play, a seat that cannot act is asked, chips behind, live seats, streets left,
    unsettled seats, distance to the next of them.
  \<^item> \<open>Poker_Record\<close>: the published record of a hand, stakes, what a finished hand owes, payment memos.
    \<open>Poker_Trace\<close>: every step of the engine keeps the configuration and logs the actions and streets.
    \<open>Poker_Verify\<close>: commitments and the replay of a claim. SHA-256 and the house bot's strategy are
    parameters about which nothing is assumed. \<open>fair_play\<close> is the specification: a hand dealt from the
    committed seed, played by accepted actions, in which the house plays what its bot decides.
    \<open>Poker_Honest\<close>: the verifier accepts exactly the fair claims, an honest record verifies, an outcome
    cannot be forged, and a finished heads-up hand can always be settled.

  \<^bold>\<open>Not modelled.\<close> User interfaces (the forum and terminal clients), serving of HTTP and WebSocket
  frames, web push delivery, WebAuthn ceremonies, the Solid routes of the pod worker, the derivation of
  deposit addresses and every cryptographic primitive: they are glue over browser or third-party code,
  or rest on it entirely. The read API of receipts (\<open>handle_receipts_list\<close>), the canonical
  JSON bytes of a poker record (shortest printing of floats), the floating-point strategy of the poker
  bots and the administration of members are not modelled.
\<close>

end
